(* ===== verification/Prelude.thy ===== *)
theory Prelude
  imports Complex_Main "HOL-Library.Word" "HOL-Library.Log_Nat" "HOL-Library.Sublist"
begin

text \<open>
  What every component of the development shares: the machine types of the Go program
  (\<open>int64\<close> and \<open>uint64\<close> as 64-bit words, read as signed through \<open>sint\<close>), the
  named collections that the component proofs are run with, and lemmas on words, maps and
  strings that more than one component needs.
\<close>

section \<open>Machine types\<close>

type_synonym int64 = "64 word"
type_synonym uint64 = "64 word"

text \<open>
  \<open>go_simps\<close> collects the rewrite rules that move a goal about signed words to the
  integers, \<open>op_defs\<close> the definitions of the straight-line operations, so that a component
  proof unfolds its operations with \<open>simp add: op_defs\<close>.
\<close>

named_theorems go_simps \<open>signed words read as integers\<close>
named_theorems op_defs \<open>definitions of the straight-line operations of the program\<close>

declare word_sless_alt [go_simps] word_sle_eq [go_simps]
declare of_int_sint [simp del]

section \<open>Signed 64-bit arithmetic\<close>

definition in_int64 :: "int \<Rightarrow> bool" where
  "in_int64 x \<longleftrightarrow> - (2 ^ 63) \<le> x \<and> x < 2 ^ 63"

lemma sint_in_int64 [simp, intro]: "in_int64 (sint (a :: int64))"
  using sint_range_size [of a] by (simp add: in_int64_def word_size)

lemma sint_add_int64: "in_int64 (sint a + sint b) \<Longrightarrow> sint (a + b :: int64) = sint a + sint b"
  by (simp add: sint_word_add in_int64_def signed_take_bit_int_eq_self)

lemma sint_diff_int64: "in_int64 (sint a - sint b) \<Longrightarrow> sint (a - b :: int64) = sint a - sint b"
  by (simp add: sint_word_diff in_int64_def signed_take_bit_int_eq_self)

lemma sint_mult_int64: "in_int64 (sint a * sint b) \<Longrightarrow> sint (a * b :: int64) = sint a * sint b"
  by (simp add: sint_word_mult in_int64_def signed_take_bit_int_eq_self)

lemma sint_of_int_int64: "in_int64 x \<Longrightarrow> sint (word_of_int x :: int64) = x"
  by (simp add: sint_sbintrunc' in_int64_def signed_take_bit_int_eq_self)

lemma sint_less_int64: "sint (a :: int64) < 2 ^ 63" and sint_ge_int64: "- (2 ^ 63) \<le> sint (a :: int64)"
  using sint_in_int64 [of a] by (simp_all only: in_int64_def)

lemma sint_zero_int64 [simp]: "sint (0 :: int64) = 0"
  by simp

lemma sint_inject_int64: "sint (a :: int64) = sint b \<longleftrightarrow> a = b"
  by (auto intro: signed_word_eqI)

section \<open>Sums over the entries of a map\<close>

text \<open>
  \<open>entries_sum P f m\<close> adds \<open>f\<close> over the values of the finite map \<open>m\<close> that satisfy
  \<open>P\<close>. Word addition wraps and is still a commutative group, so the laws hold for machine
  integers without any bound.
\<close>

definition entries_sum :: "('v \<Rightarrow> bool) \<Rightarrow> ('v \<Rightarrow> 'a :: comm_monoid_add) \<Rightarrow> ('k \<rightharpoonup> 'v) \<Rightarrow> 'a" where
  "entries_sum P f m = (\<Sum>k \<in> dom m. if P (the (m k)) then f (the (m k)) else 0)"

lemma entries_sum_empty [simp]: "entries_sum P f Map.empty = 0"
  by (simp add: entries_sum_def)

lemma entries_sum_insert:
  assumes "finite (dom m)" and "m k = None"
  shows "entries_sum P f (m(k \<mapsto> v)) = (if P v then f v else 0) + entries_sum P f m"
proof -
  have "k \<notin> dom m" using assms(2) by auto
  then have "(\<Sum>j \<in> dom m. if P (the ((m(k \<mapsto> v)) j)) then f (the ((m(k \<mapsto> v)) j)) else 0)
      = entries_sum P f m"
    unfolding entries_sum_def by (intro sum.cong) auto
  with assms \<open>k \<notin> dom m\<close> show ?thesis
    by (simp add: entries_sum_def)
qed

lemma entries_sum_remove:
  assumes "finite (dom m)" and "m k = Some u"
  shows "entries_sum P f m = (if P u then f u else 0) + entries_sum P f (m(k := None))"
proof -
  have "m = (m(k := None))(k \<mapsto> u)" using assms(2) by auto
  moreover have "finite (dom (m(k := None)))" using assms(1) by simp
  ultimately show ?thesis using entries_sum_insert [of "m(k := None)" k P f u] by simp
qed

lemma entries_sum_update:
  fixes f :: "'v \<Rightarrow> 'a :: ab_group_add"
  assumes "finite (dom m)" and "m k = Some u"
  shows "entries_sum P f (m(k \<mapsto> v))
    = entries_sum P f m - (if P u then f u else 0) + (if P v then f v else 0)"
proof -
  have "entries_sum P f (m(k \<mapsto> v)) = (if P v then f v else 0) + entries_sum P f (m(k := None))"
    using entries_sum_insert [of "m(k := None)" k P f v] assms(1) by simp
  with entries_sum_remove [OF assms, of P f] show ?thesis by simp
qed

lemma entries_sum_nonneg:
  fixes f :: "'v \<Rightarrow> int"
  assumes "\<And>k v. m k = Some v \<Longrightarrow> P v \<Longrightarrow> 0 \<le> f v"
  shows "0 \<le> entries_sum P f m"
  unfolding entries_sum_def using assms by (intro sum_nonneg) auto

lemma entries_sum_member_le:
  fixes f :: "'v \<Rightarrow> int"
  assumes "finite (dom m)" "m k = Some v" "P v"
    and "\<And>k v. m k = Some v \<Longrightarrow> P v \<Longrightarrow> 0 \<le> f v"
  shows "f v \<le> entries_sum P f m"
proof -
  have "0 \<le> entries_sum P f (m(k := None))"
    using assms(4) by (intro entries_sum_nonneg) (auto split: if_splits)
  then show ?thesis using entries_sum_remove [OF assms(1,2), of P f] assms(3) by simp
qed

section \<open>Separated suffixes\<close>

text \<open>
  Identifiers are built as a prefix, a dash and a decimal counter. Two such strings are equal
  only if the counters are, whatever the prefixes hold, because the counter has no dash.
\<close>

lemma suffix_after_separator:
  assumes eq: "p @ c # xs = q @ c # ys" and "c \<notin> set xs" and "c \<notin> set ys"
  shows "p = q \<and> xs = ys"
proof -
  have *: "takeWhile (\<lambda>x. x \<noteq> c) (rev (r @ c # zs)) = rev zs" if "c \<notin> set zs" for r zs
  proof -
    have "takeWhile (\<lambda>x. x \<noteq> c) (rev zs @ c # rev r) = rev zs"
      using that by (subst takeWhile_append2) auto
    then show ?thesis by simp
  qed
  from eq have "rev xs = rev ys" using *[OF assms(2), of p] *[OF assms(3), of q] by metis
  with eq show ?thesis by simp
qed

end
