(* ===== verification/Float64.thy ===== *)
theory Float64
  imports Prelude
begin

text \<open>
  The \<open>float64\<close> of Go: IEEE 754 binary64 with round to nearest, ties to even. A finite
  value is the rational it denotes, an operation is the exact operation followed by
  \<open>of_rat64\<close>, which rounds to 53 bits (fewer below the normal range) and overflows to an
  infinity. The two zeros are one value: the program divides by quantities it has compared
  with zero or by configured constants, and a Go constant is never the negative zero.
  The compiler's licence to fuse \<open>x*y + z\<close> (used on arm64, not on amd64) is not modelled.
\<close>

section \<open>Rounding\<close>

definition div_even :: "int \<Rightarrow> int \<Rightarrow> int" where
  "div_even p q =
     (let f = p div q; r = 2 * (p mod q)
      in if r < q then f else if q < r then f + 1 else if even f then f else f + 1)"

definition expo :: "rat \<Rightarrow> int" where
  "expo x =
     (let (p, q) = quotient_of x; e = bitlen p - bitlen q
      in if (if 0 \<le> e then q * 2 ^ nat e \<le> p else q \<le> p * 2 ^ nat (- e)) then e else e - 1)"

definition ulp_exp :: "rat \<Rightarrow> int" where
  "ulp_exp x = max (expo \<bar>x\<bar> - 52) (- 1074)"

definition rnd :: "rat \<Rightarrow> rat" where
  "rnd x =
     (let k = ulp_exp x; (p, q) = quotient_of x
      in if 0 \<le> k then of_int (div_even p (q * 2 ^ nat k) * 2 ^ nat k)
         else Fract (div_even (p * 2 ^ nat (- k)) q) (2 ^ nat (- k)))"

datatype float64 = Fin rat | PInf | NInf | NaN

definition of_rat64 :: "rat \<Rightarrow> float64" where
  "of_rat64 x =
     (let r = rnd x
      in if r \<noteq> 0 \<and> 1024 \<le> expo \<bar>r\<bar> then (if 0 < r then PInf else NInf) else Fin r)"

subsection \<open>Rounding to an integer\<close>

definition round_even :: "rat \<Rightarrow> int" where
  "round_even x =
     (let f = \<lfloor>x\<rfloor>; d = x - of_int f
      in if d < 1 / 2 then f else if 1 / 2 < d then f + 1 else if even f then f else f + 1)"

lemma div_even_round: "0 < q \<Longrightarrow> div_even p q = round_even (of_int p / of_int q)"
proof -
  assume q: "0 < q"
  have f: "\<lfloor>of_int p / of_int q :: rat\<rfloor> = p div q"
    by (simp add: floor_divide_of_int_eq)
  have "(of_int p :: rat) = of_int (p mod q) + of_int q * of_int (p div q)"
    by (metis mod_mult_div_eq of_int_add of_int_mult)
  then have d: "(of_int p / of_int q :: rat) - of_int (p div q) = of_int (p mod q) / of_int q"
    using q by (simp add: field_simps)
  have 1: "(of_int (p mod q) / of_int q :: rat) < 1 / 2 \<longleftrightarrow> 2 * (p mod q) < q"
  proof -
    have "(of_int (p mod q) / of_int q :: rat) < 1 / 2 \<longleftrightarrow> of_int (2 * (p mod q)) < (of_int q :: rat)"
      using q by (simp add: field_simps)
    then show ?thesis by (simp only: of_int_less_iff)
  qed
  have 2: "1 / 2 < (of_int (p mod q) / of_int q :: rat) \<longleftrightarrow> q < 2 * (p mod q)"
  proof -
    have "1 / 2 < (of_int (p mod q) / of_int q :: rat) \<longleftrightarrow> (of_int q :: rat) < of_int (2 * (p mod q))"
      using q by (simp add: field_simps)
    then show ?thesis by (simp only: of_int_less_iff)
  qed
  show ?thesis
    unfolding div_even_def round_even_def Let_def f d 1 2 ..
qed

lemma round_even_near: "\<bar>of_int (round_even x) - x\<bar> \<le> 1 / 2"
  unfolding round_even_def Let_def by (auto simp: abs_if split: if_splits) linarith+

lemma round_even_of_int [simp]: "round_even (of_int n) = n"
  by (simp add: round_even_def)

lemma round_even_mono: "x \<le> y \<Longrightarrow> round_even x \<le> round_even y"
proof (rule ccontr)
  assume le: "x \<le> y" and "\<not> round_even x \<le> round_even y"
  then have "round_even y + 1 \<le> round_even x" by simp
  then have "(of_int (round_even y) + 1 :: rat) \<le> of_int (round_even x)"
    by (metis of_int_1 of_int_add of_int_le_iff)
  with round_even_near [of x] round_even_near [of y] le have "x = y" by (auto simp: abs_le_iff)
  with \<open>round_even y + 1 \<le> round_even x\<close> show False by simp
qed

lemma round_even_minus: "round_even (- x) = - round_even x"
proof (cases "x = of_int \<lfloor>x\<rfloor>")
  case True
  then show ?thesis by (metis of_int_minus round_even_of_int)
next
  case False
  then have "of_int \<lfloor>x\<rfloor> < x" using of_int_floor_le [of x] by linarith
  then have f: "\<lfloor>- x\<rfloor> = - \<lfloor>x\<rfloor> - 1" by linarith
  show ?thesis
    unfolding round_even_def Let_def f
    by (auto split: if_splits)
qed

subsection \<open>The exponent\<close>

lemma powi2_pos [simp]: "(0 :: rat) < 2 powi k"
  by (simp add: zero_less_power_int)

lemma powi2_le_iff [simp]: "(2 :: rat) powi m \<le> 2 powi n \<longleftrightarrow> m \<le> n"
proof
  show "m \<le> n" if "(2 :: rat) powi m \<le> 2 powi n"
    using that power_int_strict_increasing [of n m "2 :: rat"] by (cases "n < m") auto
qed (simp add: power_int_increasing)

lemma powi2_mult_diff: "(2 :: rat) powi (m - n) * 2 powi n = 2 powi m"
  by (simp flip: power_int_add)

lemma powi2_nat: "0 \<le> k \<Longrightarrow> (2 :: rat) powi k = of_int (2 ^ nat k)"
  by (simp add: power_int_def)

lemma powi2_neg: "k \<le> 0 \<Longrightarrow> (2 :: rat) powi k = 1 / of_int (2 ^ nat (- k))"
  by (cases "k = 0") (simp_all add: power_int_def power_one_over inverse_eq_divide)

lemma bitlen_powi:
  assumes "0 < p"
  shows "(2 :: rat) powi (bitlen p - 1) \<le> of_int p" and "(of_int p :: rat) < 2 powi bitlen p"
proof -
  have b: "1 \<le> bitlen p" using assms bitlen_eq_zero_iff [of p] bitlen_nonneg [of p] by linarith
  then have "2 powi (bitlen p - 1) = (of_int (2 ^ nat (bitlen p - 1)) :: rat)"
    and "2 powi bitlen p = (of_int (2 ^ nat (bitlen p)) :: rat)"
    using powi2_nat [of "bitlen p - 1"] powi2_nat [of "bitlen p"] by simp_all
  then show "(2 :: rat) powi (bitlen p - 1) \<le> of_int p" and "(of_int p :: rat) < 2 powi bitlen p"
    using bitlen_bounds [OF assms] by (simp_all only: of_int_le_iff of_int_less_iff)
qed

lemma expo_test:
  assumes "0 < q"
  shows "(if 0 \<le> e then q * 2 ^ nat e \<le> p else q \<le> p * 2 ^ nat (- e))
    \<longleftrightarrow> (2 :: rat) powi e \<le> of_int p / of_int q"
proof (cases "0 \<le> e")
  case True
  have "(2 :: rat) powi e \<le> of_int p / of_int q \<longleftrightarrow> of_int (q * 2 ^ nat e) \<le> (of_int p :: rat)"
    using assms True by (simp add: powi2_nat field_simps)
  with True show ?thesis by (simp only: of_int_le_iff if_True)
next
  case False
  then have "(2 :: rat) powi e \<le> of_int p / of_int q
      \<longleftrightarrow> of_int q \<le> (of_int (p * 2 ^ nat (- e)) :: rat)"
    using assms by (simp add: powi2_neg field_simps)
  with False show ?thesis by (simp only: of_int_le_iff if_False)
qed

lemma expo_bounds:
  assumes "0 < x"
  shows "2 powi expo x \<le> x" and "x < 2 powi (expo x + 1)"
proof -
  obtain p q where pq: "quotient_of x = (p, q)" by fastforce
  then have q: "0 < q" and x: "x = of_int p / of_int q"
    by (auto dest: quotient_of_denom_pos quotient_of_div)
  with assms have p: "0 < p" by (simp add: zero_less_divide_iff)
  let ?e = "bitlen p - bitlen q"
  have lo: "2 powi (?e - 1) \<le> x"
  proof -
    have "2 powi (?e - 1) * of_int q \<le> (2 powi (?e - 1) * 2 powi bitlen q :: rat)"
      using bitlen_powi [OF q] by (intro mult_left_mono) simp_all
    also have "\<dots> = 2 powi (bitlen p - 1)" by (simp flip: power_int_add)
    also have "\<dots> \<le> of_int p" using bitlen_powi [OF p] by simp
    finally show ?thesis using q by (simp add: x pos_le_divide_eq)
  qed
  have hi: "x < 2 powi (?e + 1)"
  proof -
    have "of_int p < (2 powi bitlen p :: rat)" using bitlen_powi [OF p] by simp
    also have "\<dots> = 2 powi (?e + 1) * 2 powi (bitlen q - 1)" by (simp flip: power_int_add)
    also have "\<dots> \<le> 2 powi (?e + 1) * of_int q"
      using bitlen_powi [OF q] by (intro mult_left_mono) simp_all
    finally show ?thesis using q by (simp add: x pos_divide_less_eq)
  qed
  have e: "expo x = (if 2 powi ?e \<le> x then ?e else ?e - 1)"
    unfolding expo_def pq Let_def prod.case expo_test [OF q] x [symmetric] ..
  show "2 powi expo x \<le> x" using lo by (simp add: e)
  show "x < 2 powi (expo x + 1)" using hi by (simp add: e)
qed

lemma powi2_less_iff [simp]: "(2 :: rat) powi m < 2 powi n \<longleftrightarrow> m < n"
  by (simp add: less_le_not_le)

lemma expo_eqI: "2 powi e \<le> x \<Longrightarrow> x < 2 powi (e + 1) \<Longrightarrow> expo x = e"
proof -
  assume x: "2 powi e \<le> x" "x < 2 powi (e + 1)"
  then have "0 < x" using powi2_pos [of e] by linarith
  note b = expo_bounds [OF this]
  from b x have "(2 :: rat) powi expo x < 2 powi (e + 1)" and "(2 :: rat) powi e < 2 powi (expo x + 1)"
    by linarith+
  then show ?thesis by simp
qed

lemma expo_mono: "0 < x \<Longrightarrow> x \<le> y \<Longrightarrow> expo x \<le> expo y"
proof -
  assume "0 < x" "x \<le> y"
  then have "(2 :: rat) powi expo x < 2 powi (expo y + 1)"
    using expo_bounds [of x] expo_bounds [of y] by linarith
  then show ?thesis by simp
qed

subsection \<open>Rounding to 53 bits\<close>

lemma rnd_eq: "x \<noteq> 0 \<Longrightarrow> rnd x = of_int (round_even (x / 2 powi ulp_exp x)) * 2 powi ulp_exp x"
proof -
  obtain p q where pq: "quotient_of x = (p, q)" by fastforce
  then have q: "0 < q" and x: "x = of_int p / of_int q"
    by (auto dest: quotient_of_denom_pos quotient_of_div)
  let ?k = "ulp_exp x"
  show ?thesis
  proof (cases "0 \<le> ?k")
    case True
    have "(of_int p / of_int (q * 2 ^ nat ?k) :: rat) = x / 2 powi ?k"
      using True by (simp add: x powi2_nat)
    moreover have "0 < q * 2 ^ nat ?k" using q by simp
    ultimately show ?thesis
      using True by (simp add: rnd_def pq Let_def div_even_round powi2_nat)
  next
    case False
    have "(of_int (p * 2 ^ nat (- ?k)) / of_int q :: rat) = x / 2 powi ?k"
      using False by (simp add: x powi2_neg)
    then show ?thesis
      using False q by (simp add: rnd_def pq Let_def div_even_round powi2_neg Fract_of_int_quotient)
  qed
qed

lemma rnd_zero [simp]: "rnd 0 = 0"
  by code_simp

lemma ulp_exp_minus [simp]: "ulp_exp (- x) = ulp_exp x"
  by (simp add: ulp_exp_def)

lemma rnd_minus: "rnd (- x) = - rnd x"
  by (cases "x = 0") (simp_all add: rnd_eq round_even_minus)

lemma ulp_exp_mono: "0 < x \<Longrightarrow> x \<le> y \<Longrightarrow> ulp_exp x \<le> ulp_exp y"
  using expo_mono [of x y] by (auto simp: ulp_exp_def)

lemma grid_quotient:
  assumes "j \<le> k"
  shows "(of_int n * 2 powi k / 2 powi j :: rat) = of_int (n * 2 ^ nat (k - j))"
proof -
  have "(of_int n * 2 powi k / 2 powi j :: rat) = of_int n * 2 powi (k - j)"
    by (simp add: power_int_diff)
  then show ?thesis using assms by (simp add: powi2_nat)
qed

lemma rnd_upper:
  assumes "x \<noteq> 0" and "x \<le> of_int n * 2 powi k" and "ulp_exp x \<le> k"
  shows "rnd x \<le> of_int n * 2 powi k"
proof -
  let ?j = "ulp_exp x"
  have "x / 2 powi ?j \<le> of_int n * 2 powi k / 2 powi ?j"
    using assms(2) by (intro divide_right_mono) simp_all
  then have "round_even (x / 2 powi ?j) \<le> n * 2 ^ nat (k - ?j)"
    unfolding grid_quotient [OF assms(3)]
    by (metis round_even_mono round_even_of_int)
  then have "of_int (round_even (x / 2 powi ?j)) \<le> (of_int n * 2 powi k / 2 powi ?j :: rat)"
    unfolding grid_quotient [OF assms(3)] by (simp only: of_int_le_iff)
  then show ?thesis by (simp add: rnd_eq [OF assms(1)] pos_le_divide_eq)
qed

lemma rnd_lower:
  assumes "x \<noteq> 0" and "of_int n * 2 powi k \<le> x" and "ulp_exp x \<le> k"
  shows "of_int n * 2 powi k \<le> rnd x"
  using rnd_upper [of "- x" "- n" k] assms by (simp add: rnd_minus)

text \<open>A dyadic number with at most 53 significant bits is a \<open>float64\<close>, so rounding keeps it.\<close>

lemma rnd_grid: "ulp_exp (of_int n * 2 powi k) \<le> k \<Longrightarrow> rnd (of_int n * 2 powi k) = of_int n * 2 powi k"
  using rnd_upper [of "of_int n * 2 powi k" n k] rnd_lower [of "of_int n * 2 powi k" n k]
  by (cases "n = 0") auto

lemma expo_less: "0 < x \<Longrightarrow> x < 2 powi e \<Longrightarrow> expo x < e"
proof -
  assume "0 < x" "x < 2 powi e"
  with expo_bounds(1) [OF \<open>0 < x\<close>] have "(2 :: rat) powi expo x < 2 powi e" by linarith
  then show ?thesis by simp
qed

lemma rnd_dyadic:
  assumes "\<bar>n\<bar> \<le> 2 ^ 53" and "- 1074 \<le> k"
  shows "rnd (of_int n * 2 powi k) = of_int n * 2 powi k"
proof -
  have below: "rnd (of_int m * 2 powi j) = of_int m * 2 powi j"
    if m: "\<bar>m\<bar> < 2 ^ 53" "m \<noteq> 0" and j: "- 1074 \<le> j" for m j
  proof (rule rnd_grid)
    let ?x = "of_int m * 2 powi j :: rat"
    have "(of_int \<bar>m\<bar> :: rat) < of_int (2 ^ 53)" using m by (simp only: of_int_less_iff)
    then have "of_int \<bar>m\<bar> * 2 powi j < (2 powi 53 * 2 powi j :: rat)"
      by (intro mult_strict_right_mono) simp_all
    also have "\<dots> = 2 powi (53 + j)" by (simp add: power_int_add)
    finally have "\<bar>?x\<bar> < 2 powi (53 + j)" by (simp add: abs_mult)
    moreover have "0 < \<bar>?x\<bar>" using m by simp
    ultimately have "expo \<bar>?x\<bar> < 53 + j" by (intro expo_less)
    then show "ulp_exp ?x \<le> j" using j by (simp add: ulp_exp_def)
  qed
  consider "n = 0" | "\<bar>n\<bar> < 2 ^ 53" "n \<noteq> 0" | "n = 2 ^ 53 \<or> n = - (2 ^ 53)"
    using assms(1) by linarith
  then show ?thesis
  proof cases
    case 3
    then have "(of_int n * 2 powi k :: rat) = of_int (sgn n) * 2 powi (53 + k)"
      by (auto simp: power_int_add)
    then show ?thesis using below [of "sgn n" "53 + k"] 3 assms(2) by auto
  qed (use below assms in auto)
qed

lemma rnd_of_int: "\<bar>n\<bar> \<le> 2 ^ 53 \<Longrightarrow> rnd (of_int n) = of_int n"
  using rnd_dyadic [of n 0] by simp

lemma rnd_idem: "rnd (rnd x) = rnd x"
proof (cases "x = 0")
  case False
  let ?k = "ulp_exp x"
  let ?n = "round_even (x / 2 powi ?k)"
  have "\<bar>x\<bar> < 2 powi (expo \<bar>x\<bar> + 1)" using False by (intro expo_bounds) simp
  also have "\<dots> \<le> 2 powi (53 + ?k)" by (simp add: ulp_exp_def)
  also have "\<dots> = 2 ^ 53 * 2 powi ?k" by (simp add: power_int_add)
  finally have "\<bar>x / 2 powi ?k\<bar> < of_int (2 ^ 53)" by (simp add: pos_divide_less_eq)
  then have "x / 2 powi ?k \<le> of_int (2 ^ 53)" and "- (x / 2 powi ?k) \<le> of_int (2 ^ 53)" by linarith+
  then have "?n \<le> 2 ^ 53" and "- ?n \<le> 2 ^ 53"
    using round_even_mono [of "x / 2 powi ?k" "of_int (2 ^ 53)"]
      round_even_mono [of "- (x / 2 powi ?k)" "of_int (2 ^ 53)"]
    by (simp_all only: round_even_of_int round_even_minus)
  then have "rnd (of_int ?n * 2 powi ?k) = of_int ?n * 2 powi ?k"
    by (intro rnd_dyadic) (simp_all add: ulp_exp_def abs_le_iff)
  with False show ?thesis by (simp add: rnd_eq)
qed simp

lemma rnd_mono_pos:
  assumes "0 < x" and "x \<le> y"
  shows "rnd x \<le> rnd y"
proof (cases "ulp_exp x = ulp_exp y")
  case True
  have "x / 2 powi ulp_exp y \<le> y / 2 powi ulp_exp y"
    using assms by (intro divide_right_mono) simp_all
  then have "round_even (x / 2 powi ulp_exp y) \<le> round_even (y / 2 powi ulp_exp y)"
    by (rule round_even_mono)
  with assms True show ?thesis by (simp add: rnd_eq)
next
  case False
  with ulp_exp_mono [OF assms] have lt: "ulp_exp x < ulp_exp y" by simp
  then have uy: "ulp_exp y = expo y - 52" and le: "expo x + 1 \<le> expo y"
    using assms by (auto simp: ulp_exp_def)
  have "x \<le> of_int 1 * 2 powi expo y"
  proof -
    have "x < 2 powi (expo x + 1)" using assms by (intro expo_bounds)
    also have "\<dots> \<le> (2 :: rat) powi expo y" using le by simp
    finally show ?thesis by simp
  qed
  then have "rnd x \<le> of_int 1 * 2 powi expo y"
    using assms uy lt by (intro rnd_upper) simp_all
  also have "\<dots> \<le> rnd y"
    using assms uy expo_bounds(1) [of y] by (intro rnd_lower) simp_all
  finally show ?thesis .
qed

lemma rnd_nonneg: "0 \<le> x \<Longrightarrow> 0 \<le> rnd x"
proof (cases "x = 0")
  case False
  assume "0 \<le> x"
  with False have "round_even (of_int 0) \<le> round_even (x / 2 powi ulp_exp x)"
    by (intro round_even_mono) simp
  with False show ?thesis by (simp add: rnd_eq del: of_int_0)
qed simp

lemma rnd_mono: "x \<le> y \<Longrightarrow> rnd x \<le> rnd y"
proof -
  assume le: "x \<le> y"
  consider "0 < x" | "x \<le> 0" "0 \<le> y" | "y < 0" by linarith
  then show ?thesis
  proof cases
    case 2
    then show ?thesis using rnd_nonneg [of y] rnd_nonneg [of "- x"] by (simp add: rnd_minus)
  next
    case 3
    then show ?thesis using rnd_mono_pos [of "- y" "- x"] le by (simp add: rnd_minus)
  qed (use le in \<open>auto intro: rnd_mono_pos\<close>)
qed

subsection \<open>What clients rely on\<close>

text \<open>
  The arithmetic of the components above rests on two laws of rounding only: it is monotone
  and it keeps the integers up to \<open>2 ^ 53\<close>.
\<close>

locale rounding_mode =
  fixes r :: "rat \<Rightarrow> rat"
  assumes r_mono: "x \<le> y \<Longrightarrow> r x \<le> r y"
    and r_int: "\<bar>n\<bar> \<le> 2 ^ 53 \<Longrightarrow> r (of_int n) = of_int n"
begin

lemma r_le_int: "x \<le> of_int n \<Longrightarrow> \<bar>n\<bar> \<le> 2 ^ 53 \<Longrightarrow> r x \<le> of_int n"
  using r_mono [of x "of_int n"] by (simp add: r_int)

lemma r_ge_int: "of_int n \<le> x \<Longrightarrow> \<bar>n\<bar> \<le> 2 ^ 53 \<Longrightarrow> of_int n \<le> r x"
  using r_mono [of "of_int n" x] by (simp add: r_int)

lemma r_unit: "0 \<le> x \<Longrightarrow> x \<le> 1 \<Longrightarrow> 0 \<le> r x \<and> r x \<le> 1"
  using r_ge_int [of 0 x] r_le_int [of x 1] by simp

lemma r_numeral: "numeral n \<le> (2 :: int) ^ 53 \<Longrightarrow> r (numeral n) = numeral n"
  using r_int [of "numeral n"] by simp

lemma r_0: "r 0 = 0" and r_1: "r 1 = 1"
  using r_int [of 0] r_int [of 1] by simp_all

end

interpretation ieee: rounding_mode rnd
  by unfold_locales (auto intro: rnd_mono rnd_of_int)

section \<open>Operations\<close>

primrec f_neg :: "float64 \<Rightarrow> float64" where
  "f_neg (Fin x) = Fin (- x)"
| "f_neg PInf = NInf"
| "f_neg NInf = PInf"
| "f_neg NaN = NaN"

primrec f_sgn :: "float64 \<Rightarrow> rat" where
  "f_sgn (Fin x) = sgn x"
| "f_sgn PInf = 1"
| "f_sgn NInf = - 1"
| "f_sgn NaN = 0"

definition inf_of :: "rat \<Rightarrow> float64" where
  "inf_of s = (if 0 < s then PInf else if s < 0 then NInf else NaN)"

fun f_add :: "float64 \<Rightarrow> float64 \<Rightarrow> float64" where
  "f_add (Fin x) (Fin y) = of_rat64 (x + y)"
| "f_add NaN y = NaN"
| "f_add x NaN = NaN"
| "f_add PInf NInf = NaN"
| "f_add NInf PInf = NaN"
| "f_add PInf y = PInf"
| "f_add NInf y = NInf"
| "f_add x PInf = PInf"
| "f_add x NInf = NInf"

definition f_sub :: "float64 \<Rightarrow> float64 \<Rightarrow> float64" where
  "f_sub x y = f_add x (f_neg y)"

fun f_mul :: "float64 \<Rightarrow> float64 \<Rightarrow> float64" where
  "f_mul (Fin x) (Fin y) = of_rat64 (x * y)"
| "f_mul x y = (if x = NaN \<or> y = NaN then NaN else inf_of (f_sgn x * f_sgn y))"

fun f_div :: "float64 \<Rightarrow> float64 \<Rightarrow> float64" where
  "f_div (Fin x) (Fin y) = (if y = 0 then inf_of (sgn x) else of_rat64 (x / y))"
| "f_div NaN y = NaN"
| "f_div x NaN = NaN"
| "f_div (Fin x) y = Fin 0"
| "f_div x (Fin y) = (if y < 0 then f_neg x else x)"
| "f_div x y = NaN"

fun f_lt :: "float64 \<Rightarrow> float64 \<Rightarrow> bool" where
  "f_lt (Fin x) (Fin y) \<longleftrightarrow> x < y"
| "f_lt NInf (Fin y) \<longleftrightarrow> True"
| "f_lt NInf PInf \<longleftrightarrow> True"
| "f_lt (Fin x) PInf \<longleftrightarrow> True"
| "f_lt x y \<longleftrightarrow> False"

definition f_le :: "float64 \<Rightarrow> float64 \<Rightarrow> bool" where
  "f_le x y \<longleftrightarrow> f_lt x y \<or> (x = y \<and> x \<noteq> NaN)"

text \<open>
  Conversions. Go leaves the conversion of a value outside the integer type to the
  implementation; on amd64 it is the smallest \<open>int64\<close>, and the theorems of the
  development do not depend on it.
\<close>

definition of_int64 :: "int64 \<Rightarrow> float64" where
  "of_int64 w = of_rat64 (of_int (sint w))"

definition trunc :: "rat \<Rightarrow> int" where
  "trunc x = (if 0 \<le> x then \<lfloor>x\<rfloor> else \<lceil>x\<rceil>)"

primrec to_int64 :: "float64 \<Rightarrow> int64" where
  "to_int64 (Fin x) = (if in_int64 (trunc x) then word_of_int (trunc x) else word_of_int (- (2 ^ 63)))"
| "to_int64 PInf = word_of_int (- (2 ^ 63))"
| "to_int64 NInf = word_of_int (- (2 ^ 63))"
| "to_int64 NaN = word_of_int (- (2 ^ 63))"

lemma f_le_Fin [simp]: "f_le (Fin x) (Fin y) \<longleftrightarrow> x \<le> y"
  by (auto simp: f_le_def)

lemma rnd_abs_le_powi: "\<bar>x\<bar> \<le> 2 powi k \<Longrightarrow> - 1074 \<le> k \<Longrightarrow> \<bar>rnd x\<bar> \<le> 2 powi k"
  using rnd_dyadic [of 1 k] rnd_mono [of x "2 powi k"] rnd_mono [of "- (2 powi k)" x]
  by (simp add: rnd_minus abs_le_iff)

lemma of_rat64_below:
  assumes "\<bar>x\<bar> \<le> 2 powi k" and "- 1074 \<le> k" and "k < 1024"
  shows "of_rat64 x = Fin (rnd x)"
proof -
  have "\<bar>rnd x\<bar> \<le> 2 powi k" using assms by (intro rnd_abs_le_powi)
  also have "\<dots> < (2 :: rat) powi 1024" using assms(3) by (simp only: powi2_less_iff)
  finally have "\<bar>rnd x\<bar> < 2 powi 1024" .
  then have "expo \<bar>rnd x\<bar> < 1024" if "rnd x \<noteq> 0"
    using that by (intro expo_less) simp_all
  then show ?thesis by (auto simp: of_rat64_def Let_def)
qed

lemma of_rat64_small: "\<bar>x\<bar> \<le> 2 ^ 200 \<Longrightarrow> of_rat64 x = Fin (rnd x)"
  by (rule of_rat64_below [where k = 200]) simp_all

lemma of_int64_Fin: "of_int64 w = Fin (rnd (of_int (sint w)))"
proof -
  have "\<bar>sint w\<bar> \<le> 2 ^ 200" using sint_less_int64 [of w] sint_ge_int64 [of w] by simp
  then have "(of_int \<bar>sint w\<bar> :: rat) \<le> of_int (2 ^ 200)" by (simp only: of_int_le_iff)
  then show ?thesis unfolding of_int64_def by (intro of_rat64_small) simp
qed

end
