(* ===== verification/Decimal.thy ===== *)
theory Decimal
  imports Prelude
begin

text \<open>
  Decimal numerals: the reference rendering \<open>dec\<close> with its inverse, and the program's own
  \<open>itoa\<close> (\<open>internal/reservation/reservation.go\<close>; \<open>internal/ledger/ledger.go\<close> has the
  same text), which fills a 20-byte buffer from the end. Writing outside the buffer would
  panic in Go and is the value \<open>None\<close> here.
\<close>

section \<open>Reference rendering\<close>

definition digit :: "nat \<Rightarrow> char" where
  "digit d = char_of (48 + d)"

fun dec :: "nat \<Rightarrow> string" where
  "dec n = (if n < 10 then [digit n] else dec (n div 10) @ [digit (n mod 10)])"

declare dec.simps [simp del]

definition undec :: "string \<Rightarrow> nat" where
  "undec s = foldl (\<lambda>a c. 10 * a + (of_char c - 48)) 0 s"

definition dec_int :: "int \<Rightarrow> string" where
  "dec_int i = (if i < 0 then ''-'' @ dec (nat (- i)) else dec (nat i))"

definition zero_pad :: "nat \<Rightarrow> string \<Rightarrow> string" where
  "zero_pad w s = replicate (w - length s) (CHR ''0'') @ s"

lemma of_char_digit: "d < 10 \<Longrightarrow> of_char (digit d) = (48 + d :: nat)"
  by (simp add: digit_def)

lemma undec_append: "undec (s @ [c]) = 10 * undec s + (of_char c - 48)"
  by (simp add: undec_def)

lemma undec_dec [simp]: "undec (dec n) = n"
proof (induction n rule: dec.induct)
  case (1 n)
  show ?case
  proof (cases "n < 10")
    case True
    then show ?thesis by (simp add: dec.simps [of n] undec_def of_char_digit)
  next
    case False
    with 1 show ?thesis by (simp add: dec.simps [of n] undec_append of_char_digit)
  qed
qed

lemma dec_inject [simp]: "dec m = dec n \<longleftrightarrow> m = n"
  by (metis undec_dec)

lemma dec_digits: "c \<in> set (dec n) \<Longrightarrow> \<exists>d < 10. c = digit d"
proof (induction n rule: dec.induct)
  case (1 n)
  then show ?case
    by (subst (asm) (2) dec.simps) (auto split: if_splits intro: exI [of _ "n mod 10"])
qed

lemma dash_notin_dec [simp]: "CHR ''-'' \<notin> set (dec n)"
proof
  assume "CHR ''-'' \<in> set (dec n)"
  then obtain d where "d < 10" and "CHR ''-'' = digit d" using dec_digits by blast
  then have "of_char (CHR ''-'') = (48 + d :: nat)" by (simp add: of_char_digit)
  then show False by simp
qed

lemma length_dec: "n < 10 ^ k \<Longrightarrow> 0 < k \<Longrightarrow> length (dec n) \<le> k"
proof (induction n arbitrary: k rule: dec.induct)
  case (1 n)
  show ?case
  proof (cases "n < 10")
    case True
    with 1 show ?thesis by (simp add: dec.simps [of n])
  next
    case False
    then obtain j where k: "k = Suc j" "0 < j"
      using "1.prems" by (cases k; cases "k - 1") auto
    with "1.prems" have "n div 10 < 10 ^ j" by (simp add: less_mult_imp_div_less mult.commute)
    with "1.IH" False k show ?thesis by (simp add: dec.simps [of n])
  qed
qed

section \<open>The program's itoa\<close>

function itoa_loop :: "uint64 \<Rightarrow> nat \<Rightarrow> string \<Rightarrow> (nat \<times> string) option" where
  "itoa_loop n i buf =
     (if n = 0 then Some (i, buf)
      else if i = 0 then None
      else itoa_loop (n div 10) (i - 1) (buf[i - 1 := char_of (48 + unat (n mod 10))]))"
  by pat_completeness auto
termination
proof (relation "measure (\<lambda>(n, i, buf). unat n)")
  fix n :: uint64 and i :: nat and buf :: string
  assume "n \<noteq> 0"
  then have "0 < unat n" by (simp add: unat_gt_0)
  then show "((n div 10, i - 1, buf[i - 1 := char_of (48 + unat (n mod 10))]), n, i, buf)
      \<in> measure (\<lambda>(n, i, buf). unat n)"
    by (simp add: unat_div)
qed simp

declare itoa_loop.simps [simp del]

definition itoa_opt :: "uint64 \<Rightarrow> string option" where
  "itoa_opt n =
     (if n = 0 then Some ''0''
      else case itoa_loop n 20 (replicate 20 (char_of (0 :: nat))) of
             None \<Rightarrow> None
           | Some (i, buf) \<Rightarrow> Some (drop i buf))"

definition itoa :: "uint64 \<Rightarrow> string" where
  "itoa n = the (itoa_opt n)"

lemma itoa_loop_dec:
  assumes "n \<noteq> 0" and "length (dec (unat n)) \<le> i" and "i \<le> length buf"
  shows "\<exists>buf'. itoa_loop n i buf = Some (i - length (dec (unat n)), buf')
    \<and> drop (i - length (dec (unat n))) buf' = dec (unat n) @ drop i buf"
  using assms
proof (induction n i buf rule: itoa_loop.induct)
  case (1 n i buf)
  let ?c = "char_of (48 + unat (n mod 10)) :: char"
  have d10: "unat (n div 10) = unat n div 10" and m10: "unat (n mod 10) = unat n mod 10"
    by (simp_all add: unat_div unat_mod)
  have c: "?c = digit (unat n mod 10)" by (simp add: digit_def m10)
  have i: "i \<noteq> 0" using "1.prems"(2) by (subst (asm) dec.simps) (auto split: if_splits)
  have step: "itoa_loop n i buf = itoa_loop (n div 10) (i - 1) (buf[i - 1 := ?c])"
    using "1.prems"(1) i by (subst itoa_loop.simps) simp
  have drp: "drop (i - 1) (buf[i - 1 := ?c]) = ?c # drop i buf"
    using i "1.prems"(3) by (cases i) (auto simp: drop_update_swap Cons_nth_drop_Suc [symmetric])
  show ?case
  proof (cases "unat n < 10")
    case True
    then have "n div 10 = 0" by (simp add: d10 unat_eq_zero flip: unat_eq_zero)
    then have "itoa_loop n i buf = Some (i - 1, buf[i - 1 := ?c])"
      by (subst step, subst itoa_loop.simps) simp
    then show ?thesis using True drp by (simp add: dec.simps [of "unat n"] c)
  next
    case False
    then have nz: "n div 10 \<noteq> 0" using d10 by (metis div_greater_zero_iff not_less unat_0 zero_less_numeral less_irrefl)
    have len: "length (dec (unat n)) = Suc (length (dec (unat (n div 10))))"
      using False by (simp add: dec.simps [of "unat n"] d10)
    have "length (dec (unat (n div 10))) \<le> i - 1" and "i - 1 \<le> length (buf[i - 1 := ?c])"
      using "1.prems" len by simp_all
    with "1.IH" "1.prems"(1) i nz obtain buf' where
      "itoa_loop (n div 10) (i - 1) (buf[i - 1 := ?c])
        = Some (i - 1 - length (dec (unat (n div 10))), buf')"
      "drop (i - 1 - length (dec (unat (n div 10)))) buf'
        = dec (unat (n div 10)) @ ?c # drop i buf"
      unfolding drp by blast
    then show ?thesis
      using False by (simp add: step len) (simp add: dec.simps [of "unat n"] d10 c)
  qed
qed

lemma itoa_opt_dec: "itoa_opt n = Some (dec (unat n))"
proof (cases "n = 0")
  case True
  then show ?thesis by (simp add: itoa_opt_def dec.simps) code_simp
next
  case False
  have "unat n < 2 ^ LENGTH(64)" by (rule unsigned_less)
  then have "unat n < 10 ^ 20" by simp
  then have len: "length (dec (unat n)) \<le> 20" by (rule length_dec) simp
  obtain buf' where "itoa_loop n 20 (replicate 20 (char_of (0 :: nat)))
      = Some (20 - length (dec (unat n)), buf')"
    and "drop (20 - length (dec (unat n))) buf' = dec (unat n)"
    using itoa_loop_dec [OF False len, of "replicate 20 (char_of (0 :: nat))"] by auto
  with False show ?thesis by (simp add: itoa_opt_def)
qed

lemma itoa_dec: "itoa n = dec (unat n)"
  by (simp add: itoa_def itoa_opt_dec)

lemma itoa_inject [simp]: "itoa m = itoa n \<longleftrightarrow> m = n"
  by (simp add: itoa_dec word_unat_eq_iff)

lemma dash_notin_itoa [simp]: "CHR ''-'' \<notin> set (itoa n)"
  by (simp add: itoa_dec)

end
