(* ===== verification/Money.thy ===== *)
theory Money
  imports Float64 Decimal
begin

text \<open>
  Package \<open>money\<close> (\<open>internal/money/money.go\<close>): an amount is an \<open>int64\<close> of micro-units,
  so addition and subtraction wrap, comparisons are signed, and the conversions from and to
  \<open>float64\<close> are the only places where rounding can happen.
\<close>

type_synonym micros = int64

definition OneUnit :: micros where
  "OneUnit = 1000000"

definition FromFloat :: "float64 \<Rightarrow> micros" where
  "FromFloat f = to_int64 (f_mul f (of_int64 OneUnit))"

definition Float :: "micros \<Rightarrow> float64" where
  "Float m = f_div (of_int64 m) (of_int64 OneUnit)"

text \<open>\<open>fmt.Sprintf("%.4f", f)\<close>: the exact value rounded to four decimals, ties to even.\<close>

primrec fixed4 :: "float64 \<Rightarrow> string" where
  "fixed4 (Fin x) =
     (let n = nat (div_even (fst (quotient_of \<bar>x\<bar>) * 10000) (snd (quotient_of \<bar>x\<bar>)))
      in (if x < 0 then ''-'' else []) @ dec (n div 10000) @ ''.'' @ zero_pad 4 (dec (n mod 10000)))"
| "fixed4 PInf = ''+Inf''"
| "fixed4 NInf = ''-Inf''"
| "fixed4 NaN = ''NaN''"

definition micros_String :: "micros \<Rightarrow> string" where
  "micros_String m = ''$'' @ fixed4 (Float m)"

definition Add :: "micros \<Rightarrow> micros \<Rightarrow> micros" where
  "Add m x = m + x"

definition Sub :: "micros \<Rightarrow> micros \<Rightarrow> micros" where
  "Sub m x = m - x"

definition Max :: "micros \<Rightarrow> micros \<Rightarrow> micros" where
  "Max a b = (if b <s a then a else b)"

definition Min :: "micros \<Rightarrow> micros \<Rightarrow> micros" where
  "Min a b = (if a <s b then a else b)"

lemma of_int64_OneUnit [simp]: "of_int64 OneUnit = Fin 1000000"
  by (simp add: of_int64_Fin OneUnit_def ieee.r_numeral)

lemma Float_Fin: "Float m = Fin (rnd (rnd (of_int (sint m)) / 1000000))"
proof -
  have "\<bar>(of_int (sint m) :: rat)\<bar> \<le> 2 powi 63"
  proof -
    have "\<bar>sint m\<bar> \<le> 2 ^ 63" using sint_less_int64 [of m] sint_ge_int64 [of m] by simp
    then have "(of_int \<bar>sint m\<bar> :: rat) \<le> of_int (2 ^ 63)" by (simp only: of_int_le_iff)
    then show ?thesis by simp
  qed
  then have "\<bar>rnd (of_int (sint m))\<bar> \<le> 2 powi 63" by (rule rnd_abs_le_powi) simp
  then have "\<bar>rnd (of_int (sint m)) / 1000000\<bar> \<le> 2 ^ 200" by simp
  then show ?thesis by (simp add: Float_def of_int64_Fin [of m] of_rat64_small)
qed

lemma Float_sign: "0 \<le> sint m \<Longrightarrow> \<exists>x. Float m = Fin x \<and> 0 \<le> x"
  by (simp add: Float_Fin rnd_nonneg)

lemma Float_mono: "m \<le>s n \<Longrightarrow> f_le (Float m) (Float n)"
  by (simp add: Float_Fin word_sle_eq rnd_mono divide_right_mono)

lemma Float_units:
  assumes "sint m = 1000000 * k" and "\<bar>k\<bar> \<le> 2 ^ 33"
  shows "Float m = Fin (of_int k)"
proof -
  have "rnd (of_int (sint m)) = of_int (sint m)" using assms by (intro rnd_of_int) simp
  moreover have "rnd (of_int k) = of_int k" using assms by (intro rnd_of_int) simp
  ultimately show ?thesis by (simp add: Float_Fin assms(1))
qed

lemma FromFloat_units:
  assumes "\<bar>k\<bar> \<le> 2 ^ 33"
  shows "FromFloat (Fin (of_int k)) = word_of_int (1000000 * k)"
proof -
  have r: "rnd (of_int (k * 1000000)) = of_int (k * 1000000)" using assms by (intro rnd_of_int) simp
  have "(of_int \<bar>k\<bar> :: rat) \<le> of_int (2 ^ 33)" using assms by (simp only: of_int_le_iff)
  then have "\<bar>of_int k * 1000000 :: rat\<bar> \<le> 2 ^ 200" by simp
  then have "f_mul (Fin (of_int k)) (Fin 1000000) = Fin (of_int (k * 1000000))"
    using r by (simp add: of_rat64_small)
  moreover have "trunc (of_int (k * 1000000)) = k * 1000000"
    by (simp only: trunc_def floor_of_int ceiling_of_int if_cancel)
  moreover have "in_int64 (k * 1000000)" using assms by (simp add: in_int64_def) linarith
  ultimately show ?thesis
    by (simp only: FromFloat_def of_int64_OneUnit to_int64.simps if_True mult.commute)
qed

text \<open>
  An amount of whole currency units survives the round trip through \<open>float64\<close>: what the
  HTTP surface prints for it reads back as the same number of micros.
\<close>

theorem FromFloat_Float_units:
  assumes "sint m = 1000000 * k" and "\<bar>k\<bar> \<le> 2 ^ 33"
  shows "FromFloat (Float m) = m"
proof -
  have "FromFloat (Float m) = word_of_int (sint m)"
    using assms by (simp add: Float_units FromFloat_units)
  then show ?thesis by (simp add: of_int_sint)
qed

theorem FromFloat_Float_units_witness:
  "sint (3000000 :: micros) = 1000000 * 3 \<and> FromFloat (Float 3000000) = 3000000"
  using FromFloat_Float_units [of 3000000 3] by simp

text \<open>
  \<open>FromFloat\<close> truncates, so an amount in cents can lose a micro: the budget of 2.01 units
  (201 cents, divided by 100 as \<open>main\<close> does) becomes 2009999 micros, not 2010000.
\<close>

theorem FromFloat_truncates: "FromFloat (f_div (of_int64 201) (Fin 100)) = 2009999"
  by code_simp

end
