(* ===== verification/GoTime.thy ===== *)
theory GoTime
  imports Float64 Decimal
begin

text \<open>
  The parts of Go's \<open>time\<close> package the program uses. A \<open>time.Time\<close> is the number of
  nanoseconds since the zero time (1 January of year 1, UTC), so that \<open>IsZero\<close> is equality
  with 0; a \<open>time.Duration\<close> is an \<open>int64\<close> of nanoseconds. \<open>Sub\<close> saturates, as its
  documentation says.

  The program reads the clock through \<open>time.Now\<close> (or a field \<open>now\<close> that holds it), often
  several times in one call. A \<^typ>\<open>nat \<Rightarrow> int\<close> is the clock as one call sees it:
  reading number \<open>i\<close>, counted by the place of the call in the program text, is \<open>clk i\<close>.
\<close>

type_synonym time = int
type_synonym duration = int64
type_synonym clock = "nat \<Rightarrow> time"

definition clock_from :: "nat \<Rightarrow> clock \<Rightarrow> clock" where
  "clock_from n clk = (\<lambda>i. clk (n + i))"

lemma clock_from_apply [simp]: "clock_from n clk i = clk (n + i)"
  by (simp add: clock_from_def)

definition IsZero :: "time \<Rightarrow> bool" where
  "IsZero t \<longleftrightarrow> t = 0"

definition Before :: "time \<Rightarrow> time \<Rightarrow> bool" where
  "Before t u \<longleftrightarrow> t < u"

definition After :: "time \<Rightarrow> time \<Rightarrow> bool" where
  "After t u \<longleftrightarrow> u < t"

definition time_Add :: "time \<Rightarrow> duration \<Rightarrow> time" where
  "time_Add t d = t + sint d"

definition time_Sub :: "time \<Rightarrow> time \<Rightarrow> duration" where
  "time_Sub t u = word_of_int (max (- (2 ^ 63)) (min (2 ^ 63 - 1) (t - u)))"

definition Unix :: "int \<Rightarrow> int \<Rightarrow> time" where
  "Unix sec nsec = (62135596800 + sec) * 1000000000 + nsec"

declare IsZero_def [op_defs] Before_def [op_defs] After_def [op_defs]
  time_Add_def [op_defs] time_Sub_def [op_defs]

abbreviation Second :: duration where "Second \<equiv> 1000000000"
abbreviation Minute :: duration where "Minute \<equiv> 60000000000"

text \<open>\<open>Duration.Seconds\<close>: whole seconds and the remainder are converted separately.\<close>

definition Seconds :: "duration \<Rightarrow> float64" where
  "Seconds d =
     (let n = sint d;
          s = sgn n * (\<bar>n\<bar> div 1000000000);
          ns = sgn n * (\<bar>n\<bar> mod 1000000000)
      in f_add (of_rat64 (of_int s)) (f_div (of_rat64 (of_int ns)) (Fin 1000000000)))"

lemma sint_time_Sub: "sint (time_Sub t u) = max (- (2 ^ 63)) (min (2 ^ 63 - 1) (t - u))"
  unfolding time_Sub_def by (rule sint_of_int_int64) (auto simp: in_int64_def)

text \<open>Elapsed time reaches a threshold exactly when the later instant is that far away.\<close>

lemma time_Sub_ge: "- (2 ^ 63) < sint (d :: duration) \<Longrightarrow> sint d \<le> sint (time_Sub t u) \<longleftrightarrow> u + sint d \<le> t"
  using sint_less_int64 [of d] by (auto simp: sint_time_Sub)

lemma time_Sub_self [simp]: "time_Sub t t = 0"
  by (simp add: time_Sub_def)

section \<open>Calendar and formatting\<close>

definition leap :: "int \<Rightarrow> bool" where
  "leap y \<longleftrightarrow> y mod 4 = 0 \<and> (y mod 100 \<noteq> 0 \<or> y mod 400 = 0)"

fun month_day :: "int list \<Rightarrow> int \<Rightarrow> int \<Rightarrow> int \<times> int" where
  "month_day [] m d = (m, d + 1)"
| "month_day (l # ls) m d = (if d < l then (m, d + 1) else month_day ls (m + 1) (d - l))"

definition civil :: "int \<Rightarrow> int \<times> int \<times> int" where
  "civil days =
     (let n400 = days div 146097; d = days mod 146097;
          n100 = min 3 (d div 36524); d = d - n100 * 36524;
          n4 = d div 1461; d = d mod 1461;
          n1 = min 3 (d div 365); d = d - n1 * 365;
          y = 1 + 400 * n400 + 100 * n100 + 4 * n4 + n1;
          (m, dd) = month_day [31, if leap y then 29 else 28, 31, 30, 31, 30, 31, 31, 30, 31, 30] 1 d
      in (y, m, dd))"

definition padded :: "nat \<Rightarrow> int \<Rightarrow> string" where
  "padded w n = (if n < 0 then ''-'' @ zero_pad w (dec (nat (- n))) else zero_pad w (dec (nat n)))"

text \<open>\<open>t.UTC().Format("20060102T150405.000000000")\<close>\<close>

definition format_stamp :: "time \<Rightarrow> string" where
  "format_stamp t =
     (let (y, m, d) = civil (t div 86400000000000); r = t mod 86400000000000
      in padded 4 y @ padded 2 m @ padded 2 d @ ''T'' @
         padded 2 (r div 3600000000000) @ padded 2 (r div 60000000000 mod 60) @
         padded 2 (r div 1000000000 mod 60) @ ''.'' @ padded 9 (r mod 1000000000))"

text \<open>\<open>t.UTC().Format(time.RFC3339Nano)\<close>: trailing zeros of the fraction are dropped.\<close>

definition format_rfc3339nano :: "time \<Rightarrow> string" where
  "format_rfc3339nano t =
     (let (y, m, d) = civil (t div 86400000000000); r = t mod 86400000000000;
          frac = rev (dropWhile (\<lambda>c. c = CHR ''0'') (rev (padded 9 (r mod 1000000000))))
      in padded 4 y @ ''-'' @ padded 2 m @ ''-'' @ padded 2 d @ ''T'' @
         padded 2 (r div 3600000000000) @ '':'' @ padded 2 (r div 60000000000 mod 60) @ '':'' @
         padded 2 (r div 1000000000 mod 60) @ (if frac = [] then [] else CHR ''.'' # frac) @ ''Z'')"

end
