(* ===== verification/Ledger.thy ===== *)
theory Ledger
  imports GoTime Money
begin

text \<open>
  Package \<open>ledger\<close> (\<open>internal/ledger/ledger.go\<close>): the append-only event log. A ledger is the
  list of its events and the \<open>uint64\<close> sequence counter; every operation runs under the
  ledger's one mutex and is one state transformer here. \<open>Append\<close> takes the clock reading it
  would make for an event without a timestamp.
\<close>

datatype EventType =
    RequestEstimated | ReservationCreated | RequestAllowed | RequestThrottled | RequestBlocked
  | RequestExecuted | RequestFailed | UsageReported | CostReconciled | ReservationReleased
  | ReservationExpired | CircuitOpened | CircuitClosed | KillSwitchOn | KillSwitchOff
  | LegacyUnscopedKeyUsed

primrec EventType_String :: "EventType \<Rightarrow> string" where
  "EventType_String RequestEstimated = ''REQUEST_ESTIMATED''"
| "EventType_String ReservationCreated = ''RESERVATION_CREATED''"
| "EventType_String RequestAllowed = ''REQUEST_ALLOWED''"
| "EventType_String RequestThrottled = ''REQUEST_THROTTLED''"
| "EventType_String RequestBlocked = ''REQUEST_BLOCKED''"
| "EventType_String RequestExecuted = ''REQUEST_EXECUTED''"
| "EventType_String RequestFailed = ''REQUEST_FAILED''"
| "EventType_String UsageReported = ''USAGE_REPORTED''"
| "EventType_String CostReconciled = ''COST_RECONCILED''"
| "EventType_String ReservationReleased = ''RESERVATION_RELEASED''"
| "EventType_String ReservationExpired = ''RESERVATION_EXPIRED''"
| "EventType_String CircuitOpened = ''CIRCUIT_OPENED''"
| "EventType_String CircuitClosed = ''CIRCUIT_CLOSED''"
| "EventType_String KillSwitchOn = ''KILL_SWITCH_ACTIVATED''"
| "EventType_String KillSwitchOff = ''KILL_SWITCH_DEACTIVATED''"
| "EventType_String LegacyUnscopedKeyUsed = ''LEGACY_UNSCOPED_KEY_USED''"

record Event =
  EventID :: string
  Type :: EventType
  TenantID :: string
  Timestamp :: time
  RequestID :: string
  ReservationID :: string
  Amount :: micros
  Provider :: string
  Route :: string
  Metadata :: "string \<rightharpoonup> string"

text \<open>A Go struct literal leaves the fields it does not name at their zero value.\<close>

definition event0 :: "EventType \<Rightarrow> string \<Rightarrow> string \<Rightarrow> Event" where
  "event0 ty tenant req =
     \<lparr>EventID = [], Type = ty, TenantID = tenant, Timestamp = 0, RequestID = req,
      ReservationID = [], Amount = 0, Provider = [], Route = [], Metadata = Map.empty\<rparr>"

record Ledger =
  events :: "Event list"
  seq :: uint64

definition ledger_New :: Ledger where
  "ledger_New = \<lparr>events = [], seq = 0\<rparr>"

text \<open>\<open>itoa\<close> of this package has the same text as the one of package \<open>reservation\<close>.\<close>

definition ledger_itoa :: "uint64 \<Rightarrow> string" where
  "ledger_itoa n = itoa n"

definition Append :: "time \<Rightarrow> Event \<Rightarrow> Ledger \<Rightarrow> Event \<times> Ledger" where
  "Append now e l =
     (let s = seq l + 1;
          e = (if EventID e = [] then e\<lparr>EventID := EventType_String (Type e) @ ''-'' @ ledger_itoa s\<rparr> else e);
          e = (if IsZero (Timestamp e) then e\<lparr>Timestamp := now\<rparr> else e)
      in (e, l\<lparr>seq := s, events := events l @ [e]\<rparr>))"

definition Since :: "int \<Rightarrow> Ledger \<Rightarrow> Event list" where
  "Since from l =
     (let from = (if from < 0 then 0 else from)
      in if from \<ge> int (length (events l)) then [] else drop (nat from) (events l))"

definition Len :: "Ledger \<Rightarrow> nat" where
  "Len l = length (events l)"

definition ForTenant :: "string \<Rightarrow> Ledger \<Rightarrow> Event list" where
  "ForTenant tenantID l = filter (\<lambda>e. TenantID e = tenantID) (events l)"

text \<open>A run of \<open>Append\<close> calls, each with its clock reading.\<close>

definition append_step :: "time \<times> Event \<Rightarrow> Ledger \<Rightarrow> Ledger" where
  "append_step te l = snd (Append (fst te) (snd te) l)"

definition append_all :: "(time \<times> Event) list \<Rightarrow> Ledger \<Rightarrow> Ledger" where
  "append_all es l = fold append_step es l"

section \<open>The interface: a log that only grows\<close>

text \<open>
  The package comment promises that another implementation could satisfy the same interface.
  What the callers rely on is that an append adds one entry at the end, with the caller's own
  data (\<open>key\<close>), and keeps everything before it.
\<close>

locale append_log =
  fixes log :: "'l \<Rightarrow> 'e list" and app :: "'a \<Rightarrow> 'l \<Rightarrow> 'l"
    and key :: "'e \<Rightarrow> 'k" and key_in :: "'a \<Rightarrow> 'k"
  assumes app_extends: "\<exists>e. log (app a l) = log l @ [e] \<and> key e = key_in a"
begin

lemma run_extends: "\<exists>es. log (fold app as l) = log l @ es \<and> map key es = map key_in as"
proof (induction "as" arbitrary: l)
  case (Cons a as)
  obtain e where e: "log (app a l) = log l @ [e]" "key e = key_in a" using app_extends by blast
  obtain es where "log (fold app as (app a l)) = log (app a l) @ es" "map key es = map key_in as"
    using Cons.IH by blast
  with e show ?case by (intro exI [of _ "e # es"]) simp
qed simp

lemma run_prefix: "prefix (log l) (log (fold app as l))"
  using run_extends [of "as" l] by auto

lemma run_new: "map key (drop (length (log l)) (log (fold app as l))) = map key_in as"
  using run_extends [of "as" l] by auto

lemma run_length: "length (log (fold app as l)) = length (log l) + length as"
  using run_extends [of "as" l] map_eq_imp_length_eq [of key _ key_in "as"] by auto

end

section \<open>The ledger implements it\<close>

lemma events_Append [simp]: "events (snd (Append now e l)) = events l @ [fst (Append now e l)]"
  by (simp add: Append_def Let_def)

lemma seq_Append [simp]: "seq (snd (Append now e l)) = seq l + 1"
  by (simp add: Append_def Let_def)

definition event_body :: "Event \<Rightarrow> EventType \<times> string \<times> string \<times> string \<times> micros \<times> string \<times> string \<times> (string \<rightharpoonup> string)" where
  "event_body e = (Type e, TenantID e, RequestID e, ReservationID e, Amount e, Provider e, Route e, Metadata e)"

lemma event_body_Append [simp]: "event_body (fst (Append now e l)) = event_body e"
  by (simp add: event_body_def Append_def Let_def)

interpretation ledger_log: append_log events append_step event_body "\<lambda>te. event_body (snd te)"
  by unfold_locales (simp add: append_step_def)

lemma Since_drop: "Since from l = drop (nat from) (events l)"
  by (auto simp: Since_def Let_def)

section \<open>Sequence numbers and identifiers\<close>

text \<open>
  The invariant of a ledger whose callers leave \<open>EventID\<close> empty, as every caller in the
  program does: the counter is the length of the log, and the identifier at a position carries
  that position.
\<close>

definition ids_ok :: "Ledger \<Rightarrow> bool" where
  "ids_ok l \<longleftrightarrow> seq l = of_nat (length (events l)) \<and>
     (\<forall>i < length (events l).
        EventID (events l ! i) = EventType_String (Type (events l ! i)) @ ''-'' @ itoa (of_nat (i + 1)))"

lemma ids_ok_New: "ids_ok ledger_New"
  by (simp add: ids_ok_def ledger_New_def)

lemma ids_ok_Append: "ids_ok l \<Longrightarrow> EventID e = [] \<Longrightarrow> ids_ok (snd (Append now e l))"
  by (auto simp: ids_ok_def Append_def Let_def ledger_itoa_def nth_append less_Suc_eq add.commute)

lemma ids_ok_append_all: "ids_ok l \<Longrightarrow> \<forall>te \<in> set es. EventID (snd te) = [] \<Longrightarrow> ids_ok (append_all es l)"
  unfolding append_all_def
  by (induction es arbitrary: l) (auto simp: append_step_def ids_ok_Append)

lemma ids_ok_distinct:
  assumes "ids_ok l" and "length (events l) < 2 ^ 64"
  shows "distinct (map EventID (events l))"
proof (simp only: distinct_conv_nth length_map, intro allI impI notI)
  fix i j
  assume i: "i < length (events l)" and j: "j < length (events l)" and ne: "i \<noteq> j"
    and eq: "map EventID (events l) ! i = map EventID (events l) ! j"
  have "EventType_String (Type (events l ! i)) @ CHR ''-'' # itoa (of_nat (i + 1))
      = EventType_String (Type (events l ! j)) @ CHR ''-'' # itoa (of_nat (j + 1))"
    using assms(1) i j eq by (simp add: ids_ok_def)
  then have "(of_nat (i + 1) :: uint64) = of_nat (j + 1)"
    using suffix_after_separator by (metis dash_notin_itoa itoa_inject)
  moreover have "i + 1 < 2 ^ LENGTH(64)" and "j + 1 < 2 ^ LENGTH(64)"
    using i j assms(2) by simp_all
  ultimately have "i + 1 = j + 1"
    by (simp only: word_of_nat_eq_iff take_bit_nat_eq_self)
  with ne show False by simp
qed

section \<open>Properties\<close>

text \<open>
  C35: the event log is append-only and a reader that polls it with a cursor misses nothing:
  after any run of appends the old events are a prefix of the log, and \<open>Since\<close> from the old
  length returns exactly the new events, in order and with the data the callers passed.
\<close>

theorem ledger_append_only:
  "prefix (events l) (events (append_all es l)) \<and>
   map event_body (Since (int (Len l)) (append_all es l)) = map (event_body \<circ> snd) es"
  using ledger_log.run_prefix [of l es] ledger_log.run_new [of l es]
  by (simp add: append_all_def Since_drop Len_def comp_def)

text \<open>
  Event identifiers are unique: in a ledger filled by fewer than \<open>2 ^ 64\<close> appends of
  events without an identifier of their own, no two events share an \<open>EventID\<close>.
\<close>

theorem ledger_event_ids_unique:
  assumes "\<forall>te \<in> set es. EventID (snd te) = []" and "length es < 2 ^ 64"
  shows "distinct (map EventID (events (append_all es ledger_New)))"
proof (rule ids_ok_distinct)
  show "ids_ok (append_all es ledger_New)" using assms(1) ids_ok_New by (rule ids_ok_append_all [rotated])
  show "length (events (append_all es ledger_New)) < 2 ^ 64"
    using assms(2) ledger_log.run_length [of es ledger_New] by (simp add: append_all_def ledger_New_def)
qed

theorem ledger_event_ids_unique_witness:
  "map EventID (events (append_all [(5, event0 RequestEstimated ''t'' ''r''), (6, event0 RequestBlocked ''t'' ''r'')] ledger_New))
     = [''REQUEST_ESTIMATED-1'', ''REQUEST_BLOCKED-2''] \<and>
   distinct (map EventID (events (append_all
     [(5, event0 RequestEstimated ''t'' ''r''), (6, event0 RequestBlocked ''t'' ''r'')] ledger_New)))"
  (is "?ids \<and> _")
proof
  show ?ids by code_simp
  show "distinct (map EventID (events (append_all
     [(5, event0 RequestEstimated ''t'' ''r''), (6, event0 RequestBlocked ''t'' ''r'')] ledger_New)))"
    by (rule ledger_event_ids_unique) (simp_all add: event0_def)
qed

text \<open>
  \<open>ForTenant\<close> isolates tenants: it returns exactly the tenant's own events, in log order,
  and an append for another tenant does not change what a tenant sees.
\<close>

theorem ForTenant_isolated:
  "(\<forall>e. e \<in> set (ForTenant t l) \<longleftrightarrow> e \<in> set (events l) \<and> TenantID e = t) \<and>
   subseq (ForTenant t l) (events l) \<and>
   (TenantID e \<noteq> t \<longrightarrow> ForTenant t (snd (Append now e l)) = ForTenant t l) \<and>
   (TenantID e = t \<longrightarrow> ForTenant t (snd (Append now e l)) = ForTenant t l @ [fst (Append now e l)])"
proof -
  have "TenantID (fst (Append now e l)) = TenantID e" by (simp add: Append_def Let_def)
  then show ?thesis by (auto simp: ForTenant_def subseq_filter_left)
qed

theorem ForTenant_isolated_witness:
  "ForTenant ''a'' (snd (Append 1 (event0 RequestBlocked ''b'' ''r'') ledger_New)) = ForTenant ''a'' ledger_New"
  using ForTenant_isolated [of "''a''" ledger_New "event0 RequestBlocked ''b'' ''r''" 1]
  by (simp add: event0_def)

text \<open>
  \<open>itoa\<close> never writes outside its 20-byte buffer and renders every \<open>uint64\<close> in
  decimal: reading the digits back gives the number.
\<close>

theorem itoa_correct: "itoa_opt n = Some (ledger_itoa n) \<and> undec (ledger_itoa n) = unat n"
  by (simp add: ledger_itoa_def itoa_opt_dec itoa_dec)

end
