(* ===== verification/Circuit.thy ===== *)
theory Circuit
  imports GoTime
begin

text \<open>
  Package \<open>circuit\<close> (\<open>internal/circuit/circuit.go\<close>): the breaker's state machine. The record
  has the fields of \<open>Breaker\<close> without the mutex and the clock; every method locks the mutex
  for its whole body, so a concurrent execution is a sequence of the operations below. A method
  that may read the clock takes the reading. \<open>HalfOpenTesting\<close> is the unexported pseudo-state.
\<close>

datatype BState = Closed | Open | HalfOpen | HalfOpenTesting

record Breaker =
  state :: BState
  cooldown :: duration
  openedAt :: time
  halfOpenGen :: uint64

definition circuit_New :: "duration \<Rightarrow> Breaker" where
  "circuit_New cd = \<lparr>state = Closed, cooldown = cd, openedAt = 0, halfOpenGen = 0\<rparr>"

definition maybeAdvanceLocked :: "time \<Rightarrow> Breaker \<Rightarrow> Breaker" where
  "maybeAdvanceLocked now b =
     (if state b = Open \<and> cooldown b \<le>s time_Sub now (openedAt b) then b\<lparr>state := HalfOpen\<rparr> else b)"

definition State :: "time \<Rightarrow> Breaker \<Rightarrow> BState \<times> Breaker" where
  "State now b =
     (let b = maybeAdvanceLocked now b
      in (if state b = HalfOpenTesting then HalfOpen else state b, b))"

definition Trip :: "time \<Rightarrow> Breaker \<Rightarrow> Breaker" where
  "Trip now b = b\<lparr>state := Open, openedAt := now, halfOpenGen := halfOpenGen b + 1\<rparr>"

definition Allow :: "time \<Rightarrow> Breaker \<Rightarrow> bool \<times> Breaker" where
  "Allow now b =
     (let b = maybeAdvanceLocked now b
      in case state b of
           Closed \<Rightarrow> (True, b)
         | HalfOpen \<Rightarrow> (True, b\<lparr>state := HalfOpenTesting\<rparr>)
         | _ \<Rightarrow> (False, b))"

definition ReportSuccess :: "Breaker \<Rightarrow> Breaker" where
  "ReportSuccess b = (if state b = HalfOpenTesting then b\<lparr>state := Closed\<rparr> else b)"

definition ReportFailure :: "time \<Rightarrow> Breaker \<Rightarrow> Breaker" where
  "ReportFailure now b =
     (if state b = HalfOpenTesting \<or> state b = Closed then b\<lparr>state := Open, openedAt := now\<rparr> else b)"

declare maybeAdvanceLocked_def [op_defs] State_def [op_defs] Trip_def [op_defs] Allow_def [op_defs]
  ReportSuccess_def [op_defs] ReportFailure_def [op_defs]

section \<open>Calls, steps and runs\<close>

text \<open>A call with the result it returned; a step is one call at one clock reading.\<close>

datatype Call = CState BState | CAllow bool | CTrip | CSuccess | CFailure

inductive breaker_step :: "Breaker \<Rightarrow> time \<Rightarrow> Call \<Rightarrow> Breaker \<Rightarrow> bool" where
  step_state: "State now b = (r, b') \<Longrightarrow> breaker_step b now (CState r) b'"
| step_allow: "Allow now b = (r, b') \<Longrightarrow> breaker_step b now (CAllow r) b'"
| step_trip: "breaker_step b now CTrip (Trip now b)"
| step_success: "breaker_step b now CSuccess (ReportSuccess b)"
| step_failure: "breaker_step b now CFailure (ReportFailure now b)"

inductive_cases step_allowE [elim!]: "breaker_step b now (CAllow r) b'"
inductive_cases step_stateE [elim!]: "breaker_step b now (CState r) b'"
inductive_simps step_simps [simp]:
  "breaker_step b now CTrip b'" "breaker_step b now CSuccess b'" "breaker_step b now CFailure b'"
  "breaker_step b now (CAllow r) b'" "breaker_step b now (CState r) b'"

inductive breaker_run :: "Breaker \<Rightarrow> (time \<times> Call) list \<Rightarrow> Breaker \<Rightarrow> bool" where
  run_nil: "breaker_run b [] b"
| run_cons: "breaker_step b now c b' \<Longrightarrow> breaker_run b' cs b'' \<Longrightarrow> breaker_run b ((now, c) # cs) b''"

inductive_simps breaker_run_simps [simp]:
  "breaker_run b [] b'" "breaker_run b (x # cs) b'"

section \<open>The documented machine\<close>

text \<open>
  The breaker as the package comment and the comments of the methods describe it, by the clock
  alone: it is closed, or it was cut at an instant, or its one trial request is out. A breaker
  cut at \<open>t\<close> is OPEN before \<open>t + cd\<close> and HALF_OPEN from then on; nothing has to happen for
  the change. Every rule says which call is answered how, when, and what it leaves:
  \<^item> \<open>Allow\<close> lets every request through a closed breaker, none through an open one, the first
    one through a half-open one, and none while that trial is out;
  \<^item> \<open>Trip\<close> cuts the traffic from now, whatever the state;
  \<^item> a success closes the breaker if the trial is out and changes nothing otherwise;
  \<^item> a failure cuts the traffic from now, unless it is already cut;
  \<^item> \<open>State\<close> names the state and changes nothing.
\<close>

datatype Mode = Flowing | Cut time | Trial

inductive documented :: "int \<Rightarrow> Mode \<Rightarrow> time \<Rightarrow> Call \<Rightarrow> Mode \<Rightarrow> bool" for cd where
  closed_allows: "documented cd Flowing now (CAllow True) Flowing"
| open_denies: "now < t + cd \<Longrightarrow> documented cd (Cut t) now (CAllow False) (Cut t)"
| half_open_tries: "t + cd \<le> now \<Longrightarrow> documented cd (Cut t) now (CAllow True) Trial"
| trial_denies: "documented cd Trial now (CAllow False) Trial"
| trip_cuts: "documented cd m now CTrip (Cut now)"
| trial_succeeds: "documented cd Trial now CSuccess Flowing"
| other_success: "m \<noteq> Trial \<Longrightarrow> documented cd m now CSuccess m"
| failure_cuts: "m = Flowing \<or> m = Trial \<Longrightarrow> documented cd m now CFailure (Cut now)"
| failure_when_cut: "documented cd (Cut t) now CFailure (Cut t)"
| reads_closed: "documented cd Flowing now (CState Closed) Flowing"
| reads_open: "now < t + cd \<Longrightarrow> documented cd (Cut t) now (CState Open) (Cut t)"
| reads_half_open: "t + cd \<le> now \<Longrightarrow> documented cd (Cut t) now (CState HalfOpen) (Cut t)"
| reads_trial: "documented cd Trial now (CState HalfOpen) Trial"

inductive_simps documented_simps [simp]:
  "documented cd m now (CAllow r) m'" "documented cd m now (CState r) m'"
  "documented cd m now CTrip m'" "documented cd m now CSuccess m'" "documented cd m now CFailure m'"

inductive documented_run :: "int \<Rightarrow> Mode \<Rightarrow> (time \<times> Call) list \<Rightarrow> Mode \<Rightarrow> bool" for cd where
  documented_nil: "documented_run cd m [] m"
| documented_cons: "documented cd m now c m' \<Longrightarrow> documented_run cd m' cs m'' \<Longrightarrow>
    documented_run cd m ((now, c) # cs) m''"

inductive_simps documented_run_simps [simp]:
  "documented_run cd m [] m'" "documented_run cd m (x # cs) m'"

text \<open>
  The code advances to HALF_OPEN lazily, when a call looks at the clock, and remembers that it
  did. The mode a breaker stands for forgets it; what the code remembers is sound as long as the
  clock has not gone back: the readings are made under the mutex and carry Go's monotonic clock.
\<close>

definition mode :: "Breaker \<Rightarrow> Mode" where
  "mode b = (case state b of Closed \<Rightarrow> Flowing | HalfOpenTesting \<Rightarrow> Trial | _ \<Rightarrow> Cut (openedAt b))"

definition advanced_in_time :: "time \<Rightarrow> Breaker \<Rightarrow> bool" where
  "advanced_in_time now b \<longleftrightarrow> (state b = HalfOpen \<longrightarrow> openedAt b + sint (cooldown b) \<le> now)"

text \<open>No operation changes the cooldown, and the opening time is a clock reading.\<close>

lemma step_cooldown: "breaker_step b now c b' \<Longrightarrow> cooldown b' = cooldown b"
  by (induction rule: breaker_step.induct) (auto simp: op_defs Let_def split: BState.splits if_splits)

section \<open>The interface the risk engine relies on\<close>

text \<open>
  A gate that hands out a probe must get a report before it can serve again. A client that
  reports after every admission leaves no probe pending, whatever the gate's policy is.
\<close>

locale probe_gate =
  fixes allow :: "'b \<Rightarrow> bool \<times> 'b" and success :: "'b \<Rightarrow> 'b" and failure :: "'b \<Rightarrow> 'b"
    and pending :: "'b \<Rightarrow> bool"
  assumes success_settles: "\<not> pending (success b)"
    and failure_settles: "\<not> pending (failure b)"
    and denied_pending: "\<not> fst (allow b) \<Longrightarrow> pending (snd (allow b)) = pending b"
begin

lemma reported_call_settles:
  "\<not> pending b \<Longrightarrow> allow b = (ok, b') \<Longrightarrow> ok \<longrightarrow> (b'' = success b' \<or> b'' = failure b') \<Longrightarrow>
   \<not> ok \<longrightarrow> b'' = b' \<Longrightarrow> \<not> pending b''"
  using success_settles failure_settles denied_pending [of b] by (cases ok) auto

end

definition pending :: "Breaker \<Rightarrow> bool" where
  "pending b \<longleftrightarrow> state b = HalfOpenTesting"

interpretation breaker_gate: probe_gate "Allow now" ReportSuccess "ReportFailure now'" pending for now now'
  by unfold_locales (auto simp: op_defs pending_def Let_def split: BState.splits if_splits)

section \<open>Open means closed to traffic\<close>

lemma not_due: "0 < sint cd \<Longrightarrow> u < t + sint cd \<Longrightarrow> \<not> cd \<le>s time_Sub u t"
  using time_Sub_ge [of cd u t] by (simp add: word_sle_eq)

lemma due: "0 < sint cd \<Longrightarrow> t + sint cd \<le> u \<Longrightarrow> cd \<le>s time_Sub u t"
  using time_Sub_ge [of cd u t] by (simp add: word_sle_eq)

lemma due_iff: "0 < sint cd \<Longrightarrow> cd \<le>s time_Sub u t \<longleftrightarrow> t + sint cd \<le> u"
  using due [of cd t u] not_due [of cd u t] by linarith

text \<open>
  One call of the code is one move of the documented machine, with the same answer, and every
  move of the machine is one the code makes.
\<close>

lemma advance_in_time: "advanced_in_time t b \<Longrightarrow> t \<le> now \<Longrightarrow> advanced_in_time now b"
  by (auto simp: advanced_in_time_def)

lemmas breaker_ops = maybeAdvanceLocked_def State_def Trip_def Allow_def ReportSuccess_def ReportFailure_def Let_def

lemma step_in_time:
  "breaker_step b now c b' \<Longrightarrow> 0 < sint (cooldown b) \<Longrightarrow> advanced_in_time now b \<Longrightarrow> advanced_in_time now b'"
  by (induction rule: breaker_step.induct)
     (auto simp: breaker_ops advanced_in_time_def due_iff split: BState.splits if_splits)

lemma step_documented:
  "breaker_step b now c b' \<Longrightarrow> 0 < sint (cooldown b) \<Longrightarrow> advanced_in_time now b \<Longrightarrow>
   documented (sint (cooldown b)) (mode b) now c (mode b')"
  by (induction rule: breaker_step.induct)
     (auto simp: breaker_ops mode_def advanced_in_time_def due_iff split: BState.splits if_splits)

lemma documented_step:
  "documented (sint (cooldown b)) (mode b) now c m' \<Longrightarrow> 0 < sint (cooldown b) \<Longrightarrow> advanced_in_time now b \<Longrightarrow>
   \<exists>b'. breaker_step b now c b' \<and> mode b' = m'"
  by (cases c; cases "state b")
     (auto simp: breaker_ops mode_def advanced_in_time_def due_iff split: BState.splits if_splits)

lemma open_step:
  assumes "breaker_step b now c b'" and "state b = Open" and "0 < sint (cooldown b)"
    and "t \<le> openedAt b" and "t \<le> now" and "now < t + sint (cooldown b)"
  shows "state b' = Open \<and> t \<le> openedAt b' \<and> c \<noteq> CAllow True"
proof -
  have "\<not> cooldown b \<le>s time_Sub now (openedAt b)" using assms by (intro not_due) simp_all
  then show ?thesis using assms(1,2,4,5) by (cases c) (auto simp: op_defs)
qed

lemma open_run:
  assumes "breaker_run b cs b'" and "state b = Open" and "0 < sint (cooldown b)"
    and "t \<le> openedAt b" and "\<forall>(u, c) \<in> set cs. t \<le> u \<and> u < t + sint (cooldown b)"
  shows "state b' = Open \<and> (\<forall>(u, c) \<in> set cs. c \<noteq> CAllow True)"
  using assms
proof (induction rule: breaker_run.induct)
  case (run_cons b now c b' cs b'')
  have s: "state b' = Open" "t \<le> openedAt b'" "c \<noteq> CAllow True"
    using open_step [OF run_cons.hyps(1)] run_cons.prems by auto
  have cd: "cooldown b' = cooldown b" using step_cooldown [OF run_cons.hyps(1)] .
  show ?case using run_cons.IH s cd run_cons.prems by auto
qed simp

section \<open>The code runs the documented machine\<close>

lemma runs_agree:
  assumes "sorted (map fst cs)" and "0 < sint (cooldown b)" and "\<forall>(u, c) \<in> set cs. t \<le> u" and "advanced_in_time t b"
  shows "(\<exists>b'. breaker_run b cs b' \<and> mode b' = m) \<longleftrightarrow> documented_run (sint (cooldown b)) (mode b) cs m"
  using assms
proof (induction cs arbitrary: b t)
  case (Cons x cs)
  obtain now c where x: "x = (now, c)" by (cases x)
  have in_time: "advanced_in_time now b" using advance_in_time Cons.prems(3,4) x by auto
  have later: "\<forall>(u, c) \<in> set cs. now \<le> u" using Cons.prems(1) x by auto
  have rest: "(\<exists>b''. breaker_run b' cs b'' \<and> mode b'' = m) \<longleftrightarrow>
      documented_run (sint (cooldown b)) (mode b') cs m" if "breaker_step b now c b'" for b'
    using Cons.IH [of b' now] Cons.prems(1,2) later step_in_time [OF that _ in_time] step_cooldown [OF that] x by auto
  show ?case
    using rest step_documented [OF _ Cons.prems(2) in_time] documented_step [OF _ Cons.prems(2) in_time] x
    by (simp; blast)
qed auto

section \<open>One probe at a time\<close>

definition queries :: "(time \<times> Call) list \<Rightarrow> bool" where
  "queries cs \<longleftrightarrow> (\<forall>(u, c) \<in> set cs. c \<notin> {CTrip, CSuccess, CFailure})"

definition admitted :: "(time \<times> Call) list \<Rightarrow> nat" where
  "admitted cs = length (filter (\<lambda>(u, c). c = CAllow True) cs)"

lemma testing_run: "breaker_run b cs b' \<Longrightarrow> state b = HalfOpenTesting \<Longrightarrow> queries cs \<Longrightarrow> admitted cs = 0"
proof (induction rule: breaker_run.induct)
  case (run_cons b now c b' cs b'')
  then have "state b' = HalfOpenTesting" and "c \<noteq> CAllow True"
    by (cases c; auto simp: op_defs queries_def)+
  with run_cons show ?case by (auto simp: queries_def admitted_def)
qed (simp add: admitted_def)

lemma probing_run: "breaker_run b cs b' \<Longrightarrow> state b \<noteq> Closed \<Longrightarrow> queries cs \<Longrightarrow> admitted cs \<le> 1"
proof (induction rule: breaker_run.induct)
  case (run_cons b now c b' cs b'')
  have q: "queries cs" and nc: "state b' \<noteq> Closed"
    using run_cons.hyps(1) run_cons.prems
    by (cases c; auto simp: op_defs queries_def Let_def split: BState.splits if_splits)+
  show ?case
  proof (cases "c = CAllow True")
    case True
    with run_cons.hyps(1) run_cons.prems have "state b' = HalfOpenTesting"
      by (auto simp: op_defs Let_def split: BState.splits if_splits)
    with testing_run [OF run_cons.hyps(2)] q True show ?thesis by (simp add: admitted_def)
  next
    case False
    with run_cons.IH q nc show ?thesis by (auto simp: admitted_def)
  qed
qed (simp add: admitted_def)

section \<open>Recovery\<close>

lemma probing_closes:
  "breaker_run b cs b' \<Longrightarrow> state b \<noteq> Closed \<Longrightarrow> state b' = Closed \<Longrightarrow> CSuccess \<in> snd ` set cs"
proof (induction rule: breaker_run.induct)
  case (run_cons b now c b' cs b'')
  show ?case
  proof (cases "state b' = Closed")
    case True
    with run_cons.hyps(1) run_cons.prems(1) have "c = CSuccess"
      by (cases c) (auto simp: op_defs Let_def split: BState.splits if_splits)
    then show ?thesis by simp
  next
    case False
    with run_cons show ?thesis by auto
  qed
qed simp

lemma open_closes:
  "breaker_run b cs b' \<Longrightarrow> state b = Open \<or> state b = HalfOpen \<Longrightarrow> state b' = Closed \<Longrightarrow>
   \<exists>us u vs. cs = us @ (u, CAllow True) # vs \<and> CSuccess \<in> snd ` set vs"
proof (induction rule: breaker_run.induct)
  case (run_cons b now c b' cs b'')
  show ?case
  proof (cases "c = CAllow True")
    case True
    with run_cons.hyps(1) run_cons.prems(1) have "state b' \<noteq> Closed"
      by (auto simp: op_defs Let_def split: BState.splits if_splits)
    with probing_closes [OF run_cons.hyps(2)] run_cons.prems(2) have "CSuccess \<in> snd ` set cs" by simp
    with True show ?thesis by (intro exI [of _ "[]"]) auto
  next
    case False
    with run_cons.hyps(1) run_cons.prems(1) have "state b' = Open \<or> state b' = HalfOpen"
      by (cases c) (auto simp: op_defs Let_def split: BState.splits if_splits)
    with run_cons.IH run_cons.prems(2) obtain us u vs
      where "cs = us @ (u, CAllow True) # vs" and "CSuccess \<in> snd ` set vs" by blast
    then show ?thesis by (intro exI [of _ "(now, c) # us"]) auto
  qed
qed auto

section \<open>Properties\<close>

text \<open>
  C33: the breaker is the documented machine: take a breaker with a positive cooldown, fresh from
  \<open>New\<close>, and any sequence of calls by any number of callers at non-decreasing clock readings.
  The code can answer the calls as listed and end in a breaker that stands for \<open>m\<close> exactly if
  the documented machine answers them so and ends in \<open>m\<close>: who is let through and when, one
  trial per half-open period, which report closes or cuts, when the cooldown starts again, and
  which state a caller reads (never the pseudo-state).
\<close>

theorem breaker_refines_phases:
  assumes "0 < sint cd" and "sorted (map fst cs)"
  shows "(\<exists>b'. breaker_run (circuit_New cd) cs b' \<and> mode b' = m) \<longleftrightarrow> documented_run (sint cd) Flowing cs m"
proof -
  have "advanced_in_time t (circuit_New cd)" for t by (simp add: advanced_in_time_def circuit_New_def)
  moreover have "\<exists>t. \<forall>(u, c) \<in> set cs. t \<le> u" by (intro exI [of _ "Min (insert 0 (fst ` set cs))"]) (force intro: Min_le)
  ultimately show ?thesis using runs_agree [of cs "circuit_New cd"] assms by (auto simp: circuit_New_def mode_def)
qed

theorem breaker_refines_phases_witness:
  "documented_run 1000000000 Flowing
     [(5, CFailure), (6, CAllow False), (2000000000, CAllow True), (2000000001, CAllow False),
      (2000000002, CState HalfOpen), (2000000003, CSuccess), (2000000004, CAllow True)] Flowing"
proof -
  have "breaker_run (circuit_New Second)
     [(5, CFailure), (6, CAllow False), (2000000000, CAllow True), (2000000001, CAllow False),
      (2000000002, CState HalfOpen), (2000000003, CSuccess), (2000000004, CAllow True)]
     ((circuit_New Second)\<lparr>openedAt := 5\<rparr>)" (is "breaker_run _ ?cs _")
    by (simp add: op_defs circuit_New_def go_simps)
  then show ?thesis
    using breaker_refines_phases [of Second ?cs Flowing] by (force simp: mode_def circuit_New_def go_simps)
qed

text \<open>
  A tripped breaker cuts the traffic: in any sequence of calls after a trip, by any number
  of callers and at any times before the cooldown has elapsed since the trip, no \<open>Allow\<close>
  returns true and the breaker is still open at the end.
\<close>

theorem trip_cuts_traffic:
  assumes "breaker_run (Trip t b) cs b'" and "0 < sint (cooldown b)"
    and "\<forall>(u, c) \<in> set cs. t \<le> u \<and> u < t + sint (cooldown b)"
  shows "state b' = Open \<and> (\<forall>(u, c) \<in> set cs. c \<noteq> CAllow True)"
  using open_run [OF assms(1), of t] assms(2,3) by (simp add: Trip_def)

theorem trip_cuts_traffic_witness:
  "state (Trip 5 (circuit_New Second)) = Open \<and>
   breaker_run (Trip 5 (circuit_New Second)) [(6, CAllow False), (7, CSuccess)] (Trip 5 (circuit_New Second))"
proof -
  have r: "breaker_run (Trip 5 (circuit_New Second)) [(6, CAllow False), (7, CSuccess)] (Trip 5 (circuit_New Second))"
    by (simp add: op_defs circuit_New_def go_simps)
  show ?thesis using trip_cuts_traffic [OF r] r by (simp add: circuit_New_def)
qed

text \<open>
  A half-open breaker admits one probe: as long as nobody reports or trips, of any number of
  \<open>Allow\<close> and \<open>State\<close> calls on a breaker that is not closed, at most one is admitted.
\<close>

theorem single_probe:
  assumes "breaker_run b cs b'" and "state b \<noteq> Closed" and "queries cs"
  shows "admitted cs \<le> 1"
  using assms by (rule probing_run)

theorem single_probe_witness:
  "breaker_run (Trip 5 (circuit_New Second)) [(2000000000, CAllow True), (2000000001, CAllow False)]
     ((Trip 5 (circuit_New Second))\<lparr>state := HalfOpenTesting\<rparr>) \<and>
   admitted [(2000000000, CAllow True), (2000000001, CAllow False)] \<le> 1"
proof -
  have r: "breaker_run (Trip 5 (circuit_New Second)) [(2000000000, CAllow True), (2000000001, CAllow False)]
     ((Trip 5 (circuit_New Second))\<lparr>state := HalfOpenTesting\<rparr>)"
    by (simp add: op_defs circuit_New_def go_simps)
  show ?thesis using single_probe [OF r] r by (simp add: Trip_def queries_def)
qed

text \<open>
  An open breaker closes again only through a probe: whenever a run leads from an open (or
  half-open) breaker to a closed one, some \<open>Allow\<close> in it was admitted and a success was
  reported after that.
\<close>

theorem recovery_needs_probe:
  assumes "breaker_run b cs b'" and "state b = Open \<or> state b = HalfOpen" and "state b' = Closed"
  shows "\<exists>us u vs. cs = us @ (u, CAllow True) # vs \<and> CSuccess \<in> snd ` set vs"
  using assms by (rule open_closes)

theorem recovery_needs_probe_witness:
  "\<exists>us u vs. [(2000000000 :: time, CAllow True), (2000000001, CSuccess)] = us @ (u, CAllow True) # vs \<and>
     CSuccess \<in> snd ` set vs"
proof -
  have r: "breaker_run (Trip 5 (circuit_New Second)) [(2000000000, CAllow True), (2000000001, CSuccess)]
     ((Trip 5 (circuit_New Second))\<lparr>state := Closed\<rparr>)"
    by (simp add: op_defs circuit_New_def go_simps)
  show ?thesis using recovery_needs_probe [OF r] by (simp add: Trip_def)
qed

text \<open>
  Recovery works: once the cooldown has elapsed, the next \<open>Allow\<close> is admitted and takes
  the probe slot, a success then closes the breaker and a failure opens it again for a full
  cooldown from the failure.
\<close>

theorem probe_outcome:
  assumes "state b = Open" and "0 < sint (cooldown b)" and "openedAt b + sint (cooldown b) \<le> u"
  shows "Allow u b = (True, b\<lparr>state := HalfOpenTesting\<rparr>)
    \<and> state (ReportSuccess (snd (Allow u b))) = Closed
    \<and> state (ReportFailure w (snd (Allow u b))) = Open
    \<and> openedAt (ReportFailure w (snd (Allow u b))) = w"
  using due [OF assms(2,3)] assms(1) by (simp add: op_defs)

theorem probe_outcome_witness:
  "Allow 2000000000 (Trip 5 (circuit_New Second))
     = (True, (Trip 5 (circuit_New Second))\<lparr>state := HalfOpenTesting\<rparr>)"
  using probe_outcome [of "Trip 5 (circuit_New Second)" 2000000000 7]
  by (simp add: Trip_def circuit_New_def)

text \<open>
  The generation counter guards nothing: no operation reads \<open>halfOpenGen\<close>, so every
  result and every next state is the same for any value of it, and a report cannot be matched
  to the probe it belongs to.
\<close>

theorem halfOpenGen_never_read:
  "fst (Allow u (b\<lparr>halfOpenGen := g\<rparr>)) = fst (Allow u b) \<and>
   state (snd (Allow u (b\<lparr>halfOpenGen := g\<rparr>))) = state (snd (Allow u b)) \<and>
   ReportSuccess (b\<lparr>halfOpenGen := g\<rparr>) = (ReportSuccess b)\<lparr>halfOpenGen := g\<rparr> \<and>
   ReportFailure u (b\<lparr>halfOpenGen := g\<rparr>) = (ReportFailure u b)\<lparr>halfOpenGen := g\<rparr> \<and>
   State u (b\<lparr>halfOpenGen := g\<rparr>) = (fst (State u b), (snd (State u b))\<lparr>halfOpenGen := g\<rparr>)"
  by (auto simp: op_defs Let_def split: BState.splits)

end
