(* ===== verification/Pricing.thy ===== *)
theory Pricing
  imports GoTime Money
begin

text \<open>
  Package \<open>pricing\<close> (\<open>internal/pricing/pricing.go\<close>): the versioned price registry. A missing
  key of the Go map reads as the nil slice, here the empty list. \<open>EffectiveUntil\<close> at the zero
  time means that a version is still in effect.
\<close>

datatype PricingError = ErrNoPricingInEffect

record Rate =
  RateProvider :: string
  RateModel :: string
  InputPerUnit :: micros
  OutputPerUnit :: micros
  RequestFee :: micros
  Version :: int64
  EffectiveFrom :: time
  EffectiveUntil :: time

definition activeAt :: "Rate \<Rightarrow> time \<Rightarrow> bool" where
  "activeAt r t =
     (if Before t (EffectiveFrom r) then False
      else if \<not> IsZero (EffectiveUntil r) \<and> \<not> Before t (EffectiveUntil r) then False
      else True)"

definition Estimate :: "Rate \<Rightarrow> int64 \<Rightarrow> int64 \<Rightarrow> micros" where
  "Estimate r inputUnits outputUnits =
     RequestFee r + inputUnits * InputPerUnit r + outputUnits * OutputPerUnit r"

record Registry =
  rates :: "string \<times> string \<Rightarrow> Rate list"

definition pricing_NewRegistry :: Registry where
  "pricing_NewRegistry = \<lparr>rates = (\<lambda>_. [])\<rparr>"

definition close_at :: "time \<Rightarrow> Rate \<Rightarrow> Rate" where
  "close_at from x =
     (if IsZero (EffectiveUntil x) \<and> \<not> After (EffectiveFrom x) from then x\<lparr>EffectiveUntil := from\<rparr> else x)"

definition AddRate :: "Rate \<Rightarrow> Registry \<Rightarrow> Registry" where
  "AddRate rate reg =
     (let k = (RateProvider rate, RateModel rate);
          lst = map (close_at (EffectiveFrom rate)) (rates reg k)
      in reg\<lparr>rates := (rates reg)(k := lst @ [rate])\<rparr>)"

fun first_active :: "Rate list \<Rightarrow> time \<Rightarrow> PricingError + Rate" where
  "first_active [] t = Inl ErrNoPricingInEffect"
| "first_active (r # rs) t = (if activeAt r t then Inr r else first_active rs t)"

definition RateAt :: "Registry \<Rightarrow> string \<Rightarrow> string \<Rightarrow> time \<Rightarrow> PricingError + Rate" where
  "RateAt reg provider model t = first_active (rates reg (provider, model)) t"

section \<open>Prices\<close>

definition true_cost :: "Rate \<Rightarrow> int64 \<Rightarrow> int64 \<Rightarrow> int" where
  "true_cost r i out =
     sint (RequestFee r) + sint i * sint (InputPerUnit r) + sint out * sint (OutputPerUnit r)"

text \<open>The part of a version that accounting depends on.\<close>

definition price :: "Rate \<Rightarrow> micros \<times> micros \<times> micros \<times> int64" where
  "price r = (InputPerUnit r, OutputPerUnit r, RequestFee r, Version r)"

definition priceAt :: "Registry \<Rightarrow> string \<Rightarrow> string \<Rightarrow> time \<Rightarrow> (micros \<times> micros \<times> micros \<times> int64) option" where
  "priceAt reg p m t = (case RateAt reg p m t of Inl _ \<Rightarrow> None | Inr r \<Rightarrow> Some (price r))"

lemma price_close [simp]: "price (close_at from r) = price r"
  by (simp add: price_def close_at_def)

lemma EffectiveFrom_close [simp]: "EffectiveFrom (close_at from r) = EffectiveFrom r"
  by (simp add: close_at_def)

lemma activeAt_close_before: "t < from \<Longrightarrow> activeAt (close_at from r) t = activeAt r t"
  by (simp add: activeAt_def close_at_def op_defs)

lemma first_active_append:
  "first_active (xs @ ys) t = (case first_active xs t of Inl _ \<Rightarrow> first_active ys t | Inr r \<Rightarrow> Inr r)"
  by (induction xs) auto

lemma first_active_close:
  "t < from \<Longrightarrow> first_active (map (close_at from) xs) t = map_sum id (close_at from) (first_active xs t)"
  by (induction xs) (auto simp: activeAt_close_before)

lemma first_active_none: "\<forall>r \<in> set xs. \<not> activeAt r t \<Longrightarrow> first_active xs t = Inl ErrNoPricingInEffect"
  by (induction xs) auto

lemma first_active_Inr: "first_active xs t = Inr r \<Longrightarrow> r \<in> set xs \<and> activeAt r t"
  by (induction xs) (auto split: if_splits)

lemma first_active_Inl: "first_active xs t = Inl e \<longleftrightarrow> (\<forall>r \<in> set xs. \<not> activeAt r t)"
  by (induction xs) (auto, metis PricingError.exhaust)

section \<open>The interface: price changes do not reach into the past\<close>

locale price_history =
  fixes add :: "'r \<Rightarrow> 'h \<Rightarrow> 'h" and quote :: "'h \<Rightarrow> 'k \<Rightarrow> int \<Rightarrow> 'p" and eff :: "'r \<Rightarrow> int"
  assumes add_past: "t < eff r \<Longrightarrow> quote (add r h) k t = quote h k t"
begin

lemma later_adds: "\<forall>r \<in> set rs. t < eff r \<Longrightarrow> quote (fold add rs h) k t = quote h k t"
  by (induction rs arbitrary: h) (auto simp: add_past)

end

interpretation registry_history: price_history AddRate "\<lambda>h (p, m). priceAt h p m" "EffectiveFrom :: Rate \<Rightarrow> time"
proof
  fix t and r :: Rate and h and k :: "string \<times> string"
  assume t: "t < EffectiveFrom r"
  then have "\<not> activeAt r t" by (simp add: activeAt_def op_defs)
  with t show "(case k of (p, m) \<Rightarrow> priceAt (AddRate r h) p m) t = (case k of (p, m) \<Rightarrow> priceAt h p m) t"
    by (auto simp: priceAt_def RateAt_def AddRate_def Let_def first_active_append first_active_close
        split: sum.splits prod.splits)
qed

section \<open>Versions added in order\<close>

text \<open>
  The intended use: open-ended versions of one provider and model, each starting after the one
  before. The list of such a history, as \<open>AddRate\<close> leaves it, is closed version by version and
  open at the end.
\<close>

fun chained :: "Rate list \<Rightarrow> bool" where
  "chained [] = True"
| "chained [r] = (EffectiveUntil r = 0 \<and> 0 < EffectiveFrom r)"
| "chained (r # s # rs) =
     (EffectiveUntil r = EffectiveFrom s \<and> 0 < EffectiveFrom r \<and> EffectiveFrom r < EffectiveFrom s \<and> chained (s # rs))"

lemma chained_from: "chained (r # rs) \<Longrightarrow> x \<in> set rs \<Longrightarrow> EffectiveFrom r < EffectiveFrom x"
  by (induction rs arbitrary: r) fastforce+

lemma chained_add:
  "chained xs \<Longrightarrow> EffectiveUntil rate = 0 \<Longrightarrow> 0 < EffectiveFrom rate \<Longrightarrow>
   (\<forall>x \<in> set xs. EffectiveFrom x < EffectiveFrom rate) \<Longrightarrow>
   chained (map (close_at (EffectiveFrom rate)) xs @ [rate])"
proof (induction xs rule: chained.induct)
  case (3 r s rs)
  then have "chained (map (close_at (EffectiveFrom rate)) (s # rs) @ [rate])" by simp
  with 3 show ?case
    by (cases "map (close_at (EffectiveFrom rate)) (s # rs) @ [rate]") (auto simp: close_at_def op_defs)
qed (auto simp: close_at_def op_defs)

text \<open>In a chained history the version in effect is the last one that has started.\<close>

lemma chained_lookup:
  "chained xs \<Longrightarrow> r \<in> set xs \<Longrightarrow> EffectiveFrom r \<le> t \<Longrightarrow>
   (\<forall>x \<in> set xs. EffectiveFrom x \<le> t \<longrightarrow> EffectiveFrom x \<le> EffectiveFrom r) \<Longrightarrow> first_active xs t = Inr r"
proof (induction xs rule: chained.induct)
  case (2 r)
  then show ?case by (simp add: activeAt_def op_defs)
next
  case (3 x y rs)
  show ?case
  proof (cases "r = x")
    case True
    with 3 have "t < EffectiveFrom y" by force
    with True 3 show ?thesis by (simp add: activeAt_def op_defs)
  next
    case False
    with 3 have "r \<in> set (y # rs)" by simp
    then have "EffectiveFrom y \<le> EffectiveFrom r"
      using chained_from [of y rs r] "3.prems"(1) by (auto intro: less_imp_le)
    with 3 have "\<not> activeAt x t" by (simp add: activeAt_def op_defs)
    with 3 \<open>r \<in> set (y # rs)\<close> show ?thesis by simp
  qed
qed simp

definition versions_of :: "string \<Rightarrow> string \<Rightarrow> Rate list \<Rightarrow> bool" where
  "versions_of p m rs \<longleftrightarrow> sorted_wrt (\<lambda>r s. EffectiveFrom r < EffectiveFrom s) rs \<and>
     (\<forall>r \<in> set rs. RateProvider r = p \<and> RateModel r = m \<and> EffectiveUntil r = 0 \<and> 0 < EffectiveFrom r)"

definition stamped_price :: "Rate \<Rightarrow> time \<times> micros \<times> micros \<times> micros \<times> int64" where
  "stamped_price r = (EffectiveFrom r, price r)"

lemma stamped_price_close [simp]: "stamped_price (close_at from r) = stamped_price r"
  by (simp add: stamped_price_def)

lemma stamped_transfer:
  assumes "map stamped_price xs = map stamped_price ys" and "x \<in> set xs"
  obtains y where "y \<in> set ys" and "EffectiveFrom y = EffectiveFrom x" and "price y = price x"
proof -
  have "stamped_price x \<in> set (map stamped_price ys)" using assms by (simp flip: assms(1))
  then show thesis using that by (auto simp: stamped_price_def)
qed

lemma add_versions:
  assumes "versions_of p m rs"
  shows "chained (rates (fold AddRate rs pricing_NewRegistry) (p, m)) \<and>
    map stamped_price (rates (fold AddRate rs pricing_NewRegistry) (p, m)) = map stamped_price rs"
  using assms
proof (induction rs rule: rev_induct)
  case (snoc r rs)
  let ?xs = "rates (fold AddRate rs pricing_NewRegistry) (p, m)"
  have v: "versions_of p m rs" "RateProvider r = p" "RateModel r = m" "EffectiveUntil r = 0"
    "0 < EffectiveFrom r" "\<forall>x \<in> set rs. EffectiveFrom x < EffectiveFrom r"
    using snoc.prems by (auto simp: versions_of_def sorted_wrt_append)
  then have IH: "chained ?xs" "map stamped_price ?xs = map stamped_price rs" using snoc.IH by auto
  have "\<forall>x \<in> set ?xs. EffectiveFrom x < EffectiveFrom r"
    using stamped_transfer [OF IH(2)] v(6) by metis
  with v IH have "chained (map (close_at (EffectiveFrom r)) ?xs @ [r])" by (intro chained_add)
  with v IH show ?case by (simp add: AddRate_def [of r] Let_def comp_def)
qed (simp add: pricing_NewRegistry_def)

section \<open>Properties\<close>

text \<open>
  C34: a pricing change never rewrites past accounting: after any number of later versions, of
  any provider and model, the price in effect at an earlier time is the one it was.
\<close>

theorem pricing_past_immutable:
  assumes "\<forall>r \<in> set rs. t < EffectiveFrom r"
  shows "priceAt (fold AddRate rs reg) p m t = priceAt reg p m t"
  using registry_history.later_adds [OF assms, of reg "(p, m)"] by simp

definition demo_rate :: "time \<Rightarrow> micros \<Rightarrow> Rate" where
  "demo_rate from fee = \<lparr>RateProvider = ''p'', RateModel = ''m'', InputPerUnit = 1, OutputPerUnit = 2,
     RequestFee = fee, Version = 1, EffectiveFrom = from, EffectiveUntil = 0\<rparr>"

theorem pricing_past_immutable_witness:
  "priceAt (fold AddRate [demo_rate 10 7, demo_rate 20 8] (AddRate (demo_rate 1 5) pricing_NewRegistry)) ''p'' ''m'' 9
     = Some (1, 2, 5, 1)"
proof -
  have "priceAt (AddRate (demo_rate 1 5) pricing_NewRegistry) ''p'' ''m'' 9 = Some (1, 2, 5, 1)"
    by code_simp
  then show ?thesis
    using pricing_past_immutable [of "[demo_rate 10 7, demo_rate 20 8]" 9 "AddRate (demo_rate 1 5) pricing_NewRegistry"
      "''p''" "''m''"] by (simp add: demo_rate_def)
qed

text \<open>
  For open-ended versions registered in the order of their start, the history is gapless
  and unambiguous: at every time since the first version the registry answers with the version
  that started last, and before the first with \<open>ErrNoPricingInEffect\<close>.
\<close>

theorem rate_in_effect:
  assumes "versions_of p m rs"
  shows "(\<forall>r \<in> set rs. EffectiveFrom r \<le> t \<and> (\<forall>x \<in> set rs. EffectiveFrom x \<le> t \<longrightarrow> EffectiveFrom x \<le> EffectiveFrom r)
      \<longrightarrow> priceAt (fold AddRate rs pricing_NewRegistry) p m t = Some (price r))
    \<and> ((\<forall>r \<in> set rs. t < EffectiveFrom r)
      \<longrightarrow> RateAt (fold AddRate rs pricing_NewRegistry) p m t = Inl ErrNoPricingInEffect)"
proof (intro conjI ballI impI)
  let ?xs = "rates (fold AddRate rs pricing_NewRegistry) (p, m)"
  have a: "chained ?xs" and img: "map stamped_price ?xs = map stamped_price rs"
    using add_versions [OF assms] by auto
  {
    fix r
    assume r: "r \<in> set rs"
      "EffectiveFrom r \<le> t \<and> (\<forall>x \<in> set rs. EffectiveFrom x \<le> t \<longrightarrow> EffectiveFrom x \<le> EffectiveFrom r)"
    obtain r' where r': "r' \<in> set ?xs" "EffectiveFrom r' = EffectiveFrom r" "price r' = price r"
      using stamped_transfer [OF img [symmetric] r(1)] .
    have "\<forall>x \<in> set ?xs. EffectiveFrom x \<le> t \<longrightarrow> EffectiveFrom x \<le> EffectiveFrom r'"
      using stamped_transfer [OF img] r(2) r'(2) by metis
    then have "first_active ?xs t = Inr r'"
      using a r r' by (intro chained_lookup) simp_all
    then show "priceAt (fold AddRate rs pricing_NewRegistry) p m t = Some (price r)"
      using r'(3) by (simp add: priceAt_def RateAt_def)
  }
  assume "\<forall>r \<in> set rs. t < EffectiveFrom r"
  then have "\<forall>x \<in> set ?xs. t < EffectiveFrom x"
    using stamped_transfer [OF img] by metis
  then show "RateAt (fold AddRate rs pricing_NewRegistry) p m t = Inl ErrNoPricingInEffect"
    unfolding RateAt_def by (intro first_active_none) (simp add: activeAt_def op_defs)
qed

theorem rate_in_effect_witness:
  "versions_of ''p'' ''m'' [demo_rate 10 5, demo_rate 20 7] \<and>
   priceAt (fold AddRate [demo_rate 10 5, demo_rate 20 7] pricing_NewRegistry) ''p'' ''m'' 25 = Some (1, 2, 7, 1)"
proof -
  have v: "versions_of ''p'' ''m'' [demo_rate 10 5, demo_rate 20 7]"
    by (simp add: versions_of_def demo_rate_def)
  show ?thesis using rate_in_effect [OF v, of 25] v by (simp add: demo_rate_def price_def)
qed

text \<open>
  Versions registered out of order overlap, and the lookup then follows the order of
  registration, not the time: a version that starts inside a closed period is never in effect
  there, although the registry documents a sorted, non-overlapping history.
\<close>

theorem late_version_shadowed:
  "priceAt (fold AddRate [demo_rate 100 5, demo_rate 300 6, demo_rate 200 7] pricing_NewRegistry) ''p'' ''m'' 250
     = Some (1, 2, 5, 1) \<and>
   map (\<lambda>r. activeAt r 250) (rates (fold AddRate [demo_rate 100 5, demo_rate 300 6, demo_rate 200 7] pricing_NewRegistry) (''p'', ''m''))
     = [True, False, True]"
  by code_simp

text \<open>
  An estimate is exact whenever the true cost fits an \<open>int64\<close>, also if an intermediate
  product wraps; otherwise it is the true cost modulo \<open>2 ^ 64\<close>.
\<close>

theorem Estimate_exact:
  "Estimate r i out = word_of_int (true_cost r i out) \<and>
   (in_int64 (true_cost r i out) \<longrightarrow> sint (Estimate r i out) = true_cost r i out)"
proof -
  have "Estimate r i out = word_of_int (true_cost r i out)"
    by (simp add: Estimate_def true_cost_def of_int_sint)
  then show ?thesis by (simp add: sint_of_int_int64)
qed

theorem Estimate_exact_witness:
  "sint (Estimate (demo_rate 1 5) 100 100) = 305"
  using Estimate_exact [of "demo_rate 1 5" 100 100] by (simp add: demo_rate_def true_cost_def in_int64_def)

end
