(* ===== verification/Reservation.thy ===== *)
theory Reservation
  imports GoTime Money
begin

text \<open>
  Package \<open>reservation\<close> (\<open>internal/reservation/reservation.go\<close>): tenant budgets and the
  reservations held against them. The maps of \<open>Manager\<close> hold pointers to objects that only
  the manager changes and never replaces, so they are maps to values here; the mutexes are
  left out of the record. An operation of the source is the composition of its critical
  sections, each a definition of its own: run to the end they are the operation of a single
  caller, and theory \<open>Reservation_Conc\<close> interleaves them.
\<close>

datatype ResState = StateReserved | StateReconciled | StateReleased | StateExpired

datatype ResError = ErrInsufficientBudget | ErrNotFound | ErrWrongTenant | ErrTerminalState

primrec ResError_String :: "ResError \<Rightarrow> string" where
  "ResError_String ErrInsufficientBudget = ''reservation: insufficient remaining budget''"
| "ResError_String ErrNotFound = ''reservation: not found''"
| "ResError_String ErrWrongTenant = ''reservation: tenant mismatch''"
| "ResError_String ErrTerminalState = ''reservation: already in a terminal state''"

record Reservation =
  ResID :: string
  ResTenant :: string
  ResAmount :: micros
  ResStatus :: ResState
  CreatedAt :: time
  ExpiresAt :: time
  ActualCost :: micros
  IsReconciled :: bool

record account =
  limit :: micros
  reserved :: micros
  settled :: micros

definition account0 :: account where
  "account0 = \<lparr>limit = 0, reserved = 0, settled = 0\<rparr>"

definition available :: "account \<Rightarrow> micros" where
  "available a = limit a - reserved a - settled a"

record Manager =
  accounts :: "string \<rightharpoonup> account"
  reservations :: "string \<rightharpoonup> Reservation"
  idCounter :: uint64

definition NewManager :: Manager where
  "NewManager = \<lparr>accounts = Map.empty, reservations = Map.empty, idCounter = 0\<rparr>"

section \<open>Operations\<close>

definition put_account :: "string \<Rightarrow> account \<Rightarrow> Manager \<Rightarrow> Manager" where
  "put_account t a m = m\<lparr>accounts := (accounts m)(t \<mapsto> a)\<rparr>"

definition put_reservation :: "Reservation \<Rightarrow> Manager \<Rightarrow> Manager" where
  "put_reservation r m = m\<lparr>reservations := (reservations m)(ResID r \<mapsto> r)\<rparr>"

definition SetBudget :: "string \<Rightarrow> micros \<Rightarrow> Manager \<Rightarrow> Manager" where
  "SetBudget tenantID newLimit m =
     (let acc = (case accounts m tenantID of Some a \<Rightarrow> a | None \<Rightarrow> account0)
      in put_account tenantID (acc\<lparr>limit := newLimit\<rparr>) m)"

definition getAccount :: "string \<Rightarrow> Manager \<Rightarrow> account \<times> Manager" where
  "getAccount tenantID m =
     (case accounts m tenantID of
        Some a \<Rightarrow> (a, m)
      | None \<Rightarrow> (account0, put_account tenantID account0 m))"

text \<open>The clock reading of \<open>nextID\<close> is formatted to nanoseconds.\<close>

definition nextID :: "time \<Rightarrow> Manager \<Rightarrow> string \<times> Manager" where
  "nextID now m =
     (let n = idCounter m + 1
      in (format_stamp now @ ''-'' @ itoa n, m\<lparr>idCounter := n\<rparr>))"

record Exposure =
  ExpLimit :: micros
  ExpReserved :: micros
  ExpSettled :: micros
  ExpAvailable :: micros

definition Exposure_of :: "string \<Rightarrow> Manager \<Rightarrow> Exposure \<times> Manager" where
  "Exposure_of tenantID m =
     (let (acc, m) = getAccount tenantID m
      in (\<lparr>ExpLimit = limit acc, ExpReserved = reserved acc, ExpSettled = settled acc,
           ExpAvailable = available acc\<rparr>, m))"

text \<open>\<open>Reserve\<close>: the check and the commit under the account's mutex, then the publication.\<close>

definition reserve_commit :: "string \<Rightarrow> micros \<Rightarrow> Manager \<Rightarrow> bool \<times> Manager" where
  "reserve_commit tenantID amount m =
     (let (acc, m) = getAccount tenantID m
      in if available acc <s amount then (False, m)
         else (True, put_account tenantID (acc\<lparr>reserved := reserved acc + amount\<rparr>) m))"

definition new_reservation :: "string \<Rightarrow> string \<Rightarrow> micros \<Rightarrow> time \<Rightarrow> duration \<Rightarrow> Reservation" where
  "new_reservation rid tenantID amount now ttl =
     \<lparr>ResID = rid, ResTenant = tenantID, ResAmount = amount, ResStatus = StateReserved,
      CreatedAt = now, ExpiresAt = time_Add now ttl, ActualCost = 0, IsReconciled = False\<rparr>"

definition Reserve :: "clock \<Rightarrow> string \<Rightarrow> micros \<Rightarrow> duration \<Rightarrow> Manager \<Rightarrow> (ResError + Reservation) \<times> Manager" where
  "Reserve clk tenantID amount ttl m =
     (let (ok, m) = reserve_commit tenantID amount m
      in if \<not> ok then (Inl ErrInsufficientBudget, m)
         else let now = clk 0;
                  (rid, m) = nextID (clk 1) m;
                  r = new_reservation rid tenantID amount now ttl
              in (Inr r, put_reservation r m))"

definition release_apply :: "Reservation \<Rightarrow> Manager \<Rightarrow> Manager" where
  "release_apply r m =
     (let (acc, m) = getAccount (ResTenant r) m
      in if ResStatus r \<noteq> StateReserved then m
         else put_reservation (r\<lparr>ResStatus := StateReleased\<rparr>)
                (put_account (ResTenant r) (acc\<lparr>reserved := reserved acc - ResAmount r\<rparr>) m))"

definition Release :: "string \<Rightarrow> Manager \<Rightarrow> ResError option \<times> Manager" where
  "Release reservationID m =
     (case reservations m reservationID of
        None \<Rightarrow> (Some ErrNotFound, m)
      | Some r \<Rightarrow> (None, release_apply r m))"

record ReconcileResult =
  RecReserved :: micros
  RecActual :: micros
  RecReleased :: micros
  RecOverage :: micros

definition computeReconcileResult :: "micros \<Rightarrow> micros \<Rightarrow> ReconcileResult" where
  "computeReconcileResult res actual =
     (let rr = \<lparr>RecReserved = res, RecActual = actual, RecReleased = 0, RecOverage = 0\<rparr>
      in if actual <s res then rr\<lparr>RecReleased := res - actual\<rparr>
         else if res <s actual then rr\<lparr>RecOverage := actual - res\<rparr>
         else rr)"

definition ReconcileResult0 :: ReconcileResult where
  "ReconcileResult0 = \<lparr>RecReserved = 0, RecActual = 0, RecReleased = 0, RecOverage = 0\<rparr>"

definition reconcile_apply :: "Reservation \<Rightarrow> micros \<Rightarrow> Manager \<Rightarrow> (ResError + ReconcileResult) \<times> Manager" where
  "reconcile_apply r actualCost m =
     (let (acc, m) = getAccount (ResTenant r) m
      in if IsReconciled r then (Inr (computeReconcileResult (ResAmount r) (ActualCost r)), m)
         else if ResStatus r \<noteq> StateReserved then (Inl ErrTerminalState, m)
         else (Inr (computeReconcileResult (ResAmount r) actualCost),
               put_reservation (r\<lparr>ActualCost := actualCost, IsReconciled := True, ResStatus := StateReconciled\<rparr>)
                 (put_account (ResTenant r)
                    (acc\<lparr>reserved := reserved acc - ResAmount r, settled := settled acc + actualCost\<rparr>) m)))"

definition Reconcile :: "string \<Rightarrow> micros \<Rightarrow> Manager \<Rightarrow> (ResError + ReconcileResult) \<times> Manager" where
  "Reconcile reservationID actualCost m =
     (case reservations m reservationID of
        None \<Rightarrow> (Inl ErrNotFound, m)
      | Some r \<Rightarrow> reconcile_apply r actualCost m)"

text \<open>
  \<open>ExpireStale\<close> ranges over the reservation map, in an order that Go does not fix: \<open>order\<close> is
  that order of the keys. It first collects the stale ones, then expires each after a re-check.
\<close>

definition is_stale :: "time \<Rightarrow> Reservation \<Rightarrow> bool" where
  "is_stale now r \<longleftrightarrow> ResStatus r = StateReserved \<and> After now (ExpiresAt r)"

definition stale_ids :: "time \<Rightarrow> string list \<Rightarrow> Manager \<Rightarrow> string list" where
  "stale_ids now order m =
     filter (\<lambda>k. case reservations m k of None \<Rightarrow> False | Some r \<Rightarrow> is_stale now r) order"

definition expire_apply :: "string \<Rightarrow> Manager \<Rightarrow> Manager" where
  "expire_apply k m =
     (case reservations m k of
        None \<Rightarrow> m
      | Some r \<Rightarrow>
          (let (acc, m) = getAccount (ResTenant r) m
           in if ResStatus r = StateReserved
              then put_reservation (r\<lparr>ResStatus := StateExpired\<rparr>)
                     (put_account (ResTenant r) (acc\<lparr>reserved := reserved acc - ResAmount r\<rparr>) m)
              else m))"

definition ExpireStale :: "time \<Rightarrow> string list \<Rightarrow> Manager \<Rightarrow> nat \<times> Manager" where
  "ExpireStale now order m =
     (let stale = stale_ids now order m in (length stale, fold expire_apply stale m))"

definition Get :: "string \<Rightarrow> Manager \<Rightarrow> ResError + Reservation" where
  "Get reservationID m =
     (case reservations m reservationID of None \<Rightarrow> Inl ErrNotFound | Some r \<Rightarrow> Inr r)"

declare put_account_def [op_defs] put_reservation_def [op_defs] SetBudget_def [op_defs]
  getAccount_def [op_defs] nextID_def [op_defs] Exposure_of_def [op_defs]
  reserve_commit_def [op_defs] new_reservation_def [op_defs] Reserve_def [op_defs]
  release_apply_def [op_defs] Release_def [op_defs] reconcile_apply_def [op_defs]
  Reconcile_def [op_defs] expire_apply_def [op_defs]

section \<open>The accounting invariant\<close>

text \<open>
  \<open>held t m\<close> adds the amounts of the tenant's reservations in state RESERVED and \<open>spent t m\<close>
  the actual costs of its reconciled ones. The invariant: every account's counters are these
  sums (in machine arithmetic, so no bound is needed), a reservation is stored under its own
  identifier, its tenant has an account, and the identifiers carry distinct counter values.
\<close>

definition holds_for :: "string \<Rightarrow> Reservation \<Rightarrow> bool" where
  "holds_for t r \<longleftrightarrow> ResTenant r = t \<and> ResStatus r = StateReserved"

definition spends_for :: "string \<Rightarrow> Reservation \<Rightarrow> bool" where
  "spends_for t r \<longleftrightarrow> ResTenant r = t \<and> IsReconciled r"

definition held :: "string \<Rightarrow> Manager \<Rightarrow> micros" where
  "held t m = entries_sum (holds_for t) ResAmount (reservations m)"

definition spent :: "string \<Rightarrow> Manager \<Rightarrow> micros" where
  "spent t m = entries_sum (spends_for t) ActualCost (reservations m)"

definition numbered :: "uint64 \<Rightarrow> string \<Rightarrow> bool" where
  "numbered c k \<longleftrightarrow> (\<exists>p n. k = p @ ''-'' @ itoa n \<and> unat n \<le> unat c)"

definition books :: "Manager \<Rightarrow> bool" where
  "books m \<longleftrightarrow> finite (dom (reservations m)) \<and>
     (\<forall>k r. reservations m k = Some r \<longrightarrow>
        ResID r = k \<and> accounts m (ResTenant r) \<noteq> None \<and> numbered (idCounter m) k \<and>
        (IsReconciled r \<longleftrightarrow> ResStatus r = StateReconciled)) \<and>
     (\<forall>t acc. accounts m t = Some acc \<longrightarrow> reserved acc = held t m \<and> settled acc = spent t m)"

text \<open>Fresh identifiers.\<close>

lemma numbered_mono: "numbered c k \<Longrightarrow> unat c \<le> unat c' \<Longrightarrow> numbered c' k"
proof -
  assume "numbered c k" and le: "unat c \<le> unat c'"
  then obtain p n where "k = p @ ''-'' @ itoa n" and "unat n \<le> unat c" by (auto simp: numbered_def)
  with le show ?thesis unfolding numbered_def by (intro exI [of _ p] exI [of _ n]) simp
qed

lemma unat_succ: "unat c < 2 ^ 64 - 1 \<Longrightarrow> unat (c + 1 :: uint64) = unat c + 1"
  by (simp add: unat_word_ariths)

lemma nextID_fresh:
  assumes "unat (idCounter m) < 2 ^ 64 - 1"
  shows "\<not> numbered (idCounter m) (fst (nextID now m))" and "numbered (idCounter m + 1) (fst (nextID now m))"
proof -
  show "numbered (idCounter m + 1) (fst (nextID now m))"
    by (auto simp: numbered_def nextID_def Let_def)
  show "\<not> numbered (idCounter m) (fst (nextID now m))"
  proof
    assume "numbered (idCounter m) (fst (nextID now m))"
    then obtain p n where "format_stamp now @ CHR ''-'' # itoa (idCounter m + 1) = p @ CHR ''-'' # itoa n"
      and n: "unat n \<le> unat (idCounter m)"
      by (auto simp: numbered_def nextID_def Let_def)
    then have "n = idCounter m + 1"
      using suffix_after_separator by (metis dash_notin_itoa itoa_inject)
    with n unat_succ [OF assms] show False by simp
  qed
qed

text \<open>The sums under the two ways the reservation map changes.\<close>

lemma entries_sum_none: "(\<And>k v. m k = Some v \<Longrightarrow> \<not> P v) \<Longrightarrow> entries_sum P f m = 0"
  unfolding entries_sum_def by (intro sum.neutral) auto

lemma books_entry:
  assumes "books m" and "reservations m k = Some r"
  shows "ResID r = k" and "IsReconciled r \<longleftrightarrow> ResStatus r = StateReconciled" and "numbered (idCounter m) k"
    and "\<exists>acc. accounts m (ResTenant r) = Some acc"
  using assms by (auto simp: books_def)

lemma books_account:
  assumes "books m" and "accounts m t = Some acc"
  shows "reserved acc = held t m" and "settled acc = spent t m"
  using assms by (auto simp: books_def)

lemma books_finite: "books m \<Longrightarrow> finite (dom (reservations m))"
  by (simp add: books_def)

lemma no_account_sums:
  assumes "books m" and "accounts m t = None"
  shows "held t m = 0" and "spent t m = 0"
proof -
  have "ResTenant r \<noteq> t" if "reservations m k = Some r" for k r
    using books_entry(4) [OF assms(1) that] assms(2) by auto
  then show "held t m = 0" and "spent t m = 0"
    unfolding held_def spent_def by (auto intro!: entries_sum_none simp: holds_for_def spends_for_def)
qed

lemma getAccount_cases:
  obtains (present) acc where "accounts m t = Some acc" and "getAccount t m = (acc, m)"
    | (absent) "accounts m t = None" and "getAccount t m = (account0, put_account t account0 m)"
  by (cases "accounts m t") (auto simp: getAccount_def)

lemma held_put_account [simp]: "held t (put_account u a m) = held t m"
  and spent_put_account [simp]: "spent t (put_account u a m) = spent t m"
  by (simp_all add: held_def spent_def put_account_def)

lemma books_put_account:
  assumes "books m" and "reserved a = held t m" and "settled a = spent t m"
  shows "books (put_account t a m)"
proof -
  have "reserved acc = held u m \<and> settled acc = spent u m" if "accounts (put_account t a m) u = Some acc" for u acc
    using that assms books_account [OF assms(1), of u acc] by (auto simp: put_account_def split: if_splits)
  moreover have "held u (put_account t a m) = held u m" and "spent u (put_account t a m) = spent u m" for u
    by simp_all
  ultimately show ?thesis using assms(1)
    unfolding books_def by (auto simp: put_account_def)
qed

lemma books_getAccount: "books m \<Longrightarrow> books (snd (getAccount t m))"
  by (cases rule: getAccount_cases [of m t])
     (auto intro: books_put_account simp: account0_def no_account_sums)

lemma books_SetBudget: "books m \<Longrightarrow> books (SetBudget t newLimit m)"
  unfolding SetBudget_def Let_def
  by (rule books_put_account)
     (auto split: option.splits simp: books_account no_account_sums account0_def)

text \<open>
  Settling a hold: a reservation leaves the state RESERVED and its account gives the amount
  back, taking over the actual cost if it was reconciled. \<open>Release\<close>, \<open>Reconcile\<close> and
  \<open>ExpireStale\<close> are instances.
\<close>

definition settle :: "Reservation \<Rightarrow> ResState \<Rightarrow> micros \<Rightarrow> Manager \<Rightarrow> Manager" where
  "settle r st cost m =
     put_reservation (r\<lparr>ActualCost := (if st = StateReconciled then cost else ActualCost r),
                        IsReconciled := (if st = StateReconciled then True else IsReconciled r), ResStatus := st\<rparr>)
       (put_account (ResTenant r)
         ((the (accounts m (ResTenant r)))\<lparr>reserved := reserved (the (accounts m (ResTenant r))) - ResAmount r,
            settled := settled (the (accounts m (ResTenant r))) + (if st = StateReconciled then cost else 0)\<rparr>) m)"

lemma release_apply_settle:
  assumes "books m" and "reservations m k = Some r"
  shows "release_apply r m = (if ResStatus r = StateReserved then settle r StateReleased 0 m else m)"
  using books_entry(1,4) [OF assms] by (auto simp: release_apply_def settle_def getAccount_def)

lemma expire_apply_settle:
  assumes "books m" and "reservations m k = Some r"
  shows "expire_apply k m = (if ResStatus r = StateReserved then settle r StateExpired 0 m else m)"
  using books_entry(1,4) [OF assms] assms(2) by (auto simp: expire_apply_def settle_def getAccount_def)

lemma reconcile_apply_settle:
  assumes "books m" and "reservations m k = Some r"
  shows "reconcile_apply r c m =
    (if ResStatus r = StateReserved then (Inr (computeReconcileResult (ResAmount r) c), settle r StateReconciled c m)
     else if ResStatus r = StateReconciled then (Inr (computeReconcileResult (ResAmount r) (ActualCost r)), m)
     else (Inl ErrTerminalState, m))"
  using books_entry [OF assms] by (auto simp: reconcile_apply_def settle_def getAccount_def)

lemma settle_sel [simp]:
  "idCounter (settle r st c m) = idCounter m"
  "reservations (settle r st c m) = (reservations m)(ResID r \<mapsto>
     r\<lparr>ActualCost := (if st = StateReconciled then c else ActualCost r),
       IsReconciled := (if st = StateReconciled then True else IsReconciled r), ResStatus := st\<rparr>)"
  by (simp_all add: settle_def put_reservation_def put_account_def)

lemma books_settle:
  assumes "books m" and "reservations m k = Some r" and "ResStatus r = StateReserved" and "st \<noteq> StateReserved"
  shows "books (settle r st c m)"
proof -
  note e = books_entry [OF assms(1,2)]
  then obtain acc where acc: "accounts m (ResTenant r) = Some acc" by blast
  let ?r = "r\<lparr>ActualCost := (if st = StateReconciled then c else ActualCost r),
       IsReconciled := (if st = StateReconciled then True else IsReconciled r), ResStatus := st\<rparr>"
  have h: "held t (settle r st c m) = held t m - (if ResTenant r = t then ResAmount r else 0)" for t
    using entries_sum_update [OF books_finite [OF assms(1)] assms(2), of "holds_for t" ResAmount ?r] assms(3,4) e(1)
    by (simp add: held_def holds_for_def)
  have s: "spent t (settle r st c m) = spent t m + (if ResTenant r = t \<and> st = StateReconciled then c else 0)" for t
    using entries_sum_update [OF books_finite [OF assms(1)] assms(2), of "spends_for t" ActualCost ?r] assms(3) e(1,2)
    by (simp add: spent_def spends_for_def)
  have a: "accounts (settle r st c m) = (accounts m)(ResTenant r \<mapsto>
      acc\<lparr>reserved := reserved acc - ResAmount r, settled := settled acc + (if st = StateReconciled then c else 0)\<rparr>)"
    by (simp add: settle_def put_reservation_def put_account_def acc)
  have "reserved b = held t (settle r st c m) \<and> settled b = spent t (settle r st c m)"
    if b: "accounts (settle r st c m) t = Some b" for t b
  proof (cases "t = ResTenant r")
    case True
    with b have "b = acc\<lparr>reserved := reserved acc - ResAmount r,
        settled := settled acc + (if st = StateReconciled then c else 0)\<rparr>" by (simp add: a)
    with True books_account [OF assms(1) acc] show ?thesis by (simp add: h s)
  next
    case False
    with b have "accounts m t = Some b" by (simp add: a)
    with False books_account [OF assms(1)] show ?thesis by (simp add: h s)
  qed
  moreover have "ResID x = j \<and> accounts (settle r st c m) (ResTenant x) \<noteq> None
      \<and> numbered (idCounter (settle r st c m)) j \<and> (IsReconciled x \<longleftrightarrow> ResStatus x = StateReconciled)"
    if x: "reservations (settle r st c m) j = Some x" for j x
  proof (cases "j = k")
    case True
    with x e assms(3,4) show ?thesis by (auto simp: a split: if_splits)
  next
    case False
    with x e(1) have "reservations m j = Some x" by (auto split: if_splits)
    from books_entry [OF assms(1) this] show ?thesis by (auto simp: a)
  qed
  moreover have "finite (dom (reservations (settle r st c m)))"
    using books_finite [OF assms(1)] by simp
  ultimately show ?thesis unfolding books_def by blast
qed

lemma books_Release: "books m \<Longrightarrow> books (snd (Release k m))"
  by (auto simp: Release_def release_apply_settle books_settle split: option.splits)

lemma books_Reconcile: "books m \<Longrightarrow> books (snd (Reconcile k c m))"
  by (auto simp: Reconcile_def reconcile_apply_settle books_settle split: option.splits)

lemma books_expire_apply: "books m \<Longrightarrow> books (expire_apply k m)"
  by (cases "reservations m k") (auto simp: expire_apply_settle books_settle, simp add: expire_apply_def)

lemma books_fold_expire: "books m \<Longrightarrow> books (fold expire_apply ks m)"
  by (induction ks arbitrary: m) (auto simp: books_expire_apply)

lemma books_ExpireStale: "books m \<Longrightarrow> books (snd (ExpireStale now order m))"
  by (simp add: ExpireStale_def Let_def books_fold_expire)

text \<open>Granting a hold: the successful path of \<open>Reserve\<close>.\<close>

definition grant :: "string \<Rightarrow> string \<Rightarrow> micros \<Rightarrow> time \<Rightarrow> duration \<Rightarrow> Manager \<Rightarrow> Manager" where
  "grant rid t amount now ttl m =
     put_reservation (new_reservation rid t amount now ttl)
       ((put_account t ((the (accounts m t))\<lparr>reserved := reserved (the (accounts m t)) + amount\<rparr>) m)
          \<lparr>idCounter := idCounter m + 1\<rparr>)"

lemma getAccount_present: "accounts (snd (getAccount t m)) t = Some (fst (getAccount t m))"
  by (cases rule: getAccount_cases [of m t]) (simp_all add: put_account_def)

lemma getAccount_sel [simp]:
  "reservations (snd (getAccount t m)) = reservations m" "idCounter (snd (getAccount t m)) = idCounter m"
  by (cases rule: getAccount_cases [of m t]; simp add: put_account_def)+

lemma Reserve_eq:
  "Reserve clk t amount ttl m =
     (let (acc, m1) = getAccount t m; rid = fst (nextID (clk 1) m)
      in if available acc <s amount then (Inl ErrInsufficientBudget, m1)
         else (Inr (new_reservation rid t amount (clk 0) ttl), grant rid t amount (clk 0) ttl m1))"
  using getAccount_present [of t m] getAccount_sel [of t m]
  by (cases "getAccount t m")
     (simp add: Reserve_def reserve_commit_def grant_def nextID_def put_account_def Let_def)

lemma grant_sel [simp]:
  "idCounter (grant rid t a now ttl m) = idCounter m + 1"
  "reservations (grant rid t a now ttl m) = (reservations m)(rid \<mapsto> new_reservation rid t a now ttl)"
  by (simp_all add: grant_def put_reservation_def put_account_def new_reservation_def)

lemma fresh_id:
  assumes "books m" and "unat (idCounter m) < 2 ^ 64 - 1"
  shows "reservations m (fst (nextID now m)) = None"
  using nextID_fresh(1) [OF assms(2), of now] books_entry(3) [OF assms(1)] by fastforce

lemma books_grant:
  assumes "books m" and acc: "accounts m t = Some acc" and cnt: "unat (idCounter m) < 2 ^ 64 - 1"
  shows "books (grant (fst (nextID now m)) t a u ttl m)"
proof -
  let ?rid = "fst (nextID now m)"
  let ?r = "new_reservation ?rid t a u ttl"
  let ?m = "grant ?rid t a u ttl m"
  note fresh = fresh_id [OF assms(1) cnt, of now]
  have h: "held v ?m = held v m + (if v = t then a else 0)" for v
    using entries_sum_insert [OF books_finite [OF assms(1)] fresh, of "holds_for v" ResAmount ?r]
    by (auto simp: held_def holds_for_def new_reservation_def)
  have s: "spent v ?m = spent v m" for v
    using entries_sum_insert [OF books_finite [OF assms(1)] fresh, of "spends_for v" ActualCost ?r]
    by (simp add: spent_def spends_for_def new_reservation_def)
  have a: "accounts ?m = (accounts m)(t \<mapsto> acc\<lparr>reserved := reserved acc + a\<rparr>)"
    by (simp add: grant_def put_reservation_def put_account_def acc)
  have "reserved b = held v ?m \<and> settled b = spent v ?m" if b: "accounts ?m v = Some b" for v b
    using b books_account [OF assms(1) acc] books_account [OF assms(1), of v b]
    by (cases "v = t") (auto simp: a h s)
  moreover have "ResID x = j \<and> accounts ?m (ResTenant x) \<noteq> None \<and> numbered (idCounter ?m) j
      \<and> (IsReconciled x \<longleftrightarrow> ResStatus x = StateReconciled)"
    if x: "reservations ?m j = Some x" for j x
  proof (cases "j = ?rid")
    case True
    with x nextID_fresh(2) [OF cnt, of now] show ?thesis by (auto simp: a new_reservation_def)
  next
    case False
    with x have "reservations m j = Some x" by simp
    from books_entry [OF assms(1) this] show ?thesis
      using numbered_mono [of "idCounter m" j] unat_succ [OF cnt] by (auto simp: a)
  qed
  moreover have "finite (dom (reservations ?m))" using books_finite [OF assms(1)] by simp
  ultimately show ?thesis unfolding books_def by blast
qed

lemma books_Reserve:
  assumes "books m" and "unat (idCounter m) < 2 ^ 64 - 1"
  shows "books (snd (Reserve clk t amount ttl m))"
proof -
  obtain acc m1 where g: "getAccount t m = (acc, m1)" by fastforce
  have m1: "books m1" "accounts m1 t = Some acc" "idCounter m1 = idCounter m"
    using books_getAccount [OF assms(1), of t] getAccount_present [of t m] getAccount_sel [of t m] g by simp_all
  then have "fst (nextID (clk 1) m) = fst (nextID (clk 1) m1)" by (simp add: nextID_def Let_def)
  with books_grant [OF m1(1,2), of "clk 1" amount "clk 0" ttl] m1 assms(2) show ?thesis
    by (simp add: Reserve_eq g Let_def)
qed

section \<open>Runs of the manager\<close>

datatype ManagerOp =
    OpSetBudget string micros
  | OpExposure string
  | OpReserve clock string micros duration
  | OpRelease string
  | OpReconcile string micros
  | OpExpireStale time "string list"

fun manager_op :: "ManagerOp \<Rightarrow> Manager \<Rightarrow> Manager" where
  "manager_op (OpSetBudget t l) m = SetBudget t l m"
| "manager_op (OpExposure t) m = snd (Exposure_of t m)"
| "manager_op (OpReserve clk t a ttl) m = snd (Reserve clk t a ttl m)"
| "manager_op (OpRelease k) m = snd (Release k m)"
| "manager_op (OpReconcile k c) m = snd (Reconcile k c m)"
| "manager_op (OpExpireStale now order) m = snd (ExpireStale now order m)"

text \<open>
  The reachable managers: any operations in any order; the identifier counter has to have a
  next value when a reservation is made.
\<close>

inductive manager_reach :: "Manager \<Rightarrow> bool" where
  reach_new: "manager_reach NewManager"
| reach_op: "manager_reach m \<Longrightarrow> unat (idCounter m) < 2 ^ 64 - 1 \<Longrightarrow> manager_reach (manager_op oper m)"

lemma books_NewManager: "books NewManager"
  by (simp add: books_def NewManager_def)

lemma Exposure_snd [simp]: "snd (Exposure_of t m) = snd (getAccount t m)"
  by (simp add: Exposure_of_def Let_def split: prod.splits)

lemma books_manager_op: "books m \<Longrightarrow> unat (idCounter m) < 2 ^ 64 - 1 \<Longrightarrow> books (manager_op oper m)"
  by (cases oper)
     (simp_all add: books_SetBudget books_getAccount books_Reserve books_Release books_Reconcile books_ExpireStale)

lemma reach_books: "manager_reach m \<Longrightarrow> books m"
  by (induction rule: manager_reach.induct) (auto intro: books_NewManager books_manager_op)

end
