(* ===== verification/Solvency.thy ===== *)
theory Solvency
  imports Reservation
begin

text \<open>
  What the reservation manager guarantees over whole runs: the solvency invariant (committed
  money within the limit), the life cycle of a reservation, idempotence of settlement, expiry,
  and the refinement of an abstract budget specification on unbounded integers.
\<close>

section \<open>Solvency: the limit is never exceeded\<close>

text \<open>
  With non-negative holds and costs the counters are exact integers and the committed total
  stays within the limit. \<open>fair\<close> states what the operations need for that: reservations of
  non-negative amounts, reconciliation at no more than the reserved amount, and a budget that
  is not set below what is already committed.
\<close>

definition int_held :: "string \<Rightarrow> Manager \<Rightarrow> int" where
  "int_held t m = entries_sum (holds_for t) (\<lambda>r. sint (ResAmount r)) (reservations m)"

definition within_limit :: "account \<Rightarrow> bool" where
  "within_limit a \<longleftrightarrow> 0 \<le> sint (reserved a) \<and> 0 \<le> sint (settled a) \<and>
     sint (reserved a) + sint (settled a) \<le> sint (limit a)"

definition nonneg_holds :: "Manager \<Rightarrow> bool" where
  "nonneg_holds m \<longleftrightarrow>
     (\<forall>k r. reservations m k = Some r \<and> ResStatus r = StateReserved \<longrightarrow> 0 \<le> sint (ResAmount r))"

fun fair :: "ManagerOp \<Rightarrow> Manager \<Rightarrow> bool" where
  "fair (OpSetBudget t l) m =
     (case accounts m t of
        None \<Rightarrow> 0 \<le> sint l
      | Some a \<Rightarrow> sint (reserved a) + sint (settled a) \<le> sint l)"
| "fair (OpReserve clk t a ttl) m = (0 \<le> sint a \<and> unat (idCounter m) < 2 ^ 64 - 1)"
| "fair (OpReconcile k c) m =
     (case reservations m k of
        None \<Rightarrow> True
      | Some r \<Rightarrow> 0 \<le> sint c \<and> sint c \<le> sint (ResAmount r))"
| "fair _ m = True"

lemma available_exact: "within_limit a \<Longrightarrow> sint (available a) = sint (limit a) - sint (reserved a) - sint (settled a)"
proof -
  assume w: "within_limit a"
  then have "sint (limit a - reserved a) = sint (limit a) - sint (reserved a)"
    using sint_less_int64 [of "limit a"] by (intro sint_diff_int64) (auto simp: within_limit_def in_int64_def)
  with w show ?thesis
    unfolding available_def using sint_less_int64 [of "limit a"]
    by (subst sint_diff_int64) (auto simp: within_limit_def in_int64_def)
qed

lemma int_held_put_account [simp]: "int_held u (put_account t a m) = int_held u m"
  by (simp add: int_held_def put_account_def)

definition acc_of :: "Manager \<Rightarrow> string \<Rightarrow> account" where
  "acc_of m t = (case accounts m t of None \<Rightarrow> account0 | Some a \<Rightarrow> a)"

lemma acc_of_getAccount [simp]: "fst (getAccount t m) = acc_of m t" "acc_of (snd (getAccount t m)) u = acc_of m u"
  by (cases rule: getAccount_cases [of m t]; auto simp: acc_of_def put_account_def)+

lemma case_getAccount [simp]:
  "(case getAccount t m of (a, m') \<Rightarrow> f a m') = f (acc_of m t) (snd (getAccount t m))"
  by (simp add: case_prod_unfold)

lemma accounts_settle:
  assumes "accounts m (ResTenant r) = Some acc"
  shows "accounts (settle r st c m) = (accounts m)(ResTenant r \<mapsto>
      acc\<lparr>reserved := reserved acc - ResAmount r, settled := settled acc + (if st = StateReconciled then c else 0)\<rparr>)"
  by (simp add: settle_def put_reservation_def put_account_def assms)

text \<open>
  \<open>sound e m\<close> is the solvency of a manager with \<open>e t\<close> micros of the tenant in flight: reserved
  in the account by a caller that has not published its reservation yet. Between operations of a
  single caller nothing is in flight.
\<close>

definition sound :: "(string \<Rightarrow> int) \<Rightarrow> Manager \<Rightarrow> bool" where
  "sound e m \<longleftrightarrow> finite (dom (reservations m)) \<and> nonneg_holds m \<and>
     (\<forall>k r. reservations m k = Some r \<longrightarrow> ResID r = k \<and> accounts m (ResTenant r) \<noteq> None) \<and>
     (\<forall>t. 0 \<le> e t \<and> (accounts m t = None \<longrightarrow> e t = 0)) \<and>
     (\<forall>t acc. accounts m t = Some acc \<longrightarrow> sint (reserved acc) = int_held t m + e t \<and> within_limit acc)"

lemma sound_account: "sound e m \<Longrightarrow> accounts m t = Some acc \<Longrightarrow> sint (reserved acc) = int_held t m + e t \<and> within_limit acc"
  by (simp add: sound_def)

lemma sound_entry:
  "sound e m \<Longrightarrow> reservations m k = Some r \<Longrightarrow> ResID r = k \<and> (\<exists>acc. accounts m (ResTenant r) = Some acc)"
  by (auto simp: sound_def)

lemma sound_put_account:
  assumes "sound e m" and "\<And>u. u \<noteq> t \<Longrightarrow> e' u = e u" and "0 \<le> e' t"
    and "sint (reserved a) = int_held t m + e' t" and "within_limit a"
  shows "sound e' (put_account t a m)"
  using assms by (auto simp: sound_def nonneg_holds_def int_held_def put_account_def)

lemma sound_no_account: "sound e m \<Longrightarrow> accounts m t = None \<Longrightarrow> int_held t m = 0 \<and> e t = 0"
proof -
  assume s: "sound e m" and n: "accounts m t = None"
  have "ResTenant r \<noteq> t" if "reservations m k = Some r" for k r
    using sound_entry [OF s that] n by auto
  then have "int_held t m = 0"
    unfolding int_held_def by (intro entries_sum_none) (auto simp: holds_for_def)
  moreover have "e t = 0" using s n by (simp add: sound_def)
  ultimately show ?thesis by simp
qed

lemma sound_acc_of:
  assumes "sound e m"
  shows "sint (reserved (acc_of m t)) = int_held t m + e t \<and> within_limit (acc_of m t)"
  using sound_account [OF assms, of t] sound_no_account [OF assms, of t]
  by (cases "accounts m t") (auto simp: acc_of_def account0_def within_limit_def)

lemma sound_e_nonneg: "sound e m \<Longrightarrow> 0 \<le> e t"
  by (simp add: sound_def)

lemma sound_getAccount: "sound e m \<Longrightarrow> sound e (snd (getAccount t m))"
proof (cases rule: getAccount_cases [of m t])
  case absent
  assume s: "sound e m"
  with absent sound_acc_of [OF s, of t] show ?thesis
    by (auto intro!: sound_put_account [OF s] sound_e_nonneg [OF s] simp: acc_of_def)
qed simp

lemma sound_SetBudget:
  assumes "sound e m" and "fair (OpSetBudget t l) m"
  shows "sound e (SetBudget t l m)"
proof -
  have "sound e (put_account t ((acc_of m t)\<lparr>limit := l\<rparr>) m)"
    using sound_acc_of [OF assms(1), of t] assms(2)
    by (intro sound_put_account [OF assms(1)] sound_e_nonneg [OF assms(1)])
       (auto simp: within_limit_def acc_of_def account0_def split: option.splits)
  then show ?thesis by (simp add: SetBudget_def acc_of_def Let_def split: option.splits)
qed

text \<open>The commit of \<open>Reserve\<close> puts the amount in flight.\<close>

lemma sound_commit:
  assumes s: "sound e m" and a: "0 \<le> sint a" and c: "reserve_commit t a m = (ok, m')"
  shows "sound (if ok then e(t := e t + sint a) else e) m'"
proof (cases "available (acc_of m t) <s a")
  case True
  with c sound_getAccount [OF s] show ?thesis by (auto simp: reserve_commit_def)
next
  case False
  let ?acc = "(acc_of m t)\<lparr>reserved := reserved (acc_of m t) + a\<rparr>"
  note i = sound_acc_of [OF s, of t]
  have le: "sint (reserved (acc_of m t)) + sint (settled (acc_of m t)) + sint a \<le> sint (limit (acc_of m t))"
    using False available_exact [of "acc_of m t"] i by (simp add: go_simps)
  have sr: "sint (reserved (acc_of m t) + a) = sint (reserved (acc_of m t)) + sint a"
    using le i a sint_less_int64 [of "limit (acc_of m t)"]
    by (intro sint_add_int64) (auto simp: within_limit_def in_int64_def)
  have "int_held t (snd (getAccount t m)) = int_held t m" by (simp add: int_held_def)
  with i le a sr sound_e_nonneg [OF s, of t] have "sound (e(t := e t + sint a)) (put_account t ?acc (snd (getAccount t m)))"
    by (intro sound_put_account [OF sound_getAccount [OF s]]) (auto simp: within_limit_def)
  with False c show ?thesis by (auto simp: reserve_commit_def)
qed

text \<open>Publishing takes it out of flight.\<close>

lemma sound_publish:
  assumes s: "sound e m" and fresh: "reservations m (ResID r) = None" and acc: "accounts m (ResTenant r) \<noteq> None"
    and st: "ResStatus r = StateReserved" and a: "0 \<le> sint (ResAmount r)" "sint (ResAmount r) \<le> e (ResTenant r)"
  shows "sound (e(ResTenant r := e (ResTenant r) - sint (ResAmount r))) (put_reservation r m)"
proof -
  have fin: "finite (dom (reservations m))" using s by (simp add: sound_def)
  have ih: "int_held t (put_reservation r m) = (if ResTenant r = t then sint (ResAmount r) else 0) + int_held t m" for t
    using entries_sum_insert [OF fin fresh, of "holds_for t" "\<lambda>r. sint (ResAmount r)" r] st
    by (simp add: int_held_def put_reservation_def holds_for_def)
  have "nonneg_holds (put_reservation r m)"
    using s a(1) by (auto simp: sound_def nonneg_holds_def put_reservation_def)
  moreover have "ResID q = k \<and> accounts m (ResTenant q) \<noteq> None"
    if "reservations (put_reservation r m) k = Some q" for k q
    using that sound_entry [OF s, of k q] acc by (auto simp: put_reservation_def split: if_splits)
  moreover have "sint (reserved b) = int_held t (put_reservation r m)
      + (e(ResTenant r := e (ResTenant r) - sint (ResAmount r))) t \<and> within_limit b"
    if "accounts m t = Some b" for t b
    using sound_account [OF s that] by (auto simp: ih)
  moreover have "0 \<le> (e(ResTenant r := e (ResTenant r) - sint (ResAmount r))) t" for t
    using a(2) sound_e_nonneg [OF s, of t] by simp
  moreover have "(e(ResTenant r := e (ResTenant r) - sint (ResAmount r))) t = 0" if "accounts m t = None" for t
    using that acc s by (auto simp: sound_def)
  moreover have "accounts (put_reservation r m) = accounts m" "finite (dom (reservations (put_reservation r m)))"
    using fin by (simp_all add: put_reservation_def)
  ultimately show ?thesis
    unfolding sound_def by presburger
qed

lemma sound_hold_le:
  assumes s: "sound e m" and "reservations m k = Some r" "ResStatus r = StateReserved" "accounts m (ResTenant r) = Some acc"
  shows "0 \<le> sint (ResAmount r)" "sint (ResAmount r) \<le> sint (reserved acc)"
proof -
  have nn: "nonneg_holds m" and fin: "finite (dom (reservations m))" using s by (auto simp: sound_def)
  show "0 \<le> sint (ResAmount r)" using nn assms(2,3) by (auto simp: nonneg_holds_def)
  have "sint (ResAmount r) \<le> int_held (ResTenant r) m"
    using entries_sum_member_le [OF fin assms(2), of "holds_for (ResTenant r)" "\<lambda>r. sint (ResAmount r)"]
      assms(3) nn by (force simp: int_held_def holds_for_def nonneg_holds_def)
  then show "sint (ResAmount r) \<le> sint (reserved acc)"
    using sound_account [OF s assms(4)] sound_e_nonneg [OF s, of "ResTenant r"] by simp
qed

lemma sound_settle:
  assumes s: "sound e m" and r: "reservations m k = Some r" "ResStatus r = StateReserved" and st: "st \<noteq> StateReserved"
    and c: "st = StateReconciled \<Longrightarrow> 0 \<le> sint c \<and> sint c \<le> sint (ResAmount r)"
  shows "sound e (settle r st c m)"
proof -
  have idr: "ResID r = k" using sound_entry [OF s r(1)] by simp
  obtain acc where acc: "accounts m (ResTenant r) = Some acc" using sound_entry [OF s r(1)] by blast
  let ?acc = "acc\<lparr>reserved := reserved acc - ResAmount r, settled := settled acc + (if st = StateReconciled then c else 0)\<rparr>"
  note le = sound_hold_le [OF s r acc] and i = sound_account [OF s acc]
  have fin: "finite (dom (reservations m))" using s by (simp add: sound_def)
  have ih: "int_held t (settle r st c m) = int_held t m - (if ResTenant r = t then sint (ResAmount r) else 0)" for t
    using entries_sum_update [OF fin r(1), of "holds_for t" "\<lambda>r. sint (ResAmount r)"] r(2) st idr
    by (simp add: int_held_def holds_for_def)
  have sr: "sint (reserved acc - ResAmount r) = sint (reserved acc) - sint (ResAmount r)"
    using le sint_less_int64 [of "reserved acc"] by (intro sint_diff_int64) (auto simp: in_int64_def)
  have ss: "sint (settled acc + (if st = StateReconciled then c else 0))
      = sint (settled acc) + (if st = StateReconciled then sint c else 0)"
    using le i c sint_less_int64 [of "limit acc"]
    by (auto intro!: sint_add_int64 simp: within_limit_def in_int64_def)
  have "nonneg_holds m" using s by (simp add: sound_def)
  then have "nonneg_holds (settle r st c m)"
    using st by (auto simp: nonneg_holds_def split: if_splits)
  moreover have "ResID q = j \<and> accounts (settle r st c m) (ResTenant q) \<noteq> None"
    if "reservations (settle r st c m) j = Some q" for j q
    using that sound_entry [OF s, of j q] idr by (auto simp: accounts_settle [OF acc] split: if_splits)
  moreover have "within_limit ?acc \<and> sint (reserved ?acc) = int_held (ResTenant r) (settle r st c m) + e (ResTenant r)"
    using i le c by (auto simp: within_limit_def sr ss ih)
  then have "sint (reserved b) = int_held t (settle r st c m) + e t \<and> within_limit b"
    if "accounts (settle r st c m) t = Some b" for t b
    using that sound_account [OF s, of t b] by (auto simp: accounts_settle [OF acc] ih split: if_splits)
  moreover have "0 \<le> e t \<and> (accounts (settle r st c m) t = None \<longrightarrow> e t = 0)" for t
    using sound_e_nonneg [OF s, of t] sound_no_account [OF s, of t] by (auto simp: accounts_settle [OF acc])
  moreover have "finite (dom (reservations (settle r st c m)))" using fin by simp
  ultimately show ?thesis
    unfolding sound_def by blast
qed
definition solvent :: "Manager \<Rightarrow> bool" where
  "solvent m \<longleftrightarrow> books m \<and> sound (\<lambda>t. 0) m"

lemma solvent_books: "solvent m \<Longrightarrow> books m"
  and solvent_sound: "solvent m \<Longrightarrow> sound (\<lambda>t. 0) m"
  by (simp_all add: solvent_def)

lemma solvent_getAccount: "solvent m \<Longrightarrow> solvent (snd (getAccount t m))"
  by (simp add: solvent_def books_getAccount sound_getAccount)

lemma solvent_SetBudget: "solvent m \<Longrightarrow> fair (OpSetBudget t l) m \<Longrightarrow> solvent (SetBudget t l m)"
  using sound_SetBudget by (auto simp: solvent_def books_SetBudget)

lemma solvent_settle:
  assumes "solvent m" and r: "reservations m k = Some r" "ResStatus r = StateReserved" and st: "st \<noteq> StateReserved"
    and c: "st = StateReconciled \<Longrightarrow> 0 \<le> sint c \<and> sint c \<le> sint (ResAmount r)"
  shows "solvent (settle r st c m)"
  using books_settle [OF solvent_books [OF assms(1)] r st] sound_settle [OF solvent_sound [OF assms(1)] r st c]
  by (simp add: solvent_def)

lemma reserve_commit_sel:
  assumes "reserve_commit t a m = (ok, m')"
  shows "reservations m' = reservations m" and "idCounter m' = idCounter m" and "accounts m' t \<noteq> None"
  using assms getAccount_present [of t m] by (auto simp: reserve_commit_def put_account_def split: if_splits)

lemma sound_idCounter [simp]: "sound e (m\<lparr>idCounter := n\<rparr>) = sound e m"
  by (simp add: sound_def nonneg_holds_def int_held_def)

lemma solvent_Reserve:
  assumes "solvent m" and "0 \<le> sint amount" and "unat (idCounter m) < 2 ^ 64 - 1"
  shows "solvent (snd (Reserve clk t amount ttl m))"
proof -
  obtain ok m1 where c: "reserve_commit t amount m = (ok, m1)" by fastforce
  have s1: "sound (if ok then (\<lambda>u. 0)(t := sint amount) else (\<lambda>u. 0)) m1"
    using sound_commit [OF solvent_sound [OF assms(1)] assms(2) c] by (cases ok) simp_all
  note sel = reserve_commit_sel [OF c]
  let ?r = "new_reservation (fst (nextID (clk 1) m1)) t amount (clk 0) ttl"
  have fresh: "reservations m1 (ResID ?r) = None"
    using fresh_id [OF solvent_books [OF assms(1)] assms(3), of "clk 1"] sel
    by (simp add: new_reservation_def nextID_def Let_def)
  have "sound (\<lambda>u. 0) (put_reservation ?r (m1\<lparr>idCounter := idCounter m1 + 1\<rparr>))" if ok
    using sound_publish [of "(\<lambda>u. 0)(t := sint amount)" "m1\<lparr>idCounter := idCounter m1 + 1\<rparr>" ?r] that s1 fresh sel assms(2)
    by (simp add: new_reservation_def fun_upd_idem)
  with s1 c books_Reserve [OF solvent_books [OF assms(1)] assms(3), of clk t amount ttl] show ?thesis
    by (auto simp: solvent_def Reserve_def nextID_def Let_def split: if_splits)
qed

lemma solvent_expire: "solvent m \<Longrightarrow> solvent (expire_apply k m)"
  by (cases "reservations m k")
     (auto simp: expire_apply_settle solvent_books intro: solvent_settle, simp add: expire_apply_def)

lemma solvent_fold_expire: "solvent m \<Longrightarrow> solvent (fold expire_apply ks m)"
  by (induction ks arbitrary: m) (auto simp: solvent_expire)

lemma solvent_manager_op:
  assumes "solvent m" and "fair oper m"
  shows "solvent (manager_op oper m)"
proof (cases oper)
  case (OpRelease k)
  then show ?thesis using assms(1)
    by (auto simp: Release_def release_apply_settle solvent_books intro: solvent_settle split: option.splits)
next
  case (OpReconcile k c)
  then show ?thesis using assms
    by (auto simp: Reconcile_def reconcile_apply_settle solvent_books intro: solvent_settle split: option.splits)
next
  case (OpSetBudget t l)
  then show ?thesis using assms solvent_SetBudget by simp
next
  case (OpExposure t)
  then show ?thesis using assms by (simp add: solvent_getAccount)
next
  case (OpReserve clk t a ttl)
  then show ?thesis using assms by (simp add: solvent_Reserve)
next
  case (OpExpireStale now order)
  then show ?thesis using assms by (simp add: ExpireStale_def Let_def solvent_fold_expire)
qed

lemma solvent_New: "solvent NewManager"
  by (simp add: solvent_def books_NewManager sound_def nonneg_holds_def) (simp add: NewManager_def)

inductive fair_reach :: "Manager \<Rightarrow> bool" where
  fair_new: "fair_reach NewManager"
| fair_op: "fair_reach m \<Longrightarrow> fair oper m \<Longrightarrow> fair_reach (manager_op oper m)"

lemma fair_solvent: "fair_reach m \<Longrightarrow> solvent m"
  by (induction rule: fair_reach.induct) (auto intro: solvent_New solvent_manager_op)

section \<open>An abstract budget\<close>

text \<open>
  The specification on unbounded integers: a limit per tenant, the outstanding holds by
  identifier, and the money spent. A hold is granted exactly when it fits.
\<close>

record Budget =
  aLimit :: "string \<Rightarrow> int"
  aHolds :: "string \<rightharpoonup> string \<times> int"
  aSpent :: "string \<Rightarrow> int"

definition committed :: "Budget \<Rightarrow> string \<Rightarrow> int" where
  "committed b t = entries_sum (\<lambda>(u, a). u = t) snd (aHolds b) + aSpent b t"

definition a_set_limit :: "string \<Rightarrow> int \<Rightarrow> Budget \<Rightarrow> Budget" where
  "a_set_limit t l b = b\<lparr>aLimit := (aLimit b)(t := l)\<rparr>"

definition a_reserve :: "string \<Rightarrow> string \<Rightarrow> int \<Rightarrow> Budget \<Rightarrow> Budget option" where
  "a_reserve k t a b =
     (if committed b t + a \<le> aLimit b t then Some (b\<lparr>aHolds := (aHolds b)(k \<mapsto> (t, a))\<rparr>) else None)"

definition a_free :: "string \<Rightarrow> Budget \<Rightarrow> Budget" where
  "a_free k b = b\<lparr>aHolds := (aHolds b)(k := None)\<rparr>"

definition a_settle :: "string \<Rightarrow> int \<Rightarrow> Budget \<Rightarrow> Budget" where
  "a_settle k c b =
     (case aHolds b k of
        None \<Rightarrow> b
      | Some (t, a) \<Rightarrow> b\<lparr>aHolds := (aHolds b)(k := None), aSpent := (aSpent b)(t := aSpent b t + c)\<rparr>)"

definition hold_of :: "Reservation \<Rightarrow> (string \<times> int) option" where
  "hold_of r = (if ResStatus r = StateReserved then Some (ResTenant r, sint (ResAmount r)) else None)"

definition view :: "Manager \<Rightarrow> Budget" where
  "view m = \<lparr>aLimit = (\<lambda>t. sint (limit (acc_of m t))),
             aHolds = (\<lambda>k. Option.bind (reservations m k) hold_of),
             aSpent = (\<lambda>t. sint (settled (acc_of m t)))\<rparr>"

lemma view_sel [simp]:
  "aLimit (view m) t = sint (limit (acc_of m t))" "aSpent (view m) t = sint (settled (acc_of m t))"
  "aHolds (view m) k = Option.bind (reservations m k) hold_of"
  by (simp_all add: view_def)

lemma view_getAccount [simp]: "view (snd (getAccount t m)) = view m"
  by (simp add: view_def)

lemma solvent_acc_of: "solvent m \<Longrightarrow> within_limit (acc_of m t) \<and> sint (reserved (acc_of m t)) = int_held t m"
  using sound_acc_of [OF solvent_sound, of m t] by simp

lemma committed_view:
  assumes "solvent m"
  shows "committed (view m) t = sint (reserved (acc_of m t)) + sint (settled (acc_of m t))"
proof -
  have fin: "finite (dom (reservations m))" using assms by (auto dest: solvent_books books_finite)
  have sub: "dom (aHolds (view m)) \<subseteq> dom (reservations m)" by (auto simp: bind_eq_Some_conv)
  have "entries_sum (\<lambda>(u, a). u = t) snd (aHolds (view m)) = int_held t m"
    unfolding entries_sum_def int_held_def
  proof (intro sum.mono_neutral_cong_left [OF fin sub] ballI)
    fix k assume "k \<in> dom (reservations m) - dom (aHolds (view m))"
    then show "(if holds_for t (the (reservations m k)) then sint (ResAmount (the (reservations m k))) else 0) = 0"
      by (auto simp: hold_of_def holds_for_def domIff split: if_splits)
  next
    fix k assume "k \<in> dom (aHolds (view m))"
    then show "(if (case the (aHolds (view m) k) of (u, a) \<Rightarrow> u = t) then snd (the (aHolds (view m) k)) else 0)
        = (if holds_for t (the (reservations m k)) then sint (ResAmount (the (reservations m k))) else 0)"
      by (auto simp: hold_of_def holds_for_def bind_eq_Some_conv split: if_splits)
  qed
  with solvent_acc_of [OF assms, of t] show ?thesis by (simp add: committed_def)
qed

lemma available_view: "solvent m \<Longrightarrow> sint (available (acc_of m t)) = aLimit (view m) t - committed (view m) t"
  using solvent_acc_of [of m t] available_exact [of "acc_of m t"] committed_view [of m t] by simp

section \<open>Refinement\<close>

lemma view_settle:
  assumes "solvent m" and r: "reservations m k = Some r" "ResStatus r = StateReserved" and st: "st \<noteq> StateReserved"
    and c: "st = StateReconciled \<Longrightarrow> 0 \<le> sint c \<and> sint c \<le> sint (ResAmount r)"
  shows "view (settle r st c m) = (if st = StateReconciled then a_settle k (sint c) (view m) else a_free k (view m))"
proof -
  have b: "books m" using assms(1) by (rule solvent_books)
  note e = books_entry [OF b r(1)]
  then obtain acc where acc: "accounts m (ResTenant r) = Some acc" by blast
  have s': "solvent (settle r st c m)" using assms by (rule solvent_settle)
  have ss: "sint (settled acc + c) = sint (settled acc) + sint c" if "st = StateReconciled"
    using c [OF that] sound_hold_le [OF solvent_sound [OF assms(1)] r acc]
      sound_account [OF solvent_sound [OF assms(1)] acc] sint_less_int64 [of "limit acc"]
    by (intro sint_add_int64) (auto simp: within_limit_def in_int64_def)
  have hk: "aHolds (view m) k = Some (ResTenant r, sint (ResAmount r))" using r by (simp add: hold_of_def)
  have holds: "aHolds (view (settle r st c m)) = (aHolds (view m))(k := None)"
    using e(1) st by (auto simp: hold_of_def)
  have lims: "aLimit (view (settle r st c m)) = aLimit (view m)"
    using acc by (auto simp: acc_of_def accounts_settle [OF acc])
  have spents: "aSpent (view (settle r st c m)) = (if st = StateReconciled
      then (aSpent (view m))(ResTenant r := aSpent (view m) (ResTenant r) + sint c) else aSpent (view m))"
    using acc ss by (auto simp: acc_of_def accounts_settle [OF acc])
  show ?thesis
    using holds lims spents hk by (simp add: a_settle_def a_free_def del: view_sel)
qed

lemma view_Release:
  assumes "solvent m"
  shows "view (snd (Release k m)) = a_free k (view m)"
proof (cases "reservations m k")
  case None
  then show ?thesis by (auto simp: Release_def a_free_def intro!: Budget.equality)
next
  case (Some r)
  show ?thesis
  proof (cases "ResStatus r = StateReserved")
    case True
    with Some assms view_settle [OF assms Some True, of StateReleased 0] show ?thesis
      by (simp add: Release_def release_apply_settle [OF solvent_books])
  next
    case False
    with Some assms show ?thesis
      by (auto simp: Release_def release_apply_settle [OF solvent_books] a_free_def hold_of_def intro!: Budget.equality)
  qed
qed

lemma view_Reconcile:
  assumes "solvent m" and "fair (OpReconcile k c) m"
  shows "view (snd (Reconcile k c m)) = a_settle k (sint c) (view m)"
proof (cases "reservations m k")
  case None
  then show ?thesis by (simp add: Reconcile_def a_settle_def)
next
  case (Some r)
  show ?thesis
  proof (cases "ResStatus r = StateReserved")
    case True
    with Some assms view_settle [OF assms(1) Some True, of StateReconciled c] show ?thesis
      by (simp add: Reconcile_def reconcile_apply_settle [OF solvent_books])
  next
    case False
    with Some assms show ?thesis
      by (auto simp: Reconcile_def reconcile_apply_settle [OF solvent_books] a_settle_def hold_of_def)
  qed
qed

lemma view_expire:
  assumes "solvent m"
  shows "view (expire_apply k m) = a_free k (view m)"
proof (cases "reservations m k")
  case None
  then show ?thesis by (auto simp: expire_apply_def a_free_def intro!: Budget.equality)
next
  case (Some r)
  show ?thesis
  proof (cases "ResStatus r = StateReserved")
    case True
    with Some assms view_settle [OF assms Some True, of StateExpired 0] show ?thesis
      by (simp add: expire_apply_settle [OF solvent_books])
  next
    case False
    with Some assms show ?thesis
      by (auto simp: expire_apply_settle [OF solvent_books] a_free_def hold_of_def intro!: Budget.equality)
  qed
qed

lemma view_fold_expire: "solvent m \<Longrightarrow> view (fold expire_apply ks m) = fold a_free ks (view m)"
  by (induction ks arbitrary: m) (simp_all add: view_expire solvent_expire)

lemma view_SetBudget: "view (SetBudget t l m) = a_set_limit t (sint l) (view m)"
  by (auto simp: SetBudget_def put_account_def a_set_limit_def acc_of_def Let_def
      split: option.splits intro!: Budget.equality)

lemma view_grant:
  assumes "accounts m t = Some acc"
  shows "view (grant rid t a now ttl m) = (view m)\<lparr>aHolds := (aHolds (view m))(rid \<mapsto> (t, sint a))\<rparr>"
proof -
  have ac: "accounts (grant rid t a now ttl m) = (accounts m)(t \<mapsto> acc\<lparr>reserved := reserved acc + a\<rparr>)"
    by (simp add: grant_def put_reservation_def put_account_def assms)
  show ?thesis
    using assms by (auto simp: acc_of_def ac hold_of_def new_reservation_def intro!: Budget.equality)
qed

text \<open>\<open>Reserve\<close> in terms of the account: what it returns and what it leaves.\<close>

lemma Reserve_result:
  "Reserve clk t amount ttl m =
     (if available (acc_of m t) <s amount then (Inl ErrInsufficientBudget, snd (getAccount t m))
      else (Inr (new_reservation (fst (nextID (clk 1) m)) t amount (clk 0) ttl),
            grant (fst (nextID (clk 1) m)) t amount (clk 0) ttl (snd (getAccount t m))))"
  by (simp add: Reserve_eq Let_def)

lemma view_Reserve:
  assumes "solvent m"
  shows "case Reserve clk t amount ttl m of
      (Inl e, m') \<Rightarrow> e = ErrInsufficientBudget \<and> view m' = view m \<and> (\<forall>k. a_reserve k t (sint amount) (view m) = None)
    | (Inr r, m') \<Rightarrow> ResTenant r = t \<and> ResAmount r = amount \<and>
        a_reserve (ResID r) t (sint amount) (view m) = Some (view m')"
proof -
  have "available (acc_of m t) <s amount \<longleftrightarrow> \<not> committed (view m) t + sint amount \<le> aLimit (view m) t"
    using available_view [OF assms, of t] by (simp add: go_simps) linarith
  then show ?thesis
    using view_grant [OF getAccount_present]
    by (simp add: Reserve_result a_reserve_def new_reservation_def)
qed

section \<open>The interface of the budget\<close>

text \<open>
  What a request pipeline relies on: an implementation with an invariant whose operations act
  on the abstract budget as specified. A request takes a hold and then either gives it back or
  settles it; the two lemmas say what is left of the budget then.
\<close>

locale budget_impl =
  fixes inv :: "'m \<Rightarrow> bool" and budget :: "'m \<Rightarrow> Budget"
    and room :: "'m \<Rightarrow> int64 \<Rightarrow> bool"
    and reserve :: "string \<Rightarrow> int64 \<Rightarrow> 'm \<Rightarrow> string option \<times> 'm"
    and release :: "string \<Rightarrow> 'm \<Rightarrow> 'm" and reconcile :: "string \<Rightarrow> int64 \<Rightarrow> 'm \<Rightarrow> 'm"
  assumes inv_reserve: "inv m \<Longrightarrow> room m a \<Longrightarrow> inv (snd (reserve t a m))"
    and reserve_some: "inv m \<Longrightarrow> room m a \<Longrightarrow> reserve t a m = (Some k, m') \<Longrightarrow>
      aHolds (budget m) k = None \<and> a_reserve k t (sint a) (budget m) = Some (budget m')"
    and reserve_none: "inv m \<Longrightarrow> room m a \<Longrightarrow> reserve t a m = (None, m') \<Longrightarrow>
      budget m' = budget m \<and> a_reserve k t (sint a) (budget m) = None"
    and release_free: "inv m \<Longrightarrow> inv (release k m) \<and> budget (release k m) = a_free k (budget m)"
    and reconcile_settle: "inv m \<Longrightarrow> aHolds (budget m) k = Some (t, h) \<Longrightarrow> 0 \<le> sint c \<Longrightarrow> sint c \<le> h \<Longrightarrow>
      inv (reconcile k c m) \<and> budget (reconcile k c m) = a_settle k (sint c) (budget m)"
begin

lemma reserve_then_release:
  assumes "inv m" "room m a" "reserve t a m = (Some k, m')"
  shows "inv (release k m') \<and> budget (release k m') = budget m"
proof -
  have "inv m'" using inv_reserve [OF assms(1,2), of t] assms(3) by simp
  moreover have "budget m' = (budget m)\<lparr>aHolds := (aHolds (budget m))(k \<mapsto> (t, sint a))\<rparr>"
    and "aHolds (budget m) k = None"
    using reserve_some [OF assms] by (auto simp: a_reserve_def split: if_splits)
  ultimately show ?thesis using release_free [of m' k] by (simp add: a_free_def fun_upd_idem)
qed

lemma reserve_then_settle:
  assumes "inv m" "room m a" "reserve t a m = (Some k, m')" "0 \<le> sint c" "sint c \<le> sint a"
  shows "inv (reconcile k c m') \<and>
    budget (reconcile k c m') = (budget m)\<lparr>aSpent := (aSpent (budget m))(t := aSpent (budget m) t + sint c)\<rparr>"
proof -
  have i: "inv m'" using inv_reserve [OF assms(1,2), of t] assms(3) by simp
  have b: "budget m' = (budget m)\<lparr>aHolds := (aHolds (budget m))(k \<mapsto> (t, sint a))\<rparr>"
    and h: "aHolds (budget m) k = None"
    using reserve_some [OF assms(1-3)] by (auto simp: a_reserve_def split: if_splits)
  have "aHolds (budget m') k = Some (t, sint a)" using b by simp
  from reconcile_settle [OF i this assms(4,5)] show ?thesis
    using b h by (simp add: a_settle_def fun_upd_idem)
qed

end

definition can_reserve :: "Manager \<Rightarrow> int64 \<Rightarrow> bool" where
  "can_reserve m a \<longleftrightarrow> 0 \<le> sint a \<and> unat (idCounter m) < 2 ^ 64 - 1"

definition reserve_id :: "clock \<Rightarrow> duration \<Rightarrow> string \<Rightarrow> int64 \<Rightarrow> Manager \<Rightarrow> string option \<times> Manager" where
  "reserve_id clk ttl t a m =
     (case Reserve clk t a ttl m of (Inl _, m') \<Rightarrow> (None, m') | (Inr r, m') \<Rightarrow> (Some (ResID r), m'))"

lemma reserve_id_fresh:
  assumes "solvent m" and "can_reserve m a" and "reserve_id clk ttl t a m = (Some k, m')"
  shows "reservations m k = None"
proof -
  have "k = fst (nextID (clk 1) m)"
    using assms(3) by (auto simp: reserve_id_def Reserve_result new_reservation_def split: if_splits)
  then show ?thesis using assms(1,2) fresh_id by (auto simp: can_reserve_def dest: solvent_books)
qed

lemma snd_reserve_id [simp]: "snd (reserve_id clk ttl t a m) = snd (Reserve clk t a ttl m)"
  by (auto simp: reserve_id_def split: prod.splits sum.splits)

interpretation manager_budget: budget_impl solvent view can_reserve "reserve_id clk ttl"
  "\<lambda>k m. snd (Release k m)" "\<lambda>k c m. snd (Reconcile k c m)" for clk ttl
proof
  fix m a t
  assume i: "solvent m" and r: "can_reserve m a"
  then show "solvent (snd (reserve_id clk ttl t a m))" by (simp add: solvent_Reserve can_reserve_def)
  fix m' k
  {
    assume s: "reserve_id clk ttl t a m = (Some k, m')"
    with view_Reserve [OF i, where clk = clk and t = t and amount = a and ttl = ttl] reserve_id_fresh [OF i r s]
    show "aHolds (view m) k = None \<and> a_reserve k t (sint a) (view m) = Some (view m')"
      by (auto simp: reserve_id_def split: prod.splits sum.splits)
  }
  assume "reserve_id clk ttl t a m = (None, m')"
  with view_Reserve [OF i, where clk = clk and t = t and amount = a and ttl = ttl]
  show "view m' = view m \<and> a_reserve k t (sint a) (view m) = None"
    by (auto simp: reserve_id_def split: prod.splits sum.splits)
next
  fix m k assume "solvent m"
  then show "solvent (snd (Release k m)) \<and> view (snd (Release k m)) = a_free k (view m)"
    using solvent_manager_op [of m "OpRelease k"] view_Release by simp
next
  fix m k t a and c :: int64
  assume i: "solvent m" and h: "aHolds (view m) k = Some (t, a)" and c: "0 \<le> sint c" "sint c \<le> a"
  then have f: "fair (OpReconcile k c) m"
    by (auto simp: hold_of_def bind_eq_Some_conv split: if_splits option.splits)
  show "solvent (snd (Reconcile k c m)) \<and> view (snd (Reconcile k c m)) = a_settle k (sint c) (view m)"
    using solvent_manager_op [OF i f] view_Reconcile [OF i f] by simp
qed

section \<open>The life cycle of a reservation\<close>

definition same_terms :: "Reservation \<Rightarrow> Reservation \<Rightarrow> bool" where
  "same_terms r s \<longleftrightarrow> ResID s = ResID r \<and> ResTenant s = ResTenant r \<and> ResAmount s = ResAmount r \<and>
     CreatedAt s = CreatedAt r \<and> ExpiresAt s = ExpiresAt r \<and> (ResStatus r \<noteq> StateReserved \<longrightarrow> s = r)"

lemma same_terms_refl [simp]: "same_terms r r"
  by (simp add: same_terms_def)

lemma same_terms_trans: "same_terms r s \<Longrightarrow> same_terms s u \<Longrightarrow> same_terms r u"
  by (auto simp: same_terms_def)

lemma settle_keeps:
  assumes "books m" "reservations m j = Some q" "ResStatus q = StateReserved" "reservations m k = Some r"
  shows "\<exists>s. reservations (settle q st c m) k = Some s \<and> same_terms r s"
  using books_entry(1) [OF assms(1,2)] assms by (auto simp: same_terms_def)

lemma expire_keeps:
  assumes "books m" "reservations m k = Some r"
  shows "\<exists>s. reservations (expire_apply j m) k = Some s \<and> same_terms r s"
proof (cases "reservations m j")
  case (Some q)
  then show ?thesis using settle_keeps [OF assms(1) Some _ assms(2)] assms
    by (auto simp: expire_apply_settle [OF assms(1) Some] simp del: settle_sel)
qed (use assms in \<open>simp add: expire_apply_def\<close>)

lemma fold_expire_keeps:
  "books m \<Longrightarrow> reservations m k = Some r \<Longrightarrow> \<exists>s. reservations (fold expire_apply js m) k = Some s \<and> same_terms r s"
proof (induction js arbitrary: m r)
  case (Cons j js)
  then obtain s where s: "reservations (expire_apply j m) k = Some s" "same_terms r s"
    using expire_keeps by blast
  with Cons.IH [OF books_expire_apply [OF Cons.prems(1)] s(1)] show ?case
    by (auto intro: same_terms_trans)
qed auto

lemma op_keeps:
  assumes "books m" and "unat (idCounter m) < 2 ^ 64 - 1" and "reservations m k = Some r"
  shows "\<exists>s. reservations (manager_op oper m) k = Some s \<and> same_terms r s"
proof (cases oper)
  case (OpReserve clk t a ttl)
  have "k \<noteq> fst (nextID (clk 1) m)" using fresh_id [OF assms(1,2), of "clk 1"] assms(3) by auto
  with assms(3) show ?thesis by (simp add: OpReserve Reserve_result)
next
  case (OpRelease j)
  then show ?thesis using settle_keeps [OF assms(1) _ _ assms(3)] assms
    by (auto simp: Release_def release_apply_settle simp del: settle_sel split: option.splits)
next
  case (OpReconcile j c)
  then show ?thesis using settle_keeps [OF assms(1) _ _ assms(3)] assms
    by (auto simp: Reconcile_def reconcile_apply_settle simp del: settle_sel split: option.splits)
next
  case (OpExpireStale now order)
  then show ?thesis using fold_expire_keeps [OF assms(1,3)] by (simp add: ExpireStale_def Let_def)
qed (use assms in \<open>simp_all add: SetBudget_def put_account_def\<close>)

inductive manager_steps :: "Manager \<Rightarrow> Manager \<Rightarrow> bool" where
  steps_refl: "manager_steps m m"
| steps_op: "manager_steps m m' \<Longrightarrow> unat (idCounter m') < 2 ^ 64 - 1 \<Longrightarrow> manager_steps m (manager_op oper m')"

lemma steps_reach: "manager_steps m m' \<Longrightarrow> manager_reach m \<Longrightarrow> manager_reach m'"
  by (induction rule: manager_steps.induct) (auto intro: manager_reach.intros)

lemma steps_keep:
  "manager_steps m m' \<Longrightarrow> manager_reach m \<Longrightarrow> reservations m k = Some r \<Longrightarrow>
   \<exists>s. reservations m' k = Some s \<and> same_terms r s"
proof (induction rule: manager_steps.induct)
  case (steps_op m m' oper)
  then obtain s where s: "reservations m' k = Some s" "same_terms r s" by blast
  have "books m'" using steps_reach [OF steps_op.hyps(1) steps_op.prems(1)] by (rule reach_books)
  from op_keeps [OF this steps_op.hyps(2) s(1), of oper] s(2) show ?case
    by (auto intro: same_terms_trans)
qed auto

section \<open>Expiry\<close>

lemma expire_lookup:
  assumes "books m"
  shows "reservations (expire_apply j m) k =
    map_option (\<lambda>r. if k = j \<and> ResStatus r = StateReserved then r\<lparr>ResStatus := StateExpired\<rparr> else r) (reservations m k)"
proof (cases "reservations m j")
  case None
  then show ?thesis by (cases "reservations m k") (auto simp: expire_apply_def)
next
  case (Some q)
  with books_entry(1) [OF assms Some] show ?thesis
    by (cases "reservations m k") (auto simp: expire_apply_settle [OF assms Some])
qed

lemma fold_expire_lookup:
  "books m \<Longrightarrow> reservations (fold expire_apply js m) k =
    map_option (\<lambda>r. if k \<in> set js \<and> ResStatus r = StateReserved then r\<lparr>ResStatus := StateExpired\<rparr> else r)
      (reservations m k)"
  by (induction js arbitrary: m)
     (auto simp: books_expire_apply expire_lookup option.map_comp option.map_ident intro!: option.map_cong)

text \<open>Apart from the reserved counter, which the books determine, expiry changes no account.\<close>

definition frozen_part :: "Manager \<Rightarrow> string \<Rightarrow> account option" where
  "frozen_part m t = map_option (reserved_update (\<lambda>_. 0)) (accounts m t)"

lemma frozen_expire:
  assumes "books m"
  shows "frozen_part (expire_apply j m) = frozen_part m \<and> idCounter (expire_apply j m) = idCounter m"
proof (cases "reservations m j")
  case None
  then show ?thesis by (simp add: expire_apply_def)
next
  case (Some q)
  obtain acc where acc: "accounts m (ResTenant q) = Some acc" using books_entry(4) [OF assms Some] by blast
  show ?thesis
    by (auto simp: expire_apply_settle [OF assms Some] frozen_part_def accounts_settle [OF acc] acc)
qed

lemma frozen_fold_expire:
  "books m \<Longrightarrow> frozen_part (fold expire_apply js m) = frozen_part m \<and> idCounter (fold expire_apply js m) = idCounter m"
  by (induction js arbitrary: m) (simp_all add: books_expire_apply frozen_expire)

lemma manager_eqI:
  assumes "books m" "books m'" "reservations m = reservations m'" "frozen_part m = frozen_part m'"
    "idCounter m = idCounter m'"
  shows "m = m'"
proof -
  have "accounts m t = accounts m' t" for t
  proof -
    have f: "frozen_part m t = frozen_part m' t" using assms(4) by simp
    have h: "held t m = held t m'" using assms(3) by (simp add: held_def)
    show ?thesis
    proof (cases "accounts m t")
      case None
      then show ?thesis using f by (simp add: frozen_part_def)
    next
      case (Some a)
      with f obtain b where b: "accounts m' t = Some b" "a\<lparr>reserved := 0\<rparr> = b\<lparr>reserved := 0\<rparr>"
        by (cases "accounts m' t") (auto simp: frozen_part_def)
      have "reserved a = reserved b"
        using books_account(1) [OF assms(1) Some] books_account(1) [OF assms(2) b(1)] h by simp
      with b(2) have "a = b" by (cases a, cases b) simp
      with Some b show ?thesis by simp
    qed
  qed
  then have "accounts m = accounts m'" by (rule ext)
  with assms show ?thesis by simp
qed

lemma stale_set:
  "set order = dom (reservations m) \<Longrightarrow>
   set (stale_ids now order m) = {k. \<exists>r. reservations m k = Some r \<and> is_stale now r}"
  by (auto simp: stale_ids_def split: option.splits)

lemma fold_expire_set:
  "books m \<Longrightarrow> set js = set ks \<Longrightarrow> fold expire_apply js m = fold expire_apply ks m"
  by (rule manager_eqI)
     (auto simp: books_fold_expire fold_expire_lookup frozen_fold_expire)


section \<open>Simulation of the abstract budget\<close>

text \<open>
  The moves of the abstract budget. Every reachable abstract budget is within its limits,
  because each move is only enabled when it keeps to them.
\<close>

inductive budget_move :: "Budget \<Rightarrow> Budget \<Rightarrow> bool" where
  move_limit: "committed b t \<le> l \<Longrightarrow> budget_move b (a_set_limit t l b)"
| move_grant: "aHolds b k = None \<Longrightarrow> 0 \<le> a \<Longrightarrow> a_reserve k t a b = Some b' \<Longrightarrow> budget_move b b'"
| move_free: "budget_move b (a_free k b)"
| move_settle: "aHolds b k = Some (t, a) \<Longrightarrow> 0 \<le> c \<Longrightarrow> c \<le> a \<Longrightarrow> budget_move b (a_settle k c b)"

lemma free_moves: "budget_move\<^sup>*\<^sup>* b (fold a_free ks b)"
  by (induction ks arbitrary: b) (auto intro: move_free converse_rtranclp_into_rtranclp)

lemma moves_SetBudget:
  assumes "solvent m" and "fair (OpSetBudget t l) m"
  shows "budget_move (view m) (view (SetBudget t l m))"
proof -
  have "committed (view m) t \<le> sint l"
    using assms committed_view [OF assms(1), of t]
    by (auto simp: acc_of_def account0_def split: option.splits)
  then show ?thesis unfolding view_SetBudget by (rule move_limit)
qed

lemma moves_Reserve:
  assumes "solvent m" and "fair (OpReserve clk t a ttl) m"
  shows "budget_move\<^sup>*\<^sup>* (view m) (view (snd (Reserve clk t a ttl m)))"
proof (cases "fst (Reserve clk t a ttl m)")
  case (Inl e)
  with view_Reserve [OF assms(1), where clk = clk and t = t and amount = a and ttl = ttl] show ?thesis by (auto split: prod.splits)
next
  case (Inr r)
  then have id: "reserve_id clk ttl t a m = (Some (ResID r), snd (Reserve clk t a ttl m))"
    by (simp add: reserve_id_def split: prod.splits sum.splits) auto
  have room: "can_reserve m a" using assms(2) by (simp add: can_reserve_def)
  from manager_budget.reserve_some [OF assms(1) room id] assms(2) show ?thesis
    by (auto intro!: r_into_rtranclp move_grant)
qed

lemma moves_Reconcile:
  assumes "solvent m" and f: "fair (OpReconcile k c) m"
  shows "budget_move\<^sup>*\<^sup>* (view m) (view (snd (Reconcile k c m)))"
proof (cases "aHolds (view m) k")
  case None
  then show ?thesis using view_Reconcile [OF assms] by (simp add: a_settle_def)
next
  case (Some h)
  then obtain r where "reservations m k = Some r" "h = (ResTenant r, sint (ResAmount r))"
    by (auto simp: hold_of_def bind_eq_Some_conv split: if_splits)
  with Some f have "budget_move (view m) (a_settle k (sint c) (view m))"
    by (intro move_settle) auto
  then show ?thesis using view_Reconcile [OF assms] by auto
qed

lemma op_moves:
  assumes "solvent m" and "fair oper m"
  shows "budget_move\<^sup>*\<^sup>* (view m) (view (manager_op oper m))"
proof (cases oper)
  case (OpSetBudget t l)
  then show ?thesis using moves_SetBudget assms by auto
next
  case (OpReserve clk t a ttl)
  then show ?thesis using moves_Reserve assms by auto
next
  case (OpReconcile k c)
  then show ?thesis using moves_Reconcile assms by auto
next
  case (OpExpireStale now order)
  then show ?thesis using view_fold_expire [OF assms(1)] free_moves by (simp add: ExpireStale_def Let_def)
next
  case (OpRelease k)
  then show ?thesis using view_Release [OF assms(1)] by (auto intro: move_free)
qed simp

section \<open>Properties\<close>

text \<open>A manager with one account and one hold, as the operations build it.\<close>

definition demo_ops :: "ManagerOp list" where
  "demo_ops = [OpSetBudget ''t'' 100, OpReserve (\<lambda>i. 5) ''t'' 40 Second]"

definition demo_manager :: Manager where
  "demo_manager = fold manager_op demo_ops NewManager"

definition demo_id :: string where
  "demo_id = ''00010101T000000.000000005-1''"

lemma demo_id_eq: "format_stamp 5 @ ''-'' @ itoa 1 = demo_id"
  by code_simp

lemma demo_manager_eq:
  "demo_manager = \<lparr>accounts = [''t'' \<mapsto> \<lparr>limit = 100, reserved = 40, settled = 0\<rparr>],
     reservations = [demo_id \<mapsto> new_reservation demo_id ''t'' 40 5 Second], idCounter = 1\<rparr>"
  using demo_id_eq
  by (simp add: demo_manager_def demo_ops_def op_defs NewManager_def account0_def available_def Let_def go_simps)

lemma demo_fair: "fair_reach demo_manager"
proof -
  have "fair_reach (manager_op (OpSetBudget ''t'' 100) NewManager)"
    by (rule fair_op [OF fair_new]) (simp add: NewManager_def)
  from fair_op [OF this, of "OpReserve (\<lambda>i. 5) ''t'' 40 Second"] show ?thesis
    by (simp add: demo_manager_def demo_ops_def SetBudget_def NewManager_def put_account_def)
qed

lemma demo_reach: "manager_reach demo_manager"
proof -
  have "manager_reach (manager_op (OpSetBudget ''t'' 100) NewManager)"
    by (rule reach_op [OF reach_new]) (simp add: NewManager_def)
  from reach_op [OF this, of "OpReserve (\<lambda>i. 5) ''t'' 40 Second"] show ?thesis
    by (simp add: demo_manager_def demo_ops_def SetBudget_def NewManager_def put_account_def)
qed

text \<open>
  A tenant is never overcommitted. After any sequence of manager operations that reserve
  non-negative amounts, reconcile at most what was reserved and set no budget below what is
  already committed, every account has non-negative counters, its reserved counter is the exact
  (integer) total of its outstanding reservations, and reserved plus settled is within its limit.
\<close>

theorem never_overcommits:
  assumes "fair_reach m" and "accounts m t = Some acc"
  shows "0 \<le> sint (reserved acc) \<and> 0 \<le> sint (settled acc)
    \<and> sint (reserved acc) + sint (settled acc) \<le> sint (limit acc)
    \<and> sint (reserved acc) = entries_sum (holds_for t) (\<lambda>r. sint (ResAmount r)) (reservations m)"
proof -
  have "sint (reserved acc) = int_held t m \<and> within_limit acc"
    using sound_account [OF solvent_sound [OF fair_solvent [OF assms(1)]] assms(2)] by simp
  then show ?thesis unfolding within_limit_def int_held_def by blast
qed

theorem never_overcommits_witness:
  "accounts demo_manager ''t'' = Some \<lparr>limit = 100, reserved = 40, settled = 0\<rparr> \<and>
   sint (40 :: int64) = entries_sum (holds_for ''t'') (\<lambda>r. sint (ResAmount r)) (reservations demo_manager)"
proof -
  have a: "accounts demo_manager ''t'' = Some \<lparr>limit = 100, reserved = 40, settled = 0\<rparr>"
    by (simp add: demo_manager_eq)
  with never_overcommits [OF demo_fair a] show ?thesis by simp
qed

text \<open>
  The books balance after any operations at all, with machine arithmetic that may wrap: an
  account's reserved counter is the sum of the amounts of the tenant's reservations in state
  RESERVED, its settled counter the sum of the actual costs of its reconciled ones.
\<close>

theorem books_balance:
  assumes "manager_reach m" and "accounts m t = Some acc"
  shows "reserved acc = entries_sum (\<lambda>r. ResTenant r = t \<and> ResStatus r = StateReserved) ResAmount (reservations m)
    \<and> settled acc = entries_sum (\<lambda>r. ResTenant r = t \<and> IsReconciled r) ActualCost (reservations m)"
  using books_account [OF reach_books [OF assms(1)] assms(2)]
  by (simp add: held_def spent_def holds_for_def [abs_def] spends_for_def [abs_def])

theorem books_balance_witness:
  "(40 :: micros) = entries_sum (\<lambda>r. ResTenant r = ''t'' \<and> ResStatus r = StateReserved) ResAmount (reservations demo_manager)
   \<and> (0 :: micros) = entries_sum (\<lambda>r. ResTenant r = ''t'' \<and> IsReconciled r) ActualCost (reservations demo_manager)"
proof -
  have a: "accounts demo_manager ''t'' = Some \<lparr>limit = 100, reserved = 40, settled = 0\<rparr>"
    by (simp add: demo_manager_eq)
  from books_balance [OF demo_reach a] show ?thesis by simp
qed

text \<open>
  C4: the manager implements the abstract budget: every operation of a fair run is a sequence of
  moves of the specification on unbounded integers (set a limit no lower than what is committed,
  grant a fresh hold that fits, drop a hold, settle a hold at no more than its amount).
\<close>

theorem manager_refines_budget:
  assumes "fair_reach m" and "fair oper m"
  shows "budget_move\<^sup>*\<^sup>* (view m) (view (manager_op oper m))"
  using fair_solvent [OF assms(1)] assms(2) by (rule op_moves)

theorem manager_refines_budget_witness:
  "budget_move\<^sup>*\<^sup>* (view demo_manager) (view (manager_op (OpReconcile demo_id 30) demo_manager))"
  by (rule manager_refines_budget [OF demo_fair]) (simp add: demo_manager_eq new_reservation_def)

text \<open>
  C15: a reservation is granted exactly when it fits: with the exact integer amounts, \<open>Reserve\<close>
  succeeds iff reserved + settled + amount is at most the limit (an unknown tenant has limit 0).
  On success the new reservation is RESERVED, carries the terms asked for and an identifier no
  reservation had, and \<open>Get\<close> returns it; on failure the error is the insufficient budget and no
  reservation changes.
\<close>

theorem Reserve_grants_iff_fits:
  assumes "fair_reach m" and "0 \<le> sint amount" and "unat (idCounter m) < 2 ^ 64 - 1"
  shows "if sint (reserved (acc_of m t)) + sint (settled (acc_of m t)) + sint amount \<le> sint (limit (acc_of m t))
    then \<exists>r m'. Reserve clk t amount ttl m = (Inr r, m') \<and> ResTenant r = t \<and> ResAmount r = amount
        \<and> ResStatus r = StateReserved \<and> ExpiresAt r = clk 0 + sint ttl
        \<and> Get (ResID r) m = Inl ErrNotFound \<and> Get (ResID r) m' = Inr r
    else \<exists>m'. Reserve clk t amount ttl m = (Inl ErrInsufficientBudget, m') \<and> reservations m' = reservations m"
proof -
  have s: "solvent m" using assms(1) by (rule fair_solvent)
  have "reservations m (fst (nextID (clk 1) m)) = None"
    using fresh_id [OF solvent_books [OF s] assms(3)] by simp
  moreover have "available (acc_of m t) <s amount \<longleftrightarrow>
      \<not> sint (reserved (acc_of m t)) + sint (settled (acc_of m t)) + sint amount \<le> sint (limit (acc_of m t))"
    using available_view [OF s, of t] committed_view [OF s, of t] by (simp add: go_simps) linarith
  ultimately show ?thesis
    by (auto simp: Reserve_result Get_def new_reservation_def time_Add_def)
qed

theorem Reserve_grants_iff_fits_witness:
  "\<exists>r m'. Reserve (\<lambda>i. 9) ''t'' 60 Second demo_manager = (Inr r, m') \<and> ResTenant r = ''t'' \<and> ResAmount r = 60
      \<and> ResStatus r = StateReserved \<and> ExpiresAt r = 1000000009
      \<and> Get (ResID r) demo_manager = Inl ErrNotFound \<and> Get (ResID r) m' = Inr r"
  using Reserve_grants_iff_fits [OF demo_fair, of 60 "''t''" "\<lambda>i. 9" Second]
  by (simp add: demo_manager_eq acc_of_def)

text \<open>
  A hold leaves no trace when it is released, and exactly its actual cost when it is
  reconciled at no more than the reserved amount: the abstract budget after reserve and release is
  the one before, and after reserve and reconcile it differs only by the cost spent.
\<close>

theorem hold_round_trip:
  assumes "fair_reach m" and "0 \<le> sint a" and "unat (idCounter m) < 2 ^ 64 - 1"
    and "Reserve clk t a ttl m = (Inr r, m')" and "0 \<le> sint c" and "sint c \<le> sint a"
  shows "view (snd (Release (ResID r) m')) = view m
    \<and> view (snd (Reconcile (ResID r) c m'))
      = (view m)\<lparr>aSpent := (aSpent (view m))(t := aSpent (view m) t + sint c)\<rparr>"
proof -
  have s: "solvent m" using assms(1) by (rule fair_solvent)
  have room: "can_reserve m a" using assms(2,3) by (simp add: can_reserve_def)
  have id: "reserve_id clk ttl t a m = (Some (ResID r), m')" using assms(4) by (simp add: reserve_id_def)
  show ?thesis
    using manager_budget.reserve_then_release [OF s room id] manager_budget.reserve_then_settle [OF s room id assms(5,6)]
    by blast
qed

theorem hold_round_trip_witness:
  "view (snd (Release demo_id demo_manager)) = view (manager_op (OpSetBudget ''t'' 100) NewManager)"
proof -
  let ?m = "manager_op (OpSetBudget ''t'' 100) NewManager"
  have f: "fair_reach ?m" by (rule fair_op [OF fair_new]) (simp add: NewManager_def)
  have r: "Reserve (\<lambda>i. 5) ''t'' 40 Second ?m = (Inr (new_reservation demo_id ''t'' 40 5 Second), demo_manager)"
    using demo_id_eq
    by (simp add: demo_manager_def demo_ops_def op_defs NewManager_def account0_def available_def Let_def go_simps)
  have "unat (idCounter ?m) < 2 ^ 64 - 1" by (simp add: op_defs NewManager_def)
  from hold_round_trip [OF f _ this r, of 0] show ?thesis by (simp add: new_reservation_def)
qed

text \<open>
  C16: settlement is idempotent: once \<open>Reconcile\<close> has succeeded for a reservation, every later
  call, whatever cost it reports, returns the result of the first one and changes nothing; a second
  \<open>Release\<close> changes nothing either.
\<close>

theorem settlement_idempotent:
  assumes "manager_reach m"
  shows "(Reconcile k c m = (Inr rr, m') \<longrightarrow> Reconcile k c' m' = (Inr rr, m'))
    \<and> Release k (snd (Release k m)) = Release k m"
proof (cases "reservations m k")
  case None
  then show ?thesis by (simp add: Reconcile_def Release_def)
next
  case (Some r)
  have b: "books m" using assms by (rule reach_books)
  have idr: "ResID r = k" using books_entry(1) [OF b Some] .
  have b2: "books (settle r st x m)" if "ResStatus r = StateReserved" "st \<noteq> StateReserved" for st x
    using books_settle [OF b Some that] .
  have "Reconcile k c' m' = (Inr rr, m')" if "Reconcile k c m = (Inr rr, m')"
  proof (cases "ResStatus r = StateReserved")
    case True
    with that have m': "m' = settle r StateReconciled c m" "rr = computeReconcileResult (ResAmount r) c"
      by (auto simp: Reconcile_def Some reconcile_apply_settle [OF b Some])
    show ?thesis using idr b2 [OF True, of StateReconciled c]
      by (simp add: Reconcile_def m' reconcile_apply_settle [where k = k])
  next
    case False
    with that have "m' = m" and "reconcile_apply r c' m = (Inr rr, m)"
      by (auto simp: Reconcile_def Some reconcile_apply_settle [OF b Some] split: if_splits)
    with Some show ?thesis by (simp add: Reconcile_def)
  qed
  moreover have "Release k (snd (Release k m)) = Release k m"
    using idr b2 [of StateReleased 0]
    by (auto simp: Release_def Some release_apply_settle [OF b Some] release_apply_settle [where k = k])
  ultimately show ?thesis by blast
qed

theorem settlement_idempotent_witness:
  "Reconcile demo_id 99 (snd (Reconcile demo_id 25 demo_manager)) =
     (Inr \<lparr>RecReserved = 40, RecActual = 25, RecReleased = 15, RecOverage = 0\<rparr>,
      snd (Reconcile demo_id 25 demo_manager))"
proof -
  have "Reconcile demo_id 25 demo_manager =
      (Inr \<lparr>RecReserved = 40, RecActual = 25, RecReleased = 15, RecOverage = 0\<rparr>,
       snd (Reconcile demo_id 25 demo_manager))"
    by (simp add: demo_manager_eq op_defs computeReconcileResult_def go_simps)
  then show ?thesis using settlement_idempotent [OF demo_reach] by blast
qed

text \<open>
  C36: the life cycle of a reservation: over any run of the manager a reservation keeps its
  identifier, tenant, amount and times and is never dropped, and once it has left the state
  RESERVED it never changes again.
\<close>

theorem reservation_life_cycle:
  assumes "manager_reach m" and "manager_steps m m'" and "reservations m k = Some r"
  shows "\<exists>s. reservations m' k = Some s \<and> ResID s = k \<and> ResTenant s = ResTenant r
    \<and> ResAmount s = ResAmount r \<and> CreatedAt s = CreatedAt r \<and> ExpiresAt s = ExpiresAt r
    \<and> (ResStatus r \<noteq> StateReserved \<longrightarrow> s = r)"
  using steps_keep [OF assms(2,1,3)] books_entry(1) [OF reach_books [OF assms(1)] assms(3)]
  by (auto simp: same_terms_def)

theorem reservation_life_cycle_witness:
  "\<exists>s. reservations (manager_op (OpRelease demo_id) demo_manager) demo_id = Some s \<and> ResID s = demo_id
     \<and> ResTenant s = ''t'' \<and> ResAmount s = 40 \<and> CreatedAt s = 5 \<and> ExpiresAt s = 1000000005"
proof -
  have r: "reservations demo_manager demo_id = Some (new_reservation demo_id ''t'' 40 5 Second)"
    by (simp add: demo_manager_eq)
  have s: "manager_steps demo_manager (manager_op (OpRelease demo_id) demo_manager)"
    by (rule steps_op [OF steps_refl]) (simp add: demo_manager_eq)
  from reservation_life_cycle [OF demo_reach s r] show ?thesis
    by (auto simp: new_reservation_def time_Add_def)
qed

text \<open>
  One pass of \<open>ExpireStale\<close> frees exactly the overdue holds: for every order in which Go may
  range over the map, the result is the same, the count is the number of reservations that were
  RESERVED past their expiry, these become EXPIRED, no other changes, and none is left stale.
\<close>

theorem ExpireStale_exact:
  assumes "manager_reach m" and "distinct order" "set order = dom (reservations m)"
    and "distinct order'" "set order' = dom (reservations m)"
  shows "ExpireStale now order m = ExpireStale now order' m
    \<and> fst (ExpireStale now order m) = card {k. \<exists>r. reservations m k = Some r \<and> is_stale now r}
    \<and> reservations (snd (ExpireStale now order m)) =
        (\<lambda>k. map_option (\<lambda>r. if is_stale now r then r\<lparr>ResStatus := StateExpired\<rparr> else r) (reservations m k))
    \<and> stale_ids now order (snd (ExpireStale now order m)) = []"
proof -
  have b: "books m" using assms(1) by (rule reach_books)
  have len: "length (stale_ids now xs m) = card {k. \<exists>r. reservations m k = Some r \<and> is_stale now r}"
    if "distinct xs" "set xs = dom (reservations m)" for xs
    using that distinct_card [of "stale_ids now xs m"] stale_set [OF that(2)] by (simp add: stale_ids_def)
  have look: "reservations (fold expire_apply (stale_ids now order m) m) =
      (\<lambda>k. map_option (\<lambda>r. if is_stale now r then r\<lparr>ResStatus := StateExpired\<rparr> else r) (reservations m k))"
  proof
    fix k
    show "reservations (fold expire_apply (stale_ids now order m) m) k =
        map_option (\<lambda>r. if is_stale now r then r\<lparr>ResStatus := StateExpired\<rparr> else r) (reservations m k)"
      by (cases "reservations m k")
         (auto simp: fold_expire_lookup [OF b] stale_set [OF assms(3)] is_stale_def)
  qed
  show ?thesis
    using len [OF assms(2,3)] len [OF assms(4,5)] look
      fold_expire_set [OF b, of "stale_ids now order m" "stale_ids now order' m"]
      stale_set [OF assms(3), of now] stale_set [OF assms(5), of now]
    by (auto simp: ExpireStale_def Let_def stale_ids_def is_stale_def filter_empty_conv split: option.splits)
qed

theorem ExpireStale_exact_witness:
  "fst (ExpireStale 2000000000 [demo_id] demo_manager) = card {k. \<exists>r. reservations demo_manager k = Some r \<and> is_stale 2000000000 r}
   \<and> stale_ids 2000000000 [demo_id] (snd (ExpireStale 2000000000 [demo_id] demo_manager)) = []"
  using ExpireStale_exact [OF demo_reach, of "[demo_id]" "[demo_id]" 2000000000]
  by (simp add: demo_manager_eq)

text \<open>
  The invariant of the package comment has an exception: reconciling at a cost above the
  reserved amount is accepted, reported as an overage, and takes the account over its limit.
\<close>

theorem overage_exceeds_limit:
  "let (res, m) = Reconcile demo_id 150 demo_manager
   in res = Inr \<lparr>RecReserved = 40, RecActual = 150, RecReleased = 0, RecOverage = 110\<rparr>
      \<and> accounts m ''t'' = Some \<lparr>limit = 100, reserved = 0, settled = 150\<rparr>"
  by (simp add: demo_manager_eq op_defs computeReconcileResult_def go_simps)

end
