(* ===== verification/Reservation_Conc.thy ===== *)
theory Reservation_Conc
  imports Solvency
begin

text \<open>
  The reservation manager under concurrent callers (\<open>internal/reservation/reservation.go\<close>).
  A goroutine inside a method is a program counter \<open>Pc\<close> that holds its locals, and \<open>exec\<close> is
  one atomic action of it: one critical section of the source (under \<open>Manager.mu\<close>, an account's
  \<open>mu\<close> or \<open>idMu\<close>), or one clock reading. A configuration runs any number of goroutines, in any
  interleaving. A pointer to a reservation is its identifier: the map never replaces an entry.
  The mutexes themselves, with blocking, unlocking and the question whether a call returns, are the
  subject of \<open>Manager_Locks\<close>.
\<close>

datatype Answer =
    AnsReserve "ResError + Reservation"
  | AnsRelease "ResError option"
  | AnsReconcile "ResError + ReconcileResult"
  | AnsExpire nat
  | AnsExposure Exposure
  | AnsGet "ResError + Reservation"
  | AnsDone

datatype Pc =
    SetBudgetCall string micros
  | ExposureCall string
  | ExposureRead string
  | GetCall string
  | ReserveCall string micros duration
  | ReserveCheck string micros duration
  | ReserveNow string micros duration
  | ReserveName string micros duration time
  | ReservePublish Reservation
  | ReleaseCall string
  | ReleaseAccount string
  | ReleaseApply string
  | ReconcileCall string micros
  | ReconcileAccount string micros
  | ReconcileApply string micros
  | ExpireCall
  | ExpireScan time
  | ExpireNext "string list" nat
  | ExpireApply string "string list" nat
  | Returned Answer

text \<open>
  The environment's part of an action: the clock reading, and the reservations the scan of
  \<open>ExpireStale\<close> finds. The scan reads \<open>r.State\<close> under \<open>Manager.mu\<close> only, while other
  goroutines write it under the account's mutex, so what it sees of the state is left open; the
  expiry times never change, and the scan finds overdue reservations only.
\<close>

record Input =
  reading :: time
  scanned :: "string list"

definition overdue :: "time \<Rightarrow> Manager \<Rightarrow> string \<Rightarrow> bool" where
  "overdue now m k = (case reservations m k of None \<Rightarrow> False | Some r \<Rightarrow> After now (ExpiresAt r))"

fun exec :: "Input \<Rightarrow> Pc \<Rightarrow> Manager \<Rightarrow> Pc \<times> Manager" where
  "exec inp (SetBudgetCall t l) m = (Returned AnsDone, SetBudget t l m)"
| "exec inp (ExposureCall t) m = (ExposureRead t, snd (getAccount t m))"
| "exec inp (ExposureRead t) m = (let (xp, m') = Exposure_of t m in (Returned (AnsExposure xp), m'))"
| "exec inp (GetCall k) m = (Returned (AnsGet (Get k m)), m)"
| "exec inp (ReserveCall t a ttl) m = (ReserveCheck t a ttl, snd (getAccount t m))"
| "exec inp (ReserveCheck t a ttl) m =
     (let (ok, m') = reserve_commit t a m
      in (if ok then ReserveNow t a ttl else Returned (AnsReserve (Inl ErrInsufficientBudget)), m'))"
| "exec inp (ReserveNow t a ttl) m = (ReserveName t a ttl (reading inp), m)"
| "exec inp (ReserveName t a ttl now) m =
     (let (rid, m') = nextID (reading inp) m in (ReservePublish (new_reservation rid t a now ttl), m'))"
| "exec inp (ReservePublish r) m = (Returned (AnsReserve (Inr r)), put_reservation r m)"
| "exec inp (ReleaseCall k) m =
     (case reservations m k of
        None \<Rightarrow> (Returned (AnsRelease (Some ErrNotFound)), m)
      | Some r \<Rightarrow> (ReleaseAccount k, m))"
| "exec inp (ReleaseAccount k) m = (ReleaseApply k, snd (getAccount (ResTenant (the (reservations m k))) m))"
| "exec inp (ReleaseApply k) m = (Returned (AnsRelease None), release_apply (the (reservations m k)) m)"
| "exec inp (ReconcileCall k c) m =
     (case reservations m k of
        None \<Rightarrow> (Returned (AnsReconcile (Inl ErrNotFound)), m)
      | Some r \<Rightarrow> (ReconcileAccount k c, m))"
| "exec inp (ReconcileAccount k c) m = (ReconcileApply k c, snd (getAccount (ResTenant (the (reservations m k))) m))"
| "exec inp (ReconcileApply k c) m =
     (let (res, m') = reconcile_apply (the (reservations m k)) c m in (Returned (AnsReconcile res), m'))"
| "exec inp ExpireCall m = (ExpireScan (reading inp), m)"
| "exec inp (ExpireScan now) m = (ExpireNext (scanned inp) (length (scanned inp)), m)"
| "exec inp (ExpireNext [] n) m = (Returned (AnsExpire n), m)"
| "exec inp (ExpireNext (k # ks) n) m = (ExpireApply k ks n, snd (getAccount (ResTenant (the (reservations m k))) m))"
| "exec inp (ExpireApply k ks n) m = (ExpireNext ks n, expire_apply k m)"
| "exec inp (Returned ans) m = (Returned ans, m)"

record Conc =
  mgr :: Manager
  pool :: "nat \<rightharpoonup> Pc"

text \<open>
  What the callers and the environment are assumed to do. None of it is checked by the code: \<open>SetBudget\<close> does
  not go below what the account has reserved and settled, \<open>Reserve\<close> is asked for a non-negative amount, every
  \<open>Reconcile\<close> of a reservation is at a cost between zero and its amount, the identifier counter
  does not overflow, and the scan finds overdue reservations only. Without the first or the third an account
  can exceed its limit (\<open>overage_exceeds_limit\<close>).
\<close>

fun admissible :: "Input \<Rightarrow> Pc \<Rightarrow> Manager \<Rightarrow> bool" where
  "admissible inp (SetBudgetCall t l) m = fair (OpSetBudget t l) m"
| "admissible inp (ReserveCheck t a ttl) m = (0 \<le> sint a)"
| "admissible inp (ReserveName t a ttl now) m = (unat (idCounter m) < 2 ^ 64 - 1)"
| "admissible inp (ReconcileApply k c) m = fair (OpReconcile k c) m"
| "admissible inp (ExpireScan now) m = (\<forall>k \<in> set (scanned inp). overdue now m k)"
| "admissible inp _ m = True"

fun entry_point :: "Pc \<Rightarrow> bool" where
  "entry_point (SetBudgetCall t l) = True"
| "entry_point (ExposureCall t) = True"
| "entry_point (GetCall k) = True"
| "entry_point (ReserveCall t a ttl) = True"
| "entry_point (ReleaseCall k) = True"
| "entry_point (ReconcileCall k c) = True"
| "entry_point ExpireCall = True"
| "entry_point _ = False"

inductive interleaving :: "Conc \<Rightarrow> bool" where
  conc_start: "interleaving \<lparr>mgr = NewManager, pool = Map.empty\<rparr>"
| conc_call: "interleaving c \<Longrightarrow> pool c i = None \<Longrightarrow> entry_point pc \<Longrightarrow> interleaving (c\<lparr>pool := (pool c)(i \<mapsto> pc)\<rparr>)"
| conc_exec: "interleaving c \<Longrightarrow> pool c i = Some pc \<Longrightarrow> admissible inp pc (mgr c) \<Longrightarrow> exec inp pc (mgr c) = (pc', m')
    \<Longrightarrow> interleaving \<lparr>mgr = m', pool = (pool c)(i \<mapsto> pc')\<rparr>"
| conc_again: "interleaving c \<Longrightarrow> pool c i = Some (Returned ans) \<Longrightarrow> entry_point pc \<Longrightarrow> interleaving (c\<lparr>pool := (pool c)(i \<mapsto> pc)\<rparr>)"

section \<open>A single caller\<close>

text \<open>Run without interference, the atomic actions add up to the operations.\<close>

fun solo :: "Input list \<Rightarrow> Pc \<Rightarrow> Manager \<Rightarrow> Pc \<times> Manager" where
  "solo [] pc m = (pc, m)"
| "solo (inp # inps) pc m = (let (pc', m') = exec inp pc m in solo inps pc' m')"

lemma getAccount_snd_idem [simp]: "getAccount t (snd (getAccount t m)) = (fst (getAccount t m), snd (getAccount t m))"
  by (cases rule: getAccount_cases [of m t]) (simp_all add: getAccount_def put_account_def)

lemma solo_Reserve:
  "solo [i0, i1, i2, i3, i4] (ReserveCall t a ttl) m =
     (let (res, m') = Reserve (\<lambda>j. if j = 0 then reading i2 else reading i3) t a ttl m
      in (Returned (AnsReserve res), m'))"
  by (auto simp: Reserve_def reserve_commit_def Let_def split: prod.splits)

lemma release_apply_getAccount [simp]: "release_apply r (snd (getAccount (ResTenant r) m)) = release_apply r m"
  by (simp add: release_apply_def)

lemma reconcile_apply_getAccount [simp]:
  "reconcile_apply r c (snd (getAccount (ResTenant r) m)) = reconcile_apply r c m"
  by (simp add: reconcile_apply_def)

lemma expire_apply_getAccount [simp]:
  "reservations m k = Some r \<Longrightarrow> expire_apply k (snd (getAccount (ResTenant r) m)) = expire_apply k m"
  by (simp add: expire_apply_def)

lemma solo_Release:
  "solo [i0, i1, i2] (ReleaseCall k) m = (let (e, m') = Release k m in (Returned (AnsRelease e), m'))"
  by (simp add: Release_def split: option.splits)

lemma solo_Reconcile:
  "solo [i0, i1, i2] (ReconcileCall k c) m =
     (let (res, m') = Reconcile k c m in (Returned (AnsReconcile res), m'))"
  by (simp add: Reconcile_def Let_def split: option.splits prod.splits)

lemma expire_apply_dom: "k' \<in> dom (reservations m) \<Longrightarrow> k' \<in> dom (reservations (expire_apply k m))"
  by (auto simp: expire_apply_def getAccount_def put_account_def put_reservation_def split: option.splits)

lemma solo_ExpireNext:
  "set ks \<subseteq> dom (reservations m) \<Longrightarrow>
   solo (replicate (2 * length ks + 1) i) (ExpireNext ks n) m = (Returned (AnsExpire n), fold expire_apply ks m)"
proof (induction ks arbitrary: m)
  case (Cons k ks)
  then obtain r where r: "reservations m k = Some r" by auto
  have "set ks \<subseteq> dom (reservations (expire_apply k m))"
    using Cons.prems expire_apply_dom by fastforce
  from Cons.IH [OF this] show ?case using r by simp
qed simp

lemma stale_ids_overdue: "\<forall>k \<in> set (stale_ids now order m). overdue now m k"
  by (auto simp: stale_ids_def overdue_def is_stale_def split: option.splits)

lemma solo_ExpireStale:
  assumes "reading i0 = now" and "scanned i1 = stale_ids now order m"
  shows "solo (i0 # i1 # replicate (2 * length (scanned i1) + 1) i2) ExpireCall m =
    (let (n, m') = ExpireStale now order m in (Returned (AnsExpire n), m'))"
proof -
  have "set (stale_ids now order m) \<subseteq> dom (reservations m)"
    by (auto simp: stale_ids_def split: option.splits)
  from solo_ExpireNext [OF this, of i2] show ?thesis
    using assms by (simp add: ExpireStale_def Let_def)
qed


section \<open>The invariant of all interleavings\<close>

text \<open>What a goroutine between commit and publication has in flight, and what it relies on.\<close>

fun flight :: "Pc \<Rightarrow> (string \<times> micros) option" where
  "flight (ReserveNow t a ttl) = Some (t, a)"
| "flight (ReserveName t a ttl now) = Some (t, a)"
| "flight (ReservePublish r) = Some (ResTenant r, ResAmount r)"
| "flight _ = None"

definition flies_for :: "string \<Rightarrow> Pc \<Rightarrow> bool" where
  "flies_for t pc \<longleftrightarrow> (\<exists>a. flight pc = Some (t, a))"

definition flight_amount :: "Pc \<Rightarrow> int" where
  "flight_amount pc = (case flight pc of None \<Rightarrow> 0 | Some (t, a) \<Rightarrow> sint a)"

definition in_flight :: "(nat \<rightharpoonup> Pc) \<Rightarrow> string \<Rightarrow> int" where
  "in_flight p t = entries_sum (flies_for t) flight_amount p"

fun pc_ok :: "Pc \<Rightarrow> Manager \<Rightarrow> bool" where
  "pc_ok (ReserveNow t a ttl) m = (0 \<le> sint a \<and> accounts m t \<noteq> None)"
| "pc_ok (ReserveName t a ttl now) m = (0 \<le> sint a \<and> accounts m t \<noteq> None)"
| "pc_ok (ReservePublish r) m = (0 \<le> sint (ResAmount r) \<and> accounts m (ResTenant r) \<noteq> None \<and>
     ResStatus r = StateReserved \<and> numbered (idCounter m) (ResID r) \<and> reservations m (ResID r) = None)"
| "pc_ok (ReleaseAccount k) m = (reservations m k \<noteq> None)"
| "pc_ok (ReleaseApply k) m = (reservations m k \<noteq> None)"
| "pc_ok (ReconcileAccount k c) m = (reservations m k \<noteq> None)"
| "pc_ok (ReconcileApply k c) m = (reservations m k \<noteq> None)"
| "pc_ok (ExpireNext ks n) m = (set ks \<subseteq> dom (reservations m))"
| "pc_ok (ExpireApply k ks n) m = (reservations m k \<noteq> None \<and> set ks \<subseteq> dom (reservations m))"
| "pc_ok _ m = True"

definition conc_ok :: "Conc \<Rightarrow> bool" where
  "conc_ok c \<longleftrightarrow> finite (dom (pool c)) \<and> sound (in_flight (pool c)) (mgr c) \<and>
     (\<forall>k \<in> dom (reservations (mgr c)). numbered (idCounter (mgr c)) k) \<and>
     (\<forall>i pc. pool c i = Some pc \<longrightarrow> pc_ok pc (mgr c)) \<and>
     (\<forall>i j r s. pool c i = Some (ReservePublish r) \<and> pool c j = Some (ReservePublish s) \<and> i \<noteq> j \<longrightarrow> ResID r \<noteq> ResID s)"

text \<open>How an action may change the manager without disturbing the other goroutines.\<close>

definition extends :: "string option \<Rightarrow> Manager \<Rightarrow> Manager \<Rightarrow> bool" where
  "extends new m m' \<longleftrightarrow> dom (accounts m) \<subseteq> dom (accounts m') \<and>
     dom (reservations m') = dom (reservations m) \<union> set_option new \<and> unat (idCounter m) \<le> unat (idCounter m')"

lemma extends_pc_ok:
  assumes "pc_ok pc m" and "extends new m m'" and "\<And>r. pc = ReservePublish r \<Longrightarrow> new \<noteq> Some (ResID r)"
  shows "pc_ok pc m'"
proof (cases pc)
  case (ReservePublish r)
  have "ResID r \<notin> dom (reservations m')"
    using assms ReservePublish by (auto simp: extends_def)
  with assms(1,2) ReservePublish show ?thesis
    by (auto simp: extends_def domIff intro: numbered_mono)
qed (use assms(1,2) in \<open>auto simp: extends_def domIff subset_eq\<close>)

lemma in_flight_update:
  assumes "finite (dom p)" and "p i = Some pc"
  shows "in_flight (p(i \<mapsto> pc')) = (\<lambda>t. in_flight p t - (if flies_for t pc then flight_amount pc else 0)
      + (if flies_for t pc' then flight_amount pc' else 0))"
  unfolding in_flight_def by (rule ext) (simp add: entries_sum_update [OF assms])

lemma in_flight_same:
  "finite (dom p) \<Longrightarrow> p i = Some pc \<Longrightarrow> flight pc' = flight pc \<Longrightarrow> in_flight (p(i \<mapsto> pc')) = in_flight p"
  by (rule ext) (simp add: in_flight_update flies_for_def flight_amount_def)

lemma conc_pc_ok: "conc_ok c \<Longrightarrow> pool c i = Some pc \<Longrightarrow> pc_ok pc (mgr c)"
  by (simp add: conc_ok_def)

text \<open>A goroutine's own amount is part of the total.\<close>

lemma own_flight:
  assumes "conc_ok c" and "pool c i = Some (ReservePublish r)"
  shows "sint (ResAmount r) \<le> in_flight (pool c) (ResTenant r)"
proof -
  have nn: "0 \<le> flight_amount pc" if "pool c j = Some pc" "flies_for t pc" for j pc t
    using conc_pc_ok [OF assms(1) that(1)] that(2) by (cases pc) (auto simp: flies_for_def flight_amount_def)
  have "finite (dom (pool c))" using assms(1) by (simp add: conc_ok_def)
  from entries_sum_member_le [OF this assms(2), of "flies_for (ResTenant r)" flight_amount] nn show ?thesis
    by (simp add: in_flight_def flies_for_def flight_amount_def)
qed

text \<open>The frame of a step: what is left to show for an action of one goroutine.\<close>

lemma conc_frame:
  assumes c: "conc_ok c" and i: "pool c i = Some pc" and ext: "extends new (mgr c) m'"
    and snd: "sound (in_flight ((pool c)(i \<mapsto> pc'))) m'" and ok: "pc_ok pc' m'"
    and new: "\<And>k. new = Some k \<Longrightarrow> pc = ReservePublish r \<and> k = ResID r"
    and pub: "\<And>s. pc' = ReservePublish s \<Longrightarrow> \<not> numbered (idCounter (mgr c)) (ResID s)"
  shows "conc_ok \<lparr>mgr = m', pool = (pool c)(i \<mapsto> pc')\<rparr>"
proof -
  have "pc_ok q m'" if "((pool c)(i \<mapsto> pc')) j = Some q" for j q
  proof (cases "j = i")
    case False
    with that have q: "pool c j = Some q" by simp
    then have "pc_ok q (mgr c)" using c by (auto simp: conc_ok_def)
    moreover have "new \<noteq> Some (ResID s)" if "q = ReservePublish s" for s
      using c i q that False new unfolding conc_ok_def by metis
    ultimately show ?thesis using ext extends_pc_ok by blast
  qed (use that ok in simp)
  moreover have "numbered (idCounter m') k" if "k \<in> dom (reservations m')" for k
  proof -
    have "numbered (idCounter (mgr c)) k"
      using that ext new conc_pc_ok [OF c i] c by (cases new) (auto simp: extends_def conc_ok_def)
    then show ?thesis using ext by (auto simp: extends_def intro: numbered_mono)
  qed
  moreover have "ResID s \<noteq> ResID s'"
    if "((pool c)(i \<mapsto> pc')) j = Some (ReservePublish s)" "((pool c)(i \<mapsto> pc')) j' = Some (ReservePublish s')" "j \<noteq> j'" for j j' s s'
    using that c pub unfolding conc_ok_def by (auto split: if_splits) (metis pc_ok.simps(3))+
  moreover have "finite (dom ((pool c)(i \<mapsto> pc')))" using c by (simp add: conc_ok_def)
  ultimately show ?thesis using snd unfolding conc_ok_def
    by (simp only: Conc.simps) blast
qed

lemma extends_getAccount: "extends None m (snd (getAccount t m))"
  by (cases rule: getAccount_cases [of m t]) (auto simp: extends_def put_account_def)

lemma extends_SetBudget: "extends None m (SetBudget t l m)"
  by (auto simp: extends_def SetBudget_def put_account_def Let_def)

lemma extends_commit: "reserve_commit t a m = (ok, m') \<Longrightarrow> extends None m m'"
  using extends_getAccount [of m t] by (auto simp: reserve_commit_def extends_def put_account_def split: if_splits)

lemma extends_settle:
  assumes "sound e m" and "reservations m k = Some r"
  shows "extends None m (settle r st c m)"
proof -
  obtain acc where "accounts m (ResTenant r) = Some acc" and "ResID r = k"
    using sound_entry [OF assms] by blast
  then show ?thesis using assms(2) by (auto simp: extends_def accounts_settle)
qed

text \<open>Settlement in terms of \<open>settle\<close>, from the invariant of the concurrent system.\<close>

lemma sound_applies:
  assumes "sound e m" and "reservations m k = Some r"
  shows "release_apply r m = (if ResStatus r = StateReserved then settle r StateReleased 0 m else m)"
    and "expire_apply k m = (if ResStatus r = StateReserved then settle r StateExpired 0 m else m)"
    and "snd (reconcile_apply r c m) =
      (if ResStatus r = StateReserved \<and> \<not> IsReconciled r then settle r StateReconciled c m else m)"
proof -
  obtain acc where "accounts m (ResTenant r) = Some acc" and "ResID r = k"
    using sound_entry [OF assms] by blast
  then show "release_apply r m = (if ResStatus r = StateReserved then settle r StateReleased 0 m else m)"
    and "expire_apply k m = (if ResStatus r = StateReserved then settle r StateExpired 0 m else m)"
    and "snd (reconcile_apply r c m) =
      (if ResStatus r = StateReserved \<and> \<not> IsReconciled r then settle r StateReconciled c m else m)"
    using assms(2)
    by (auto simp: release_apply_def expire_apply_def reconcile_apply_def settle_def getAccount_def)
qed

lemma sound_fair_reconcile:
  assumes "sound e m" and "reservations m k = Some r" and "fair (OpReconcile k c) m"
  shows "sound e (snd (reconcile_apply r c m)) \<and> extends None m (snd (reconcile_apply r c m))"
  using assms sound_settle [OF assms(1,2), of StateReconciled c] extends_settle [OF assms(1,2)]
  by (simp add: sound_applies [OF assms(1,2)]) (auto simp: extends_def)

lemma sound_free:
  assumes "sound e m" and "reservations m k = Some r"
  shows "sound e (release_apply r m)" "extends None m (release_apply r m)"
    and "sound e (expire_apply k m)" "extends None m (expire_apply k m)"
  using assms(1) sound_settle [OF assms, of StateReleased 0] sound_settle [OF assms, of StateExpired 0]
    extends_settle [OF assms, of StateReleased 0] extends_settle [OF assms, of StateExpired 0]
  by (simp_all add: sound_applies [OF assms]) (auto simp: extends_def)

text \<open>Every action keeps the invariant.\<close>

lemma exec_ok_quiet:
  assumes c: "conc_ok c" and i: "pool c i = Some pc" and e: "exec inp pc (mgr c) = (pc', m')"
    and fl: "flight pc' = flight pc" and ext: "extends None (mgr c) m'" and s: "sound (in_flight (pool c)) m'"
    and ok: "pc_ok pc' m'" and pub: "\<And>r. pc' \<noteq> ReservePublish r"
  shows "conc_ok \<lparr>mgr = m', pool = (pool c)(i \<mapsto> pc')\<rparr>"
proof -
  have "finite (dom (pool c))" using c by (simp add: conc_ok_def)
  with i fl s have "sound (in_flight ((pool c)(i \<mapsto> pc'))) m'" by (simp add: in_flight_same)
  with c i ext ok pub show ?thesis by (intro conc_frame) auto
qed

lemma exec_ok_check:
  assumes c: "conc_ok c" and i: "pool c i = Some (ReserveCheck t a ttl)" and a: "0 \<le> sint a"
    and e: "exec inp (ReserveCheck t a ttl) (mgr c) = (pc', m')"
  shows "conc_ok \<lparr>mgr = m', pool = (pool c)(i \<mapsto> pc')\<rparr>"
proof -
  obtain ok where rc: "reserve_commit t a (mgr c) = (ok, m')"
    and pc': "pc' = (if ok then ReserveNow t a ttl else Returned (AnsReserve (Inl ErrInsufficientBudget)))"
    using e by (auto simp: Let_def split: prod.splits)
  have fin: "finite (dom (pool c))" and s: "sound (in_flight (pool c)) (mgr c)"
    using c by (auto simp: conc_ok_def)
  have "in_flight ((pool c)(i \<mapsto> pc')) =
      (if ok then (in_flight (pool c))(t := in_flight (pool c) t + sint a) else in_flight (pool c))"
    by (rule ext) (auto simp: in_flight_update [OF fin i] pc' flies_for_def flight_amount_def)
  with sound_commit [OF s a rc] have "sound (in_flight ((pool c)(i \<mapsto> pc'))) m'" by simp
  with c i extends_commit [OF rc] a reserve_commit_sel(3) [OF rc] show ?thesis
    by (intro conc_frame) (auto simp: pc' split: if_splits)
qed

lemma exec_ok_name:
  assumes c: "conc_ok c" and i: "pool c i = Some (ReserveName t a ttl now)"
    and cnt: "unat (idCounter (mgr c)) < 2 ^ 64 - 1"
    and e: "exec inp (ReserveName t a ttl now) (mgr c) = (pc', m')"
  shows "conc_ok \<lparr>mgr = m', pool = (pool c)(i \<mapsto> pc')\<rparr>"
proof -
  let ?rid = "fst (nextID (reading inp) (mgr c))"
  have pc': "pc' = ReservePublish (new_reservation ?rid t a now ttl)"
    and m': "m' = (mgr c)\<lparr>idCounter := idCounter (mgr c) + 1\<rparr>"
    using e by (auto simp: nextID_def Let_def)
  have fin: "finite (dom (pool c))" and s: "sound (in_flight (pool c)) (mgr c)"
    using c by (auto simp: conc_ok_def)
  note fresh = nextID_fresh [OF cnt, of "reading inp"]
  have "reservations (mgr c) ?rid = None"
    using fresh(1) c unfolding conc_ok_def by blast
  then have "pc_ok pc' m'" using conc_pc_ok [OF c i] fresh(2) by (simp add: pc' m' new_reservation_def)
  moreover have "sound (in_flight ((pool c)(i \<mapsto> pc'))) m'"
    using s by (simp add: in_flight_same [OF fin i] pc' m' new_reservation_def)
  moreover have "extends None (mgr c) m'" using unat_succ [OF cnt] by (simp add: m' extends_def)
  ultimately show ?thesis using c i fresh(1)
    by (intro conc_frame) (auto simp: pc' new_reservation_def)
qed

lemma exec_ok_publish:
  assumes c: "conc_ok c" and i: "pool c i = Some (ReservePublish r)"
    and e: "exec inp (ReservePublish r) (mgr c) = (pc', m')"
  shows "conc_ok \<lparr>mgr = m', pool = (pool c)(i \<mapsto> pc')\<rparr>"
proof -
  have pc': "pc' = Returned (AnsReserve (Inr r))" and m': "m' = put_reservation r (mgr c)" using e by auto
  have fin: "finite (dom (pool c))" and s: "sound (in_flight (pool c)) (mgr c)"
    using c by (auto simp: conc_ok_def)
  have "in_flight ((pool c)(i \<mapsto> pc')) =
      (in_flight (pool c))(ResTenant r := in_flight (pool c) (ResTenant r) - sint (ResAmount r))"
    by (rule ext) (auto simp: in_flight_update [OF fin i] pc' flies_for_def flight_amount_def)
  moreover note sound_publish [OF s] conc_pc_ok [OF c i] own_flight [OF c i]
  ultimately have "sound (in_flight ((pool c)(i \<mapsto> pc'))) m'" by (simp add: m')
  moreover have "extends (Some (ResID r)) (mgr c) m'" by (auto simp: extends_def m' put_reservation_def)
  ultimately show ?thesis using c i by (intro conc_frame) (auto simp: pc')
qed

lemma exec_ok:
  assumes c: "conc_ok c" and i: "pool c i = Some pc" and ad: "admissible inp pc (mgr c)"
    and e: "exec inp pc (mgr c) = (pc', m')"
  shows "conc_ok \<lparr>mgr = m', pool = (pool c)(i \<mapsto> pc')\<rparr>"
proof -
  have s: "sound (in_flight (pool c)) (mgr c)" using c by (auto simp: conc_ok_def)
  have refl: "extends None (mgr c) (mgr c)" by (simp add: extends_def)
  note ok = conc_pc_ok [OF c i] and quiet = exec_ok_quiet [OF c i e]
  show ?thesis
  proof (cases pc)
    case (SetBudgetCall t l)
    with e ad s sound_SetBudget extends_SetBudget show ?thesis by (intro quiet) auto
  next
    case (ExposureCall t)
    with e s sound_getAccount extends_getAccount show ?thesis by (intro quiet) auto
  next
    case (ExposureRead t)
    with e have "m' = snd (getAccount t (mgr c))" "\<exists>xp. pc' = Returned (AnsExposure xp)" by (auto simp: Exposure_of_def split: prod.splits)
    with s sound_getAccount extends_getAccount ExposureRead show ?thesis by (intro quiet) auto
  next
    case (ReserveCall t a ttl)
    with e s sound_getAccount extends_getAccount show ?thesis by (intro quiet) auto
  next
    case (ReserveCheck t a ttl)
    with c i e ad show ?thesis by (intro exec_ok_check) auto
  next
    case (ReserveName t a ttl now)
    with c i e ad show ?thesis by (intro exec_ok_name) auto
  next
    case (ReservePublish r)
    with c i e show ?thesis by (intro exec_ok_publish) auto
  next
    case (ReleaseAccount k)
    with e s ok sound_getAccount extends_getAccount show ?thesis by (intro quiet) auto
  next
    case (ReleaseApply k)
    with ok obtain r where "reservations (mgr c) k = Some r" by auto
    with ReleaseApply e sound_free(1,2) [OF s this] show ?thesis by (intro quiet) auto
  next
    case (ReconcileAccount k x)
    with e s ok sound_getAccount extends_getAccount show ?thesis by (intro quiet) auto
  next
    case (ReconcileApply k x)
    with ok obtain r where r: "reservations (mgr c) k = Some r" by auto
    have "fair (OpReconcile k x) (mgr c)" using ad ReconcileApply by simp
    from ReconcileApply e r sound_fair_reconcile [OF s r this] show ?thesis
      by (intro quiet) (auto simp: Let_def case_prod_unfold)
  next
    case (ExpireNext ks n)
    with e s ok refl sound_getAccount extends_getAccount show ?thesis
      by (intro quiet; cases ks) auto
  next
    case (ExpireApply k ks n)
    with ok obtain r where r: "reservations (mgr c) k = Some r" by auto
    with ExpireApply e ok sound_free(3,4) [OF s r] show ?thesis
      by (intro quiet) (auto simp: extends_def)
  next
    case (ExpireScan now)
    with e s refl ad show ?thesis
      by (intro quiet) (auto simp: overdue_def split: option.splits)
  qed (rule quiet; use e s refl ok in \<open>auto split: option.splits\<close>)+
qed

lemma interleaving_ok: "interleaving c \<Longrightarrow> conc_ok c"
proof (induction rule: interleaving.induct)
  case conc_start
  have "in_flight Map.empty = (\<lambda>t. 0)" by (simp add: in_flight_def [abs_def])
  then show ?case using solvent_sound [OF solvent_New] by (simp add: conc_ok_def) (simp add: NewManager_def)
next
  case (conc_call c i pc)
  have "flight pc = None" "pc_ok pc (mgr c)" "\<And>r. pc \<noteq> ReservePublish r"
    using conc_call.hyps(3) by (cases pc; simp)+
  moreover from this have "in_flight ((pool c)(i \<mapsto> pc)) = in_flight (pool c)"
    using conc_call by (intro ext) (simp add: in_flight_def entries_sum_insert conc_ok_def flies_for_def)
  ultimately show ?case using conc_call.IH by (auto simp: conc_ok_def)
next
  case (conc_exec c i pc inp pc' m')
  then show ?case using exec_ok by blast
next
  case (conc_again c i ans pc)
  have fl: "flight pc = None" "pc_ok pc (mgr c)" "\<And>r. pc \<noteq> ReservePublish r"
    using conc_again.hyps(3) by (cases pc; simp)+
  have fin: "finite (dom (pool c))" using conc_again.IH by (simp add: conc_ok_def)
  have "in_flight ((pool c)(i \<mapsto> pc)) = in_flight (pool c)" using in_flight_same [OF fin conc_again.hyps(2)] fl(1) by simp
  with fl(2,3) conc_again.IH show ?case by (auto simp: conc_ok_def)
qed

section \<open>Properties\<close>

text \<open>
  C1: no interleaving of fair calls overspends. Any number of goroutines call any methods of the manager
  one after the other, in any order of their critical sections, under the conditions of \<open>admissible\<close>:
  non-negative amounts are reserved, every \<open>Reconcile\<close> of a reservation is at a cost from zero to its amount, no
  budget is set below what its account has reserved and settled, and fewer than \<open>2 ^ 64 - 1\<close> reservations are
  made. Then at every moment every account has reserved + settled within its limit, and its reserved counter
  is exactly the published reservations plus the amounts that goroutines have committed but not
  published yet.
\<close>

theorem interleavings_never_overspend:
  assumes "interleaving c" and "accounts (mgr c) t = Some acc"
  shows "0 \<le> sint (reserved acc) \<and> 0 \<le> sint (settled acc)
    \<and> sint (reserved acc) + sint (settled acc) \<le> sint (limit acc)
    \<and> sint (reserved acc) = entries_sum (holds_for t) (\<lambda>r. sint (ResAmount r)) (reservations (mgr c))
        + entries_sum (flies_for t) flight_amount (pool c)"
proof -
  have "sound (in_flight (pool c)) (mgr c)" using interleaving_ok [OF assms(1)] by (simp add: conc_ok_def)
  from sound_account [OF this assms(2)] show ?thesis
    unfolding within_limit_def int_held_def in_flight_def by blast
qed

text \<open>Two callers ask for 60 of a budget of 100; the first has committed, the second comes now.\<close>

definition race_pool :: "Pc \<Rightarrow> nat \<rightharpoonup> Pc" where
  "race_pool pc = [0 \<mapsto> Returned AnsDone, 1 \<mapsto> ReserveNow ''t'' 60 Second, 2 \<mapsto> pc]"

definition race_manager :: Manager where
  "race_manager = \<lparr>accounts = [''t'' \<mapsto> \<lparr>limit = 100, reserved = 60, settled = 0\<rparr>], reservations = Map.empty, idCounter = 0\<rparr>"

lemma race_reached: "interleaving \<lparr>mgr = race_manager, pool = race_pool (ReserveCall ''t'' 60 Second)\<rparr>"
proof -
  let ?inp = "\<lparr>reading = 0, scanned = []\<rparr>"
  note x = conc_exec [where inp = ?inp]
  have "interleaving \<lparr>mgr = NewManager, pool = [0 \<mapsto> SetBudgetCall ''t'' 100]\<rparr>"
    using conc_call [OF conc_start, of 0 "SetBudgetCall ''t'' 100"] by simp
  from x [OF this, of 0] have "interleaving \<lparr>mgr = SetBudget ''t'' 100 NewManager, pool = [0 \<mapsto> Returned AnsDone]\<rparr>"
    by (simp add: NewManager_def)
  from conc_call [OF this, of 1 "ReserveCall ''t'' 60 Second"]
  have "interleaving \<lparr>mgr = SetBudget ''t'' 100 NewManager, pool = [0 \<mapsto> Returned AnsDone, 1 \<mapsto> ReserveCall ''t'' 60 Second]\<rparr>"
    by simp
  from x [OF this, of 1]
  have "interleaving \<lparr>mgr = SetBudget ''t'' 100 NewManager, pool = [0 \<mapsto> Returned AnsDone, 1 \<mapsto> ReserveCheck ''t'' 60 Second]\<rparr>"
    by (simp add: op_defs NewManager_def account0_def)
  from x [OF this, of 1]
  have "interleaving \<lparr>mgr = race_manager, pool = [0 \<mapsto> Returned AnsDone, 1 \<mapsto> ReserveNow ''t'' 60 Second]\<rparr>"
    by (simp add: op_defs NewManager_def account0_def available_def go_simps race_manager_def)
  from conc_call [OF this, of 2 "ReserveCall ''t'' 60 Second"] show ?thesis by (simp add: race_pool_def)
qed

theorem interleavings_never_overspend_witness:
  "sint (60 :: int64) = entries_sum (holds_for ''t'') (\<lambda>r. sint (ResAmount r)) (reservations race_manager)
     + entries_sum (flies_for ''t'') flight_amount (race_pool (ReserveCall ''t'' 60 Second))"
  using interleavings_never_overspend [OF race_reached, of "''t''" "\<lparr>limit = 100, reserved = 60, settled = 0\<rparr>"]
  by (simp add: race_manager_def)

text \<open>
  The atomic actions are the operations: a goroutine that runs without interference performs
  exactly the sequential \<open>Reserve\<close>, \<open>Release\<close>, \<open>Reconcile\<close> and \<open>ExpireStale\<close>.
\<close>

theorem solo_runs_are_operations:
  "solo [i0, i1, i2, i3, i4] (ReserveCall t a ttl) m =
     (let (res, m') = Reserve (\<lambda>j. if j = 0 then reading i2 else reading i3) t a ttl m
      in (Returned (AnsReserve res), m'))
   \<and> solo [i0, i1, i2] (ReleaseCall k) m = (let (err, m') = Release k m in (Returned (AnsRelease err), m'))
   \<and> solo [i0, i1, i2] (ReconcileCall k cost) m =
     (let (rec, m') = Reconcile k cost m in (Returned (AnsReconcile rec), m'))
   \<and> solo (i0 # i1\<lparr>scanned := stale_ids (reading i0) order m\<rparr>
        # replicate (2 * length (stale_ids (reading i0) order m) + 1) i2) ExpireCall m =
     (let (n, m') = ExpireStale (reading i0) order m in (Returned (AnsExpire n), m'))"
  using solo_Reserve solo_Release solo_Reconcile
    solo_ExpireStale [of i0 "reading i0" "i1\<lparr>scanned := stale_ids (reading i0) order m\<rparr>" order m i2]
  by simp

end
