(* ===== verification/Window.thy ===== *)
theory Window
  imports GoTime Money
begin

text \<open>
  Rolling spend windows (\<open>internal/risk/window.go\<close>). Each reading of the clock is an argument
  of the operation that makes it, in the order of the program text; the mutexes are left out.
\<close>

record sample =
  sample_t :: time
  sample_cost :: micros

record RollingWindow =
  lookback :: duration
  samples :: "sample list"

definition NewRollingWindow :: "duration \<Rightarrow> RollingWindow" where
  "NewRollingWindow d = \<lparr>lookback = d, samples = []\<rparr>"

text \<open>The index loop of \<open>evictLocked\<close>: the first sample that is not before the cutoff.\<close>

fun evict_index :: "time \<Rightarrow> sample list \<Rightarrow> nat" where
  "evict_index cutoff [] = 0"
| "evict_index cutoff (s # ss) = (if Before (sample_t s) cutoff then Suc (evict_index cutoff ss) else 0)"

definition evictLocked :: "time \<Rightarrow> RollingWindow \<Rightarrow> RollingWindow" where
  "evictLocked now w =
     (let cutoff = time_Add now (- lookback w); i = evict_index cutoff (samples w)
      in if 0 < i then w\<lparr>samples := drop i (samples w)\<rparr> else w)"

definition window_Record :: "time \<Rightarrow> time \<Rightarrow> micros \<Rightarrow> RollingWindow \<Rightarrow> RollingWindow" where
  "window_Record t0 t1 cost w =
     evictLocked t1 (w\<lparr>samples := samples w @ [\<lparr>sample_t = t0, sample_cost = cost\<rparr>]\<rparr>)"

definition window_Sum :: "time \<Rightarrow> RollingWindow \<Rightarrow> micros \<times> RollingWindow" where
  "window_Sum now w =
     (let w = evictLocked now w in (foldl (\<lambda>total s. total + sample_cost s) 0 (samples w), w))"

definition window_Count :: "time \<Rightarrow> RollingWindow \<Rightarrow> nat \<times> RollingWindow" where
  "window_Count now w = (let w = evictLocked now w in (length (samples w), w))"

definition VelocityPerSec :: "time \<Rightarrow> RollingWindow \<Rightarrow> float64 \<times> RollingWindow" where
  "VelocityPerSec now w =
     (let (total, w) = window_Sum now w; secs = Seconds (lookback w)
      in if f_le secs (Fin 0) then (Fin 0, w) else (f_div (Float total) secs, w))"

record MultiWindowTracker =
  Short :: RollingWindow
  Medium :: RollingWindow
  Long :: RollingWindow
  Created :: time
  baseline :: float64
  initOnce :: bool

definition NewMultiWindowTrackerWithWindows :: "time \<Rightarrow> duration \<Rightarrow> duration \<Rightarrow> duration \<Rightarrow> MultiWindowTracker" where
  "NewMultiWindowTrackerWithWindows now short medium long =
     \<lparr>Short = NewRollingWindow short, Medium = NewRollingWindow medium, Long = NewRollingWindow long,
      Created = now, baseline = Fin 0, initOnce = False\<rparr>"

definition NewMultiWindowTracker :: "time \<Rightarrow> MultiWindowTracker" where
  "NewMultiWindowTracker now = NewMultiWindowTrackerWithWindows now (10 * Second) (60 * Second) (5 * Minute)"

text \<open>
  The constants \<open>alpha\<close> and \<open>1-alpha\<close> are exact at compile time and converted to \<open>float64\<close> where
  they meet a variable. \<open>initOnce\<close> is a \<open>sync.Once\<close>: true once its function has run.
\<close>

definition alpha :: float64 where "alpha = of_rat64 (2 / 100)"
definition one_minus_alpha :: float64 where "one_minus_alpha = of_rat64 (98 / 100)"

definition tracker_Record :: "clock \<Rightarrow> micros \<Rightarrow> MultiWindowTracker \<Rightarrow> MultiWindowTracker" where
  "tracker_Record clk cost t =
     (let t = t\<lparr>Short := window_Record (clk 0) (clk 1) cost (Short t)\<rparr>;
          t = t\<lparr>Medium := window_Record (clk 2) (clk 3) cost (Medium t)\<rparr>;
          t = t\<lparr>Long := window_Record (clk 4) (clk 5) cost (Long t)\<rparr>;
          (cur, long) = VelocityPerSec (clk 6) (Long t);
          t = t\<lparr>Long := long\<rparr>;
          t = (if initOnce t then t else t\<lparr>baseline := cur, initOnce := True\<rparr>)
      in t\<lparr>baseline := f_add (f_mul alpha cur) (f_mul one_minus_alpha (baseline t))\<rparr>)"

definition Baseline :: "MultiWindowTracker \<Rightarrow> float64" where
  "Baseline t = baseline t"

definition VelocityMultiplier :: "time \<Rightarrow> MultiWindowTracker \<Rightarrow> float64 \<times> MultiWindowTracker" where
  "VelocityMultiplier now t =
     (let base = Baseline t;
          (current, short) = VelocityPerSec now (Short t);
          t = t\<lparr>Short := short\<rparr>
      in if f_le base (Fin 0)
         then (if f_lt (Fin 0) current then (Fin 1, t) else (Fin 0, t))
         else (f_div current base, t))"

definition Acceleration_of :: "clock \<Rightarrow> MultiWindowTracker \<Rightarrow> float64 \<times> MultiWindowTracker" where
  "Acceleration_of clk t =
     (let (short, ws) = VelocityPerSec (clk 0) (Short t);
          t = t\<lparr>Short := ws\<rparr>;
          (medium, wm) = VelocityPerSec (clk 1) (Medium t);
          t = t\<lparr>Medium := wm\<rparr>
      in (f_sub short medium, t))"

definition ProjectedExposure_of :: "clock \<Rightarrow> micros \<Rightarrow> duration \<Rightarrow> MultiWindowTracker \<Rightarrow> micros \<times> MultiWindowTracker" where
  "ProjectedExposure_of clk currentExposure horizon t =
     (let (v, ws) = VelocityPerSec (clk 0) (Short t);
          t = t\<lparr>Short := ws\<rparr>;
          (a, t) = Acceleration_of (clock_from 1 clk) t;
          secs = Seconds horizon;
          linear = f_mul v secs;
          withAccel = f_add (f_mul v secs) (f_mul (f_mul (f_mul (Fin (1 / 2)) a) secs) secs);
          proj = (if f_lt linear withAccel then withAccel else linear);
          proj = (if f_lt proj (Fin 0) then Fin 0 else proj)
      in (currentExposure + FromFloat proj, t))"

section \<open>A window holds exactly the recent history\<close>

lemma evict_index_dropWhile: "drop (evict_index c ss) ss = dropWhile (\<lambda>s. Before (sample_t s) c) ss"
  by (induction c ss rule: evict_index.induct) auto

lemma samples_evict: "samples (evictLocked now w) =
    dropWhile (\<lambda>s. Before (sample_t s) (time_Add now (- lookback w))) (samples w)"
  by (simp add: evictLocked_def Let_def flip: evict_index_dropWhile)

lemma lookback_evict [simp]: "lookback (evictLocked now w) = lookback w"
  by (simp add: evictLocked_def Let_def)

text \<open>\<open>recent\<close> is the specification: the part of a history that is within the lookback.\<close>

definition recent :: "time \<Rightarrow> duration \<Rightarrow> sample list \<Rightarrow> sample list" where
  "recent now d hist = filter (\<lambda>s. now + sint (- d) \<le> sample_t s) hist"

lemma dropWhile_filter_sorted:
  "sorted (map sample_t ss) \<Longrightarrow> dropWhile (\<lambda>s. sample_t s < c) ss = filter (\<lambda>s. c \<le> sample_t s) ss"
proof (induction ss)
  case (Cons s ss)
  have "filter (\<lambda>s. c \<le> sample_t s) ss = ss" if "c \<le> sample_t s"
    using Cons.prems that by (intro filter_True) force
  with Cons show ?case by auto
qed simp

lemma samples_evict_filter:
  "sorted (map sample_t (samples w)) \<Longrightarrow> samples (evictLocked now w) = recent now (lookback w) (samples w)"
  by (simp add: samples_evict recent_def Before_def time_Add_def dropWhile_filter_sorted)

lemma recent_recent: "now \<le> now' \<Longrightarrow> recent now' d (recent now d hist) = recent now' d hist"
  unfolding recent_def filter_filter by (intro filter_cong) auto

lemma recent_append [simp]: "recent now d (h @ h') = recent now d h @ recent now d h'"
  by (simp add: recent_def)

lemma sorted_recent: "sorted (map sample_t h) \<Longrightarrow> sorted (map sample_t (recent now d h))"
  by (simp add: recent_def sorted_filter)

text \<open>A run: each entry is one \<open>Record\<close> with its two clock readings.\<close>

fun record_all :: "(time \<times> time \<times> micros) list \<Rightarrow> RollingWindow \<Rightarrow> RollingWindow" where
  "record_all [] w = w"
| "record_all ((t0, t1, c) # rs) w = record_all rs (window_Record t0 t1 c w)"

fun monotone_from :: "time \<Rightarrow> (time \<times> time \<times> micros) list \<Rightarrow> bool" where
  "monotone_from t [] = True"
| "monotone_from t ((t0, t1, c) # rs) = (t \<le> t0 \<and> t0 \<le> t1 \<and> monotone_from t1 rs)"

fun last_reading :: "time \<Rightarrow> (time \<times> time \<times> micros) list \<Rightarrow> time" where
  "last_reading t [] = t"
| "last_reading t ((t0, t1, c) # rs) = last_reading t1 rs"

definition history :: "(time \<times> time \<times> micros) list \<Rightarrow> sample list" where
  "history rs = map (\<lambda>(t0, t1, c). \<lparr>sample_t = t0, sample_cost = c\<rparr>) rs"

lemma record_window:
  assumes "samples w = recent t (lookback w) h" and "sorted (map sample_t h)" and "\<forall>s \<in> set h. sample_t s \<le> t"
    and "t \<le> t0" "t0 \<le> t1"
  shows "samples (window_Record t0 t1 c w) = recent t1 (lookback w) (h @ [\<lparr>sample_t = t0, sample_cost = c\<rparr>])"
proof -
  let ?s = "\<lparr>sample_t = t0, sample_cost = c\<rparr>"
  have "\<forall>s \<in> set (samples w). sample_t s \<le> t0" using assms by (auto simp: recent_def)
  then have "sorted (map sample_t (samples w @ [?s]))"
    using assms(1,2) sorted_recent by (auto simp: sorted_append)
  then have "samples (window_Record t0 t1 c w) = recent t1 (lookback w) (samples w @ [?s])"
    unfolding window_Record_def by (subst samples_evict_filter) auto
  then show ?thesis using assms by (simp add: recent_recent)
qed

lemma record_all_window:
  "samples w = recent t (lookback w) h \<Longrightarrow> sorted (map sample_t h) \<Longrightarrow> \<forall>s \<in> set h. sample_t s \<le> t \<Longrightarrow>
   monotone_from t rs \<Longrightarrow>
   samples (record_all rs w) = recent (last_reading t rs) (lookback w) (h @ history rs)
   \<and> lookback (record_all rs w) = lookback w \<and> sorted (map sample_t (h @ history rs))"
proof (induction t rs arbitrary: w h rule: monotone_from.induct)
  case (2 t t0 t1 c rs)
  let ?w = "window_Record t0 t1 c w" and ?s = "\<lparr>sample_t = t0, sample_cost = c\<rparr>"
  have lb: "lookback ?w = lookback w" by (simp add: window_Record_def)
  have "samples ?w = recent t1 (lookback ?w) (h @ [?s])"
    using 2 record_window [of w t h t0 t1 c] lb by simp
  moreover have "sorted (map sample_t (h @ [?s]))" "\<forall>s \<in> set (h @ [?s]). sample_t s \<le> t1"
    using 2 by (auto simp: sorted_append)
  moreover have "h @ history ((t0, t1, c) # rs) = (h @ [?s]) @ history rs" by (simp add: history_def)
  ultimately show ?case using "2.IH" [of ?w "h @ [?s]"] "2.prems" lb by (simp only: record_all.simps last_reading.simps) simp
qed (simp add: history_def)

text \<open>The specification of the sum, on words and on integers.\<close>

lemma foldl_costs: "foldl (\<lambda>total s. total + sample_cost s) z ss = z + (\<Sum>s\<leftarrow>ss. sample_cost s)"
  by (induction ss arbitrary: z) (simp_all add: add.assoc)

lemma window_Sum_recent:
  assumes "monotone_from t rs" and "last_reading t rs \<le> now"
  shows "window_Sum now (record_all rs (NewRollingWindow d)) =
    ((\<Sum>s\<leftarrow>recent now d (history rs). sample_cost s),
     \<lparr>lookback = d, samples = recent now d (history rs)\<rparr>)"
proof -
  let ?w = "record_all rs (NewRollingWindow d)"
  have w: "samples ?w = recent (last_reading t rs) d (history rs)" "lookback ?w = d"
    "sorted (map sample_t (history rs))"
    using record_all_window [of "NewRollingWindow d" t "[]" rs] assms(1)
    by (simp_all add: NewRollingWindow_def recent_def)
  then have "samples (evictLocked now ?w) = recent now d (history rs)"
    using assms(2) sorted_recent by (simp add: samples_evict_filter recent_recent)
  moreover have "evictLocked now ?w = \<lparr>lookback = d, samples = samples (evictLocked now ?w)\<rparr>"
    using w(2) by (cases "evictLocked now ?w") (metis RollingWindow.select_convs(1,2) lookback_evict)
  ultimately show ?thesis by (simp add: window_Sum_def Let_def foldl_costs)
qed

section \<open>The figures stay finite\<close>

lemma rnd_abs_le_pow: "\<bar>x\<bar> \<le> 2 ^ n \<Longrightarrow> \<bar>rnd x\<bar> \<le> 2 ^ n"
  using rnd_abs_le_powi [of x "int n"] by simp

lemma rnd_abs_le_fix: "\<bar>x\<bar> \<le> B \<Longrightarrow> rnd B = B \<Longrightarrow> \<bar>rnd x\<bar> \<le> B"
  using rnd_mono [of x B] rnd_mono [of "- B" x] by (auto simp: rnd_minus abs_le_iff)

text \<open>\<open>bounded n x\<close>: a finite number of magnitude at most \<open>2 ^ n\<close>.\<close>

definition bounded :: "nat \<Rightarrow> float64 \<Rightarrow> bool" where
  "bounded n x \<longleftrightarrow> (\<exists>r. x = Fin r \<and> \<bar>r\<bar> \<le> 2 ^ n)"

lemma of_rat64_bounded: "\<bar>x\<bar> \<le> 2 ^ n \<Longrightarrow> n \<le> 200 \<Longrightarrow> of_rat64 x = Fin (rnd x) \<and> \<bar>rnd x\<bar> \<le> 2 ^ n"
proof -
  assume x: "\<bar>x\<bar> \<le> 2 ^ n" and n: "n \<le> 200"
  have "(2 :: rat) ^ n \<le> 2 ^ 200" using n by (rule power_increasing) simp
  with x have "of_rat64 x = Fin (rnd x)" by (intro of_rat64_small) linarith
  with rnd_abs_le_pow [OF x] show ?thesis by simp
qed

lemma abs_sint_le: "\<bar>of_int (sint (a :: int64)) :: rat\<bar> \<le> 2 ^ 63"
proof -
  have "\<bar>sint a\<bar> \<le> 2 ^ 63" using sint_less_int64 [of a] sint_ge_int64 [of a] by simp
  then have "(of_int \<bar>sint a\<bar> :: rat) \<le> of_int (2 ^ 63)" by (simp only: of_int_le_iff)
  then show ?thesis by simp
qed

lemma Float_bounded: "bounded 63 (Float a)"
proof -
  have "\<bar>rnd (of_int (sint a))\<bar> \<le> 2 ^ 63" using abs_sint_le by (rule rnd_abs_le_pow)
  then have "\<bar>rnd (of_int (sint a)) / 1000000\<bar> \<le> 2 ^ 63" by simp
  then have "\<bar>rnd (rnd (of_int (sint a)) / 1000000)\<bar> \<le> 2 ^ 63" by (rule rnd_abs_le_pow)
  then show ?thesis by (simp add: bounded_def Float_Fin)
qed

lemma tiny: "rnd (1 / 2 ^ 30) = 1 / 2 ^ 30"
  using rnd_dyadic [of 1 "- 30"] by (simp add: power_int_minus_divide)

text \<open>A positive number of seconds is at least \<open>2 ^ -30\<close>, because a duration is at least 1 ns.\<close>

text \<open>\<open>Seconds\<close>: the whole seconds and the rounded fraction, added and rounded; nothing overflows.\<close>

lemma Seconds_Fin:
  fixes d :: duration
  defines "s \<equiv> sgn (sint d) * (\<bar>sint d\<bar> div 1000000000)" and "ns \<equiv> sgn (sint d) * (\<bar>sint d\<bar> mod 1000000000)"
  shows "Seconds d = Fin (rnd (of_int s + rnd (of_int ns / 1000000000)))"
proof -
  have n: "\<bar>sint d\<bar> \<le> 2 ^ 63" using sint_less_int64 [of d] sint_ge_int64 [of d] by simp
  have s: "\<bar>s\<bar> \<le> 2 ^ 34" and ns: "\<bar>ns\<bar> < 1000000000"
    using n by (auto simp: s_def ns_def abs_mult sgn_if)
  have "(of_int \<bar>s\<bar> :: rat) \<le> of_int (2 ^ 34)" "(of_int \<bar>ns\<bar> :: rat) \<le> of_int 1000000000"
    using s ns by (simp_all only: of_int_le_iff)
  then have sR: "\<bar>of_int s :: rat\<bar> \<le> 2 ^ 34" and nsR: "\<bar>of_int ns / 1000000000 :: rat\<bar> \<le> 2 ^ 0" by simp_all
  have ns1: "rnd (of_int ns) = of_int ns" and s1: "rnd (of_int s) = of_int s" using s ns by (intro rnd_of_int; simp)+
  note q = of_rat64_bounded [OF nsR]
  have "\<bar>of_int s + rnd (of_int ns / 1000000000) :: rat\<bar> \<le> 2 ^ 35"
    using sR q abs_triangle_ineq [of "of_int s" "rnd (of_int ns / 1000000000)"] by simp
  note t = of_rat64_bounded [OF this]
  have "of_rat64 (of_int ns) = Fin (of_int ns)" using of_rat64_bounded [of "of_int ns" 63] ns1 ns by simp
  moreover have "of_rat64 (of_int s) = Fin (of_int s)" using of_rat64_bounded [OF sR] s1 by simp
  ultimately show ?thesis using q t by (simp add: Seconds_def Let_def s_def ns_def)
qed

lemma Seconds_cases:
  obtains (nonpos) s where "Seconds d = Fin s" "s \<le> 0"
    | (pos) s where "Seconds d = Fin s" "1 / 2 ^ 30 \<le> s"
proof -
  define n where "n = sint d"
  define s where "s = sgn n * (\<bar>n\<bar> div 1000000000)"
  define ns where "ns = sgn n * (\<bar>n\<bar> mod 1000000000)"
  have eq: "Seconds d = Fin (rnd (of_int s + rnd (of_int ns / 1000000000)))" unfolding s_def ns_def n_def by (rule Seconds_Fin)
  show thesis
  proof (cases "0 < n")
    case False
    then have "of_int s \<le> (0 :: rat)" and "of_int ns \<le> (0 :: rat)" by (auto simp: s_def ns_def sgn_if)
    then have "of_int s + rnd (of_int ns / 1000000000) \<le> 0"
      using rnd_mono [of "of_int ns / 1000000000" 0] by simp
    then show thesis using rnd_mono [of _ 0] by (intro nonpos [OF eq]) fastforce
  next
    case True
    have "1 / 2 ^ 30 \<le> of_int s + rnd (of_int ns / 1000000000)"
    proof (cases "1 \<le> s")
      case True
      then have "(1 :: rat) \<le> of_int s" by simp
      moreover have "0 \<le> rnd (of_int ns / 1000000000)" using \<open>0 < n\<close> by (intro rnd_nonneg) (simp add: ns_def)
      ultimately show ?thesis by simp
    next
      case False
      then have "s = 0" "1 \<le> ns" using \<open>0 < n\<close> by (auto simp: s_def ns_def)
      then have "(1 :: rat) \<le> of_int ns" by simp
      then have "1 / 2 ^ 30 \<le> (of_int ns / 1000000000 :: rat)" by simp
      then show ?thesis using tiny rnd_mono \<open>s = 0\<close> by fastforce
    qed
    then show thesis using tiny rnd_mono by (intro pos [OF eq]) fastforce
  qed
qed

lemma VelocityPerSec_bounded: "bounded 93 (fst (VelocityPerSec now w))"
proof (cases rule: Seconds_cases [of "lookback w"])
  case (nonpos s)
  then show ?thesis by (simp add: VelocityPerSec_def window_Sum_def Let_def bounded_def)
next
  case (pos s)
  obtain x where x: "Float (fst (window_Sum now w)) = Fin x" "\<bar>x\<bar> \<le> 2 ^ 63"
    using Float_bounded by (auto simp: bounded_def)
  have s0: "0 < s" using pos(2) by (rule less_le_trans [rotated]) simp
  have "\<bar>x / s\<bar> \<le> 2 ^ 63 / (1 / 2 ^ 30)"
    using x(2) pos(2) s0 by (simp only: abs_divide abs_of_pos) (rule frac_le, simp_all)
  also have "\<dots> = 2 ^ 93" by simp
  finally have "\<bar>x / s\<bar> \<le> 2 ^ 93" .
  from of_rat64_bounded [OF this] pos s0 x(1) show ?thesis
    by (auto simp: VelocityPerSec_def bounded_def Let_def window_Sum_def split: prod.splits)
qed

lemma alpha_dyadic: "alpha = Fin (5764607523034235 / 2 ^ 58)"
  and one_minus_alpha_dyadic: "one_minus_alpha = Fin (8827055269646172 / 2 ^ 53)"
  by code_simp+

lemma scaled_mult:
  assumes "\<bar>x\<bar> \<le> 2 ^ 93" and "\<bar>n\<bar> \<le> 2 ^ 53" and "k \<le> 93"
  shows "\<exists>y. f_mul (Fin (of_int n / 2 ^ k)) (Fin x) = Fin y \<and> \<bar>y\<bar> \<le> of_int \<bar>n\<bar> * 2 ^ (93 - k)"
proof -
  have p: "(2 :: rat) ^ 93 = 2 ^ (93 - k) * 2 ^ k" using assms(3) by (simp flip: power_add)
  have "\<bar>of_int n / 2 ^ k * x\<bar> = of_int \<bar>n\<bar> * \<bar>x\<bar> / 2 ^ k" by (simp add: abs_mult)
  also have "\<dots> \<le> of_int \<bar>n\<bar> * 2 ^ 93 / 2 ^ k" using assms(1) by (intro divide_right_mono mult_left_mono) simp_all
  also have "\<dots> = of_int \<bar>n\<bar> * 2 ^ (93 - k)" by (simp only: p) simp
  finally have b: "\<bar>of_int n / 2 ^ k * x\<bar> \<le> of_int \<bar>n\<bar> * 2 ^ (93 - k)" .
  have d: "rnd (of_int \<bar>n\<bar> * 2 ^ (93 - k)) = of_int \<bar>n\<bar> * 2 ^ (93 - k)"
    using rnd_dyadic [of "\<bar>n\<bar>" "int (93 - k)"] assms(2) by simp
  have "\<bar>rnd (of_int n / 2 ^ k * x)\<bar> \<le> of_int \<bar>n\<bar> * 2 ^ (93 - k)"
    using b by (rule rnd_abs_le_fix [OF _ d])
  moreover have "of_rat64 (of_int n / 2 ^ k * x) = Fin (rnd (of_int n / 2 ^ k * x))"
  proof (rule of_rat64_small)
    have "(of_int \<bar>n\<bar> :: rat) \<le> of_int (2 ^ 53)" using assms(2) by (simp only: of_int_le_iff)
    then have "of_int \<bar>n\<bar> * 2 ^ (93 - k) \<le> (2 ^ 53 * 2 ^ 93 :: rat)"
      by (intro mult_mono power_increasing) simp_all
    also have "\<dots> \<le> 2 ^ 200" by simp
    finally show "\<bar>of_int n / 2 ^ k * x\<bar> \<le> 2 ^ 200" using b by linarith
  qed
  ultimately show ?thesis by simp
qed

text \<open>The two constants add up to less than 1, so the moving average stays in the bound of its inputs.\<close>

lemma ewma_bounded:
  assumes "bounded 93 cur" and "bounded 93 base"
  shows "bounded 93 (f_add (f_mul alpha cur) (f_mul one_minus_alpha base))"
proof -
  obtain v b where v: "cur = Fin v" "\<bar>v\<bar> \<le> 2 ^ 93" and b: "base = Fin b" "\<bar>b\<bar> \<le> 2 ^ 93"
    using assms by (auto simp: bounded_def)
  obtain y where y: "f_mul alpha cur = Fin y" "\<bar>y\<bar> \<le> 5764607523034235 * 2 ^ 35"
    using scaled_mult [OF v(2), of 5764607523034235 58] by (auto simp: v(1) alpha_dyadic)
  obtain z where z: "f_mul one_minus_alpha base = Fin z" "\<bar>z\<bar> \<le> 8827055269646172 * 2 ^ 40"
    using scaled_mult [OF b(2), of 8827055269646172 53] by (auto simp: b(1) one_minus_alpha_dyadic)
  have "\<bar>y + z\<bar> \<le> 2 ^ 93" using y(2) z(2) abs_triangle_ineq [of y z] by simp
  from of_rat64_bounded [OF this] y z show ?thesis by (simp add: bounded_def)
qed

lemma tracker_Record_bounded:
  assumes "bounded 93 (baseline t)"
  shows "bounded 93 (baseline (tracker_Record clk c t))"
proof -
  let ?long = "window_Record (clk 4) (clk 5) c (Long t)"
  have "baseline (tracker_Record clk c t) = f_add (f_mul alpha (fst (VelocityPerSec (clk 6) ?long)))
      (f_mul one_minus_alpha (if initOnce t then baseline t else fst (VelocityPerSec (clk 6) ?long)))"
    by (simp add: tracker_Record_def Let_def split: prod.splits)
  then show ?thesis using VelocityPerSec_bounded assms by (auto intro!: ewma_bounded)
qed

text \<open>The trackers of a running system.\<close>

inductive tracker_reach :: "MultiWindowTracker \<Rightarrow> bool" where
  tracker_new: "tracker_reach (NewMultiWindowTrackerWithWindows now short medium long)"
| tracker_record: "tracker_reach t \<Longrightarrow> tracker_reach (tracker_Record clk cost t)"
| tracker_multiplier: "tracker_reach t \<Longrightarrow> tracker_reach (snd (VelocityMultiplier now t))"
| tracker_acceleration: "tracker_reach t \<Longrightarrow> tracker_reach (snd (Acceleration_of clk t))"
| tracker_projection: "tracker_reach t \<Longrightarrow> tracker_reach (snd (ProjectedExposure_of clk cur horizon t))"

lemma baseline_queries [simp]:
  "baseline (snd (VelocityMultiplier now t)) = baseline t"
  "baseline (snd (Acceleration_of clk t)) = baseline t"
  "baseline (snd (ProjectedExposure_of clk cur horizon t)) = baseline t"
  by (simp_all add: VelocityMultiplier_def Acceleration_of_def ProjectedExposure_of_def Let_def split: prod.splits)

lemma tracker_bounded: "tracker_reach t \<Longrightarrow> bounded 93 (baseline t)"
proof (induction rule: tracker_reach.induct)
  case (tracker_new now short medium long)
  then show ?case by (simp add: NewMultiWindowTrackerWithWindows_def bounded_def)
qed (simp_all add: tracker_Record_bounded)

lemma sub_finite: "bounded 93 x \<Longrightarrow> bounded 93 y \<Longrightarrow> bounded 94 (f_sub x y)"
proof -
  assume "bounded 93 x" "bounded 93 y"
  then obtain a b where ab: "x = Fin a" "y = Fin b" "\<bar>a\<bar> \<le> 2 ^ 93" "\<bar>b\<bar> \<le> 2 ^ 93" by (auto simp: bounded_def)
  then have "\<bar>a + - b\<bar> \<le> 2 ^ 94" using abs_triangle_ineq [of a "- b"] by simp
  from of_rat64_bounded [OF this] ab show ?thesis by (simp add: f_sub_def bounded_def)
qed

lemma Acceleration_bounded: "bounded 94 (fst (Acceleration_of clk t))"
proof -
  have "fst (Acceleration_of clk t) =
      f_sub (fst (VelocityPerSec (clk 0) (Short t))) (fst (VelocityPerSec (clk 1) (Medium t)))"
    by (simp add: Acceleration_of_def Let_def split: prod.splits)
  then show ?thesis using VelocityPerSec_bounded sub_finite by simp
qed

lemma VelocityMultiplier_not_NaN:
  assumes "bounded 93 (baseline t)"
  shows "fst (VelocityMultiplier now t) \<noteq> NaN"
proof -
  obtain b where b: "baseline t = Fin b" using assms by (auto simp: bounded_def)
  obtain v where v: "fst (VelocityPerSec now (Short t)) = Fin v"
    using VelocityPerSec_bounded [of now "Short t"] by (auto simp: bounded_def)
  have "of_rat64 q \<noteq> NaN" for q by (simp add: of_rat64_def Let_def)
  with b v show ?thesis
    by (auto simp: VelocityMultiplier_def Baseline_def Let_def split: prod.splits)
qed

section \<open>Properties\<close>

text \<open>
  C32: a rolling window is exact: after any number of \<open>Record\<close> calls under a clock that does not
  go back, \<open>Sum\<close> is the total cost and \<open>Count\<close> the number of exactly those recorded samples of the
  whole history that are not older than the lookback; the eviction on the way has lost nothing
  that is still due and kept nothing that is not.
\<close>

theorem window_exact:
  assumes "monotone_from t rs" and "last_reading t rs \<le> now"
  shows "fst (window_Sum now (record_all rs (NewRollingWindow d))) =
      (\<Sum>(t0, t1, c)\<leftarrow>filter (\<lambda>(t0, t1, c). now + sint (- d) \<le> t0) rs. c)
    \<and> fst (window_Count now (record_all rs (NewRollingWindow d))) =
      length (filter (\<lambda>(t0, t1, c). now + sint (- d) \<le> t0) rs)"
proof -
  have h: "recent now d (history rs) = history (filter (\<lambda>(t0, t1, c). now + sint (- d) \<le> t0) rs)"
    by (induction rs) (auto simp: recent_def history_def)
  have "fst (window_Count now (record_all rs (NewRollingWindow d))) = length (recent now d (history rs))"
    using window_Sum_recent [OF assms, of d] by (simp add: window_Count_def window_Sum_def Let_def)
  then show ?thesis
    using window_Sum_recent [OF assms, of d]
    by (simp add: h) (simp add: history_def comp_def case_prod_unfold)
qed

theorem window_exact_witness:
  "fst (window_Sum 11000000000 (record_all [(1, 2, 5), (9000000000, 9000000001, 7)] (NewRollingWindow (10 * Second)))) = 7"
  using window_exact [of 0 "[(1, 2, 5), (9000000000, 9000000001, 7)]" 11000000000 "10 * Second"]
  by simp


text \<open>
  The figures of the risk engine are numbers: whatever costs are recorded, at whatever clock
  readings and for any window lengths, also if sums wrap around, the learned baseline is finite and
  the acceleration is finite (at most \<open>2 ^ 93\<close> and \<open>2 ^ 94\<close> in magnitude), and the velocity
  multiplier is never NaN.
\<close>

theorem velocity_figures_finite:
  assumes "tracker_reach t"
  shows "(\<exists>b. Baseline t = Fin b \<and> \<bar>b\<bar> \<le> 2 ^ 93)
    \<and> (\<exists>a. fst (Acceleration_of clk t) = Fin a \<and> \<bar>a\<bar> \<le> 2 ^ 94)
    \<and> fst (VelocityMultiplier now t) \<noteq> NaN"
  using tracker_bounded [OF assms] Acceleration_bounded [of clk t] VelocityMultiplier_not_NaN
  unfolding bounded_def Baseline_def by blast

theorem velocity_figures_finite_witness:
  "fst (VelocityMultiplier 7 (tracker_Record (\<lambda>i. 5) 40 (NewMultiWindowTracker 3))) \<noteq> NaN"
proof -
  have "tracker_reach (tracker_Record (\<lambda>i. 5) 40 (NewMultiWindowTracker 3))"
    unfolding NewMultiWindowTracker_def by (intro tracker_record tracker_new)
  from velocity_figures_finite [OF this] show ?thesis by blast
qed

end
