(* ===== verification/Risk.thy ===== *)
theory Risk
  imports Window Circuit Solvency
begin

text \<open>
  The risk engine (\<open>internal/risk/engine.go\<close>). The engine and the gateway share one reservation
  manager by pointer, so the manager is passed beside the engine. A per-tenant state is created on
  first use and only changed in place: the map holds it by value. \<open>LevelNone\<close> is the empty
  string, the zero value of \<open>Level\<close> in decisions that were not scored; Go's \<open>int\<close> is \<open>int64\<close>.
\<close>

datatype Action = ActionAllow | ActionAllowWithLimit | ActionThrottle | ActionBlock | ActionKillSwitch

datatype Level = LevelNone | LevelLow | LevelMedium | LevelHigh | LevelCritical

text \<open>Levels are ordered by severity, in the order of their declaration.\<close>

primrec severity :: "Level \<Rightarrow> nat" where
  "severity LevelNone = 0"
| "severity LevelLow = 1"
| "severity LevelMedium = 2"
| "severity LevelHigh = 3"
| "severity LevelCritical = 4"

lemma severity_inject: "severity a = severity b \<Longrightarrow> a = b"
  by (cases a; cases b) simp_all

instantiation Level :: linorder
begin

definition less_eq_Level :: "Level \<Rightarrow> Level \<Rightarrow> bool" where
  "less_eq_Level a b \<longleftrightarrow> severity a \<le> severity b"

definition less_Level :: "Level \<Rightarrow> Level \<Rightarrow> bool" where
  "less_Level a b \<longleftrightarrow> severity a < severity b"

instance
  by standard (auto simp: less_eq_Level_def less_Level_def intro: severity_inject)

end

record Weights =
  wBudgetUtilization :: float64
  wVelocity :: float64
  wAcceleration :: float64
  wConcurrency :: float64

definition DefaultWeights :: Weights where
  "DefaultWeights = \<lparr>wBudgetUtilization = of_rat64 (30 / 100), wVelocity = of_rat64 (40 / 100),
     wAcceleration = of_rat64 (20 / 100), wConcurrency = of_rat64 (10 / 100)\<rparr>"

record Policy =
  PWeights :: Weights
  VelocityTargetMult :: float64
  MaxConcurrency :: int64
  WarnThreshold :: int64
  BlockThreshold :: int64
  ThrottleThreshold :: int64
  ReservationTTL :: duration
  CircuitCooldown :: duration
  ProjectionHorizon :: duration
  ShortWindow :: duration
  MediumWindow :: duration
  LongWindow :: duration

definition DefaultPolicy :: Policy where
  "DefaultPolicy = \<lparr>PWeights = DefaultWeights, VelocityTargetMult = Fin 20, MaxConcurrency = 50,
     WarnThreshold = 70, BlockThreshold = 90, ThrottleThreshold = 70,
     ReservationTTL = 30 * Second, CircuitCooldown = 15 * Second, ProjectionHorizon = 60 * Second,
     ShortWindow = 10 * Second, MediumWindow = 60 * Second, LongWindow = 5 * Minute\<rparr>"

record RiskRequest =
  ReqTenant :: string
  ReqRoute :: string
  ReqProvider :: string
  ReqEstimate :: micros
  ReqConcurrency :: int64

record Decision =
  DAction :: Action
  DEstimatedCost :: micros
  DCurrentExposure :: micros
  DReservedExposure :: micros
  DRemainingBudget :: micros
  DRiskScore :: int64
  DRiskLevel :: Level
  DVelocityMult :: float64
  DAcceleration :: float64
  DProjectedExposure :: micros
  DRuleTriggered :: string
  DReservationID :: string
  DCircuitState :: BState
  DReason :: string

record tenantState =
  tracker :: MultiWindowTracker
  breaker :: Breaker

record Engine =
  tenants :: "string \<rightharpoonup> tenantState"
  policy :: Policy
  killAll :: bool
  killTenant :: "string \<Rightarrow> bool"
  killProvider :: "string \<Rightarrow> bool"

definition NewEngine :: "Policy \<Rightarrow> Engine" where
  "NewEngine p = \<lparr>tenants = Map.empty, policy = p, killAll = False, killTenant = (\<lambda>_. False), killProvider = (\<lambda>_. False)\<rparr>"

definition put_tenant :: "string \<Rightarrow> tenantState \<Rightarrow> Engine \<Rightarrow> Engine" where
  "put_tenant t ts e = e\<lparr>tenants := (tenants e)(t \<mapsto> ts)\<rparr>"

definition stateFor :: "time \<Rightarrow> string \<Rightarrow> Engine \<Rightarrow> tenantState \<times> Engine" where
  "stateFor now tenantID e =
     (case tenants e tenantID of
        Some ts \<Rightarrow> (ts, e)
      | None \<Rightarrow>
          (let ts = \<lparr>tracker = NewMultiWindowTrackerWithWindows now (ShortWindow (policy e))
                        (MediumWindow (policy e)) (LongWindow (policy e)),
                     breaker = circuit_New (CircuitCooldown (policy e))\<rparr>
           in (ts, put_tenant tenantID ts e)))"

definition KillAll :: "bool \<Rightarrow> Engine \<Rightarrow> Engine" where
  "KillAll on e = e\<lparr>killAll := on\<rparr>"

definition KillTenant :: "string \<Rightarrow> bool \<Rightarrow> Engine \<Rightarrow> Engine" where
  "KillTenant tenantID on e = e\<lparr>killTenant := (killTenant e)(tenantID := on)\<rparr>"

definition KillProvider :: "string \<Rightarrow> bool \<Rightarrow> Engine \<Rightarrow> Engine" where
  "KillProvider provider on e = e\<lparr>killProvider := (killProvider e)(provider := on)\<rparr>"

definition killSwitchActive :: "string \<Rightarrow> string \<Rightarrow> Engine \<Rightarrow> bool" where
  "killSwitchActive tenantID provider e \<longleftrightarrow> killAll e \<or> killTenant e tenantID \<or> killProvider e provider"

definition levelFor :: "int64 \<Rightarrow> Level" where
  "levelFor score =
     (if 90 \<le>s score then LevelCritical else if 70 \<le>s score then LevelHigh
      else if 40 \<le>s score then LevelMedium else LevelLow)"

definition clamp01 :: "float64 \<Rightarrow> float64" where
  "clamp01 f = (if f_lt f (Fin 0) then Fin 0 else if f_lt (Fin 1) f then Fin 1 else f)"

text \<open>\<open>score\<close>: the four subscores, the weighted total and the rule.\<close>

definition budget_sub :: "RiskRequest \<Rightarrow> Exposure \<Rightarrow> float64" where
  "budget_sub req xp =
     (if 0 <s ExpLimit xp
      then f_mul (clamp01 (f_div (Float (ExpReserved xp + ExpSettled xp + ReqEstimate req)) (Float (ExpLimit xp)))) (Fin 100)
      else Fin 0)"

definition velocity_sub :: "Policy \<Rightarrow> float64 \<Rightarrow> float64" where
  "velocity_sub p velocityMult = f_mul (clamp01 (f_div velocityMult (VelocityTargetMult p))) (Fin 100)"

definition accel_sub :: "float64 \<Rightarrow> float64 \<Rightarrow> float64" where
  "accel_sub base accel =
     (if f_lt (Fin 0) accel
      then let denom = (if f_le base (Fin 0) then Fin 1 else base) in f_mul (clamp01 (f_div accel denom)) (Fin 100)
      else Fin 0)"

definition concurrency_sub :: "Policy \<Rightarrow> RiskRequest \<Rightarrow> float64" where
  "concurrency_sub p req =
     (if 0 <s MaxConcurrency p
      then f_mul (clamp01 (f_div (of_int64 (ReqConcurrency req)) (of_int64 (MaxConcurrency p)))) (Fin 100)
      else Fin 0)"

definition weighted_total :: "Weights \<Rightarrow> float64 \<Rightarrow> float64 \<Rightarrow> float64 \<Rightarrow> float64 \<Rightarrow> float64" where
  "weighted_total w b v a c =
     f_add (f_add (f_add (f_mul (wBudgetUtilization w) b) (f_mul (wVelocity w) v)) (f_mul (wAcceleration w) a))
       (f_mul (wConcurrency w) c)"

definition clamp_score :: "int64 \<Rightarrow> int64" where
  "clamp_score s = (let s = (if 100 <s s then 100 else s) in if s <s 0 then 0 else s)"

definition score :: "Policy \<Rightarrow> RiskRequest \<Rightarrow> MultiWindowTracker \<Rightarrow> Exposure \<Rightarrow> float64 \<Rightarrow> float64 \<Rightarrow> int64 \<times> string" where
  "score p req trk xp velocityMult accel =
     (let b = budget_sub req xp;
          v = velocity_sub p velocityMult;
          a = accel_sub (Baseline trk) accel;
          c = concurrency_sub p req;
          total = weighted_total (PWeights p) b v a c;
          rule = (if f_le (Fin 99) b then ''BUDGET_EXHAUSTED''
                  else if f_le (Fin 99) v then ''ABNORMAL_SPEND_ACCELERATION''
                  else if f_le (Fin 80) a then ''SUSTAINED_ACCELERATION''
                  else ''COMPOSITE_SCORE'')
      in (clamp_score (to_int64 total), rule))"

definition decision0 :: "Action \<Rightarrow> micros \<Rightarrow> BState \<Rightarrow> string \<Rightarrow> string \<Rightarrow> Decision" where
  "decision0 act est st rule reason =
     \<lparr>DAction = act, DEstimatedCost = est, DCurrentExposure = 0, DReservedExposure = 0, DRemainingBudget = 0,
      DRiskScore = 0, DRiskLevel = LevelNone, DVelocityMult = Fin 0, DAcceleration = Fin 0, DProjectedExposure = 0,
      DRuleTriggered = rule, DReservationID = '''', DCircuitState = st, DReason = reason\<rparr>"

text \<open>
  \<open>Evaluate\<close>, with its clock readings numbered by their place in the text: the kill switch, the
  circuit gate, the figures and the score, and the switch on the score.
\<close>

definition evaluate_killed :: "clock \<Rightarrow> RiskRequest \<Rightarrow> tenantState \<Rightarrow> Manager \<Rightarrow> Decision \<times> tenantState \<times> Manager" where
  "evaluate_killed clk req ts m =
     (let ts = ts\<lparr>breaker := Trip (clk 1) (breaker ts)\<rparr>;
          (st, b) = State (clk 2) (breaker ts)
      in (decision0 ActionKillSwitch (ReqEstimate req) st ''KILL_SWITCH_ACTIVE''
            ''kill switch is active for this tenant/provider'', ts\<lparr>breaker := b\<rparr>, m))"

definition evaluate_open :: "clock \<Rightarrow> RiskRequest \<Rightarrow> tenantState \<Rightarrow> Manager \<Rightarrow> Decision \<times> tenantState \<times> Manager" where
  "evaluate_open clk req ts m =
     (let (xp, m) = Exposure_of (ReqTenant req) m;
          (st, b) = State (clk 4) (breaker ts)
      in ((decision0 ActionBlock (ReqEstimate req) st ''CIRCUIT_OPEN''
             ''circuit breaker is open; rejecting without evaluating further'')
            \<lparr>DCurrentExposure := ExpSettled xp, DReservedExposure := ExpReserved xp,
             DRemainingBudget := ExpAvailable xp\<rparr>,
          ts\<lparr>breaker := b\<rparr>, m))"

definition evaluate_figures :: "clock \<Rightarrow> Policy \<Rightarrow> RiskRequest \<Rightarrow> tenantState \<Rightarrow> Manager \<Rightarrow> Decision \<times> tenantState \<times> Manager" where
  "evaluate_figures clk p req ts m =
     (let (velocityMult, trk) = VelocityMultiplier (clk 5) (tracker ts);
          (accel, trk) = Acceleration_of (clock_from 6 clk) trk;
          (xp, m) = Exposure_of (ReqTenant req) m;
          (projected, trk) = ProjectedExposure_of (clock_from 8 clk) (ExpSettled xp + ExpReserved xp) (ProjectionHorizon p) trk;
          (sc, rule) = score p req trk xp velocityMult accel;
          (st, b) = State (clk 11) (breaker ts)
      in (\<lparr>DAction = ActionAllow, DEstimatedCost = ReqEstimate req, DCurrentExposure = ExpSettled xp,
           DReservedExposure = ExpReserved xp, DRemainingBudget = ExpAvailable xp,
           DRiskScore = sc, DRiskLevel = levelFor sc, DVelocityMult = velocityMult, DAcceleration = accel,
           DProjectedExposure = projected, DRuleTriggered = rule, DReservationID = '''',
           DCircuitState = st, DReason = ''''\<rparr>,
          \<lparr>tracker = trk, breaker = b\<rparr>, m))"

definition decide_block :: "clock \<Rightarrow> Decision \<Rightarrow> tenantState \<Rightarrow> Manager \<Rightarrow> Decision \<times> tenantState \<times> Manager" where
  "decide_block clk d ts m =
     (let d = d\<lparr>DAction := ActionBlock, DReason := ''risk score at or above block threshold''\<rparr>;
          ts = ts\<lparr>breaker := ReportFailure (clk 12) (breaker ts)\<rparr>
      in if levelFor (DRiskScore d) = LevelCritical
         then let ts = ts\<lparr>breaker := Trip (clk 13) (breaker ts)\<rparr>;
                  (st, b) = State (clk 14) (breaker ts)
              in (d\<lparr>DCircuitState := st\<rparr>, ts\<lparr>breaker := b\<rparr>, m)
         else (d, ts, m))"

definition decide_throttle :: "clock \<Rightarrow> Policy \<Rightarrow> RiskRequest \<Rightarrow> Decision \<Rightarrow> tenantState \<Rightarrow> Manager \<Rightarrow> Decision \<times> tenantState \<times> Manager" where
  "decide_throttle clk p req d ts m =
     (case Reserve (clock_from 15 clk) (ReqTenant req) (ReqEstimate req) (ReservationTTL p) m of
        (Inl err, m) \<Rightarrow>
          (d\<lparr>DAction := ActionBlock, DRuleTriggered := ''INSUFFICIENT_BUDGET'',
             DReason := ''throttled request could not be covered by remaining budget: '' @ ResError_String err\<rparr>,
           ts\<lparr>breaker := ReportFailure (clk 17) (breaker ts)\<rparr>, m)
      | (Inr r, m) \<Rightarrow>
          (d\<lparr>DAction := ActionThrottle, DReason := ''risk score at or above throttle threshold'', DReservationID := ResID r\<rparr>,
           ts\<lparr>breaker := ReportSuccess (breaker ts)\<rparr>, m))"

definition decide_allow :: "clock \<Rightarrow> Policy \<Rightarrow> RiskRequest \<Rightarrow> Decision \<Rightarrow> tenantState \<Rightarrow> Manager \<Rightarrow> Decision \<times> tenantState \<times> Manager" where
  "decide_allow clk p req d ts m =
     (case Reserve (clock_from 18 clk) (ReqTenant req) (ReqEstimate req) (ReservationTTL p) m of
        (Inl err, m) \<Rightarrow>
          (d\<lparr>DAction := ActionBlock, DRuleTriggered := ''INSUFFICIENT_BUDGET'', DReason := ResError_String err\<rparr>,
           ts\<lparr>breaker := ReportFailure (clk 20) (breaker ts)\<rparr>, m)
      | (Inr r, m) \<Rightarrow>
          (d\<lparr>DAction := ActionAllow, DReason := ''within policy limits'', DReservationID := ResID r\<rparr>,
           ts\<lparr>breaker := ReportSuccess (breaker ts)\<rparr>, m))"

definition decide :: "clock \<Rightarrow> Policy \<Rightarrow> RiskRequest \<Rightarrow> Decision \<Rightarrow> tenantState \<Rightarrow> Manager \<Rightarrow> Decision \<times> tenantState \<times> Manager" where
  "decide clk p req d ts m =
     (if BlockThreshold p \<le>s DRiskScore d then decide_block clk d ts m
      else if ThrottleThreshold p \<le>s DRiskScore d then decide_throttle clk p req d ts m
      else decide_allow clk p req d ts m)"

definition Evaluate :: "clock \<Rightarrow> RiskRequest \<Rightarrow> Engine \<Rightarrow> Manager \<Rightarrow> Decision \<times> Engine \<times> Manager" where
  "Evaluate clk req e m =
     (let (ts, e) = stateFor (clk 0) (ReqTenant req) e;
          (d, ts, m) =
            (if killSwitchActive (ReqTenant req) (ReqProvider req) e then evaluate_killed clk req ts m
             else let (ok, b) = Allow (clk 3) (breaker ts); ts = ts\<lparr>breaker := b\<rparr>
                  in if \<not> ok then evaluate_open clk req ts m
                     else let (d, ts, m) = evaluate_figures clk (policy e) req ts m
                          in decide clk (policy e) req d ts m)
      in (d, put_tenant (ReqTenant req) ts e, m))"

text \<open>\<open>RecordUsage\<close>: one reading to create the tenant's state, seven inside \<open>Record\<close>.\<close>

definition RecordUsage :: "clock \<Rightarrow> string \<Rightarrow> micros \<Rightarrow> Engine \<Rightarrow> Engine" where
  "RecordUsage clk tenantID cost e =
     (let (ts, e) = stateFor (clk 0) tenantID e
      in put_tenant tenantID (ts\<lparr>tracker := tracker_Record (clock_from 1 clk) cost (tracker ts)\<rparr>) e)"

declare stateFor_def [op_defs] put_tenant_def [op_defs] killSwitchActive_def [op_defs]
  decision0_def [op_defs] evaluate_killed_def [op_defs] evaluate_open_def [op_defs]
  decide_block_def [op_defs] decide_throttle_def [op_defs] decide_allow_def [op_defs]

section \<open>The paths of \<open>Evaluate\<close>\<close>

definition tenant_of :: "time \<Rightarrow> string \<Rightarrow> Engine \<Rightarrow> tenantState" where
  "tenant_of now t e = fst (stateFor now t e)"

lemma stateFor_sel [simp]:
  "policy (snd (stateFor now t e)) = policy e" "killSwitchActive u p (snd (stateFor now t e)) = killSwitchActive u p e"
  "u \<noteq> t \<Longrightarrow> tenants (snd (stateFor now t e)) u = tenants e u"
  by (auto simp: op_defs Let_def split: option.splits)

lemma put_tenant_sel [simp]:
  "tenants (put_tenant t ts e) = (tenants e)(t \<mapsto> ts)" "policy (put_tenant t ts e) = policy e"
  "killSwitchActive u p (put_tenant t ts e) = killSwitchActive u p e"
  by (simp_all add: op_defs)

lemma evaluate_figures_eq:
  assumes "evaluate_figures clk p req ts m = (d, ts', m')"
  shows "m' = snd (getAccount (ReqTenant req) m)" and "breaker ts' = snd (State (clk 11) (breaker ts))"
    and "DReservationID d = ''''" and "DEstimatedCost d = ReqEstimate req"
  using assms by (auto simp: evaluate_figures_def Exposure_of_def Let_def split: prod.splits)

lemma evaluate_open_eq:
  assumes "evaluate_open clk req ts m = (d, ts', m')"
  shows "m' = snd (getAccount (ReqTenant req) m)" and "breaker ts' = snd (State (clk 4) (breaker ts))"
    and "DAction d = ActionBlock" and "DReservationID d = ''''" and "DRuleTriggered d = ''CIRCUIT_OPEN''"
  using assms by (auto simp: evaluate_open_def decision0_def Exposure_of_def Let_def split: prod.splits)

lemma evaluate_killed_eq:
  assumes "evaluate_killed clk req ts m = (d, ts', m')"
  shows "m' = m" and "breaker ts' = snd (State (clk 2) (Trip (clk 1) (breaker ts)))"
    and "DAction d = ActionKillSwitch" and "DReservationID d = ''''" and "DRuleTriggered d = ''KILL_SWITCH_ACTIVE''"
  using assms by (auto simp: evaluate_killed_def decision0_def Let_def split: prod.splits)

lemma Evaluate_cases:
  assumes "Evaluate clk req e m = (d, e', m')"
  obtains ts where "e' = put_tenant (ReqTenant req) ts (snd (stateFor (clk 0) (ReqTenant req) e))"
    and "killSwitchActive (ReqTenant req) (ReqProvider req) e"
      "evaluate_killed clk req (tenant_of (clk 0) (ReqTenant req) e) m = (d, ts, m')"
  | ts b where "e' = put_tenant (ReqTenant req) ts (snd (stateFor (clk 0) (ReqTenant req) e))"
    and "\<not> killSwitchActive (ReqTenant req) (ReqProvider req) e"
      "Allow (clk 3) (breaker (tenant_of (clk 0) (ReqTenant req) e)) = (False, b)"
      "evaluate_open clk req ((tenant_of (clk 0) (ReqTenant req) e)\<lparr>breaker := b\<rparr>) m = (d, ts, m')"
  | ts b d1 ts1 m1 where "e' = put_tenant (ReqTenant req) ts (snd (stateFor (clk 0) (ReqTenant req) e))"
    and "\<not> killSwitchActive (ReqTenant req) (ReqProvider req) e"
      "Allow (clk 3) (breaker (tenant_of (clk 0) (ReqTenant req) e)) = (True, b)"
      "evaluate_figures clk (policy e) req ((tenant_of (clk 0) (ReqTenant req) e)\<lparr>breaker := b\<rparr>) m = (d1, ts1, m1)"
      "decide clk (policy e) req d1 ts1 m1 = (d, ts, m')"
proof -
  let ?t = "ReqTenant req"
  let ?ts = "tenant_of (clk 0) ?t e"
  obtain ts0 e0 where sf: "stateFor (clk 0) ?t e = (ts0, e0)" by fastforce
  have e0: "policy e0 = policy e" "killSwitchActive ?t (ReqProvider req) e0 = killSwitchActive ?t (ReqProvider req) e"
    using stateFor_sel(1) [of "clk 0" ?t e] stateFor_sel(2) [of ?t "ReqProvider req" "clk 0" ?t e] sf by simp_all
  have ts0: "?ts = ts0" "snd (stateFor (clk 0) ?t e) = e0" by (simp_all add: tenant_of_def sf)
  obtain ok b where al: "Allow (clk 3) (breaker ?ts) = (ok, b)" by fastforce
  obtain d1 ts1 m1 where ef: "evaluate_figures clk (policy e) req (?ts\<lparr>breaker := b\<rparr>) m = (d1, ts1, m1)"
    by (metis prod_cases3)
  obtain dk tk mk where k: "evaluate_killed clk req ?ts m = (dk, tk, mk)" by (metis prod_cases3)
  obtain dq tq mq where q: "evaluate_open clk req (?ts\<lparr>breaker := b\<rparr>) m = (dq, tq, mq)" by (metis prod_cases3)
  obtain dd td md where dd: "decide clk (policy e) req d1 ts1 m1 = (dd, td, md)" by (metis prod_cases3)
  have eqs: "Evaluate clk req e m =
      (if killSwitchActive ?t (ReqProvider req) e then (dk, put_tenant ?t tk e0, mk)
       else if ok then (dd, put_tenant ?t td e0, md) else (dq, put_tenant ?t tq e0, mq))"
    using al ef k q dd by (simp add: Evaluate_def sf ts0 e0)
  show thesis
  proof (cases "killSwitchActive ?t (ReqProvider req) e")
    case True
    with eqs assms k ts0 show ?thesis by (intro that(1)) simp_all
  next
    case False
    show ?thesis
    proof (cases ok)
      case True
      with False eqs assms al ef dd ts0 show ?thesis by (intro that(3) [OF _ False _ ef]) simp_all
    next
      case ok: False
      with False eqs assms al q ts0 show ?thesis by (intro that(2) [OF _ False]) simp_all
    qed
  qed
qed

section \<open>What a decision does to the budget\<close>

lemma decide_outcome:
  assumes "decide clk p req d1 ts1 m1 = (d, ts, m')" and "DReservationID d1 = ''''"
  obtains (refused) "DAction d = ActionBlock" "DReservationID d = ''''"
      "m' = m1 \<or> (\<exists>c. fst (Reserve c (ReqTenant req) (ReqEstimate req) (ReservationTTL p) m1) = Inl ErrInsufficientBudget
        \<and> m' = snd (Reserve c (ReqTenant req) (ReqEstimate req) (ReservationTTL p) m1))"
  | (granted) c r where "DAction d = ActionAllow \<or> DAction d = ActionThrottle"
      "Reserve c (ReqTenant req) (ReqEstimate req) (ReservationTTL p) m1 = (Inr r, m')" "DReservationID d = ResID r"
proof -
  have err: "x = ErrInsufficientBudget" if "Reserve c t a l m1 = (Inl x, y)" for c t a l x y
    using that by (auto simp: Reserve_result split: if_splits)
  show thesis
  proof (cases "BlockThreshold p \<le>s DRiskScore d1")
    case True
    with assms show ?thesis
      by (intro refused) (auto simp: decide_def decide_block_def Let_def split: prod.splits if_splits)
  next
    case False
    let ?c = "if ThrottleThreshold p \<le>s DRiskScore d1 then clock_from 15 clk else clock_from 18 clk"
    show ?thesis
    proof (cases "Reserve ?c (ReqTenant req) (ReqEstimate req) (ReservationTTL p) m1")
      case (Pair res m2)
      show ?thesis
      proof (cases res)
        case (Inl x)
        with Pair err have r: "Reserve ?c (ReqTenant req) (ReqEstimate req) (ReservationTTL p) m1 = (Inl ErrInsufficientBudget, m2)"
          by blast
        then have "DAction d = ActionBlock \<and> DReservationID d = '''' \<and> m' = m2"
          using assms False by (auto simp: decide_def decide_throttle_def decide_allow_def split: if_splits)
        with r show ?thesis by (intro refused) (auto intro!: exI [of _ ?c])
      next
        case (Inr r)
        with Pair False assms have "(DAction d = ActionAllow \<or> DAction d = ActionThrottle) \<and> DReservationID d = ResID r \<and> m' = m2"
          by (auto simp: decide_def decide_throttle_def decide_allow_def split: if_splits)
        with Pair Inr show ?thesis by (intro granted) auto
      qed
    qed
  qed
qed

definition admits :: "Decision \<Rightarrow> bool" where
  "admits d \<longleftrightarrow> DAction d = ActionAllow \<or> DAction d = ActionThrottle"

lemma can_reserve_getAccount [simp]: "can_reserve (snd (getAccount t m)) a = can_reserve m a"
  by (simp add: can_reserve_def)

lemma Reserve_budget:
  assumes "solvent m" and "can_reserve m a" and "Reserve c t a ttl m = (res, m')"
  shows "solvent m' \<and> (case res of
      Inl e \<Rightarrow> view m' = view m
    | Inr r \<Rightarrow> aHolds (view m) (ResID r) = None \<and> a_reserve (ResID r) t (sint a) (view m) = Some (view m'))"
proof -
  have s: "solvent m'" using solvent_Reserve [OF assms(1)] assms(2,3) by (metis can_reserve_def snd_conv)
  show ?thesis
  proof (cases res)
    case (Inl e)
    with assms(3) have "reserve_id c ttl t a m = (None, m')" by (simp add: reserve_id_def)
    from manager_budget.reserve_none [OF assms(1,2) this] s Inl show ?thesis by simp
  next
    case (Inr r)
    with assms(3) have "reserve_id c ttl t a m = (Some (ResID r), m')" by (simp add: reserve_id_def)
    from manager_budget.reserve_some [OF assms(1,2) this] s Inr show ?thesis by simp
  qed
qed

lemma decide_budget:
  assumes "decide clk p req d1 ts1 m1 = (d, ts, m')" and "DReservationID d1 = ''''"
    and "solvent m1" and "can_reserve m1 (ReqEstimate req)"
  shows "solvent m' \<and> DAction d \<in> {ActionAllow, ActionThrottle, ActionBlock} \<and>
    (if admits d then aHolds (view m1) (DReservationID d) = None
        \<and> a_reserve (DReservationID d) (ReqTenant req) (sint (ReqEstimate req)) (view m1) = Some (view m')
     else DReservationID d = '''' \<and> view m' = view m1)"
  using assms(1,2)
proof (cases rule: decide_outcome)
  case refused
  show ?thesis
  proof (cases "m' = m1")
    case False
    with refused obtain c where "Reserve c (ReqTenant req) (ReqEstimate req) (ReservationTTL p) m1 = (Inl ErrInsufficientBudget, m')"
      by (metis prod.collapse)
    from Reserve_budget [OF assms(3,4) this] refused(1,2) show ?thesis by (simp add: admits_def)
  qed (use refused assms(3) in \<open>simp add: admits_def\<close>)
next
  case (granted c r)
  from Reserve_budget [OF assms(3,4) granted(2)] granted(1,3) show ?thesis by (auto simp: admits_def)
qed

lemma Evaluate_budget:
  assumes "Evaluate clk req e m = (d, e', m')" and "solvent m" and "can_reserve m (ReqEstimate req)"
  shows "solvent m' \<and> DAction d \<noteq> ActionAllowWithLimit \<and>
    (if admits d then aHolds (view m) (DReservationID d) = None
        \<and> a_reserve (DReservationID d) (ReqTenant req) (sint (ReqEstimate req)) (view m) = Some (view m')
     else DReservationID d = '''' \<and> view m' = view m)"
  using assms(1)
proof (cases rule: Evaluate_cases)
  case (1 ts)
  from evaluate_killed_eq [OF 1(3)] assms(2) show ?thesis by (simp add: admits_def)
next
  case (2 ts b)
  from evaluate_open_eq [OF 2(4)] assms(2) show ?thesis by (simp add: admits_def solvent_getAccount)
next
  case (3 ts b d1 ts1 m1)
  note f = evaluate_figures_eq [OF 3(4)]
  have "solvent m1" "can_reserve m1 (ReqEstimate req)" "view m1 = view m"
    using f(1) assms(2,3) by (simp_all add: solvent_getAccount)
  with decide_budget [OF 3(5) f(3)] show ?thesis by auto
qed

section \<open>The breaker across a decision\<close>

lemma State_settled:
  "state b = Closed \<or> state b = HalfOpenTesting \<Longrightarrow> snd (State now b) = b"
  by (auto simp: State_def maybeAdvanceLocked_def Let_def)

lemma State_tripped: "state b = Open \<Longrightarrow> state (snd (State now b)) \<in> {Open, HalfOpen}"
  by (auto simp: State_def maybeAdvanceLocked_def Let_def)

lemma State_keeps_testing: "state (snd (State now b)) = HalfOpenTesting \<longleftrightarrow> state b = HalfOpenTesting"
  by (auto simp: State_def maybeAdvanceLocked_def Let_def)

lemma Allow_true: "Allow now b = (True, b') \<Longrightarrow> state b' = Closed \<or> state b' = HalfOpenTesting"
  by (auto simp: Allow_def Let_def split: BState.splits)

lemma Allow_false: "Allow now b = (False, b') \<Longrightarrow> state b' = Open \<or> state b' = HalfOpenTesting \<and> state b = HalfOpenTesting"
  by (auto simp: Allow_def maybeAdvanceLocked_def Let_def split: BState.splits if_splits)

text \<open>A report ends the probe, whatever the decision was.\<close>

lemma decide_breaker:
  assumes "decide clk p req d1 ts1 m1 = (d, ts, m')" and "state (breaker ts1) = Closed \<or> state (breaker ts1) = HalfOpenTesting"
  shows "if DAction d = ActionBlock then state (breaker ts) \<in> {Open, HalfOpen} else state (breaker ts) = Closed"
proof (cases "BlockThreshold p \<le>s DRiskScore d1")
  case True
  have o: "state (ReportFailure (clk 12) (breaker ts1)) = Open" using assms(2) by (auto simp: ReportFailure_def)
  have "state (snd (State (clk 14) (Trip (clk 13) (ReportFailure (clk 12) (breaker ts1))))) \<in> {Open, HalfOpen}"
    by (rule State_tripped) (simp add: Trip_def)
  then show ?thesis using assms(1) True o
    by (auto simp: decide_def decide_block_def Let_def case_prod_unfold split: if_splits)
next
  case False
  then show ?thesis using assms
    by (auto simp: decide_def decide_throttle_def decide_allow_def ReportFailure_def ReportSuccess_def
        split: prod.splits sum.splits if_splits)
qed

definition no_probe :: "Engine \<Rightarrow> bool" where
  "no_probe e \<longleftrightarrow> (\<forall>t ts. tenants e t = Some ts \<longrightarrow> state (breaker ts) \<noteq> HalfOpenTesting)"

lemma no_probe_tenant: "no_probe e \<Longrightarrow> state (breaker (tenant_of now t e)) \<noteq> HalfOpenTesting"
  by (auto simp: no_probe_def tenant_of_def stateFor_def circuit_New_def Let_def split: option.splits)

lemma no_probe_put:
  assumes "no_probe e" and "state (breaker ts) \<noteq> HalfOpenTesting"
  shows "no_probe (put_tenant t ts (snd (stateFor now t e)))"
  unfolding no_probe_def
proof (intro allI impI)
  fix u x assume "tenants (put_tenant t ts (snd (stateFor now t e))) u = Some x"
  then show "state (breaker x) \<noteq> HalfOpenTesting"
    using assms by (cases "u = t") (auto simp: no_probe_def)
qed

lemma Evaluate_breaker:
  assumes "Evaluate clk req e m = (d, e', m')" and "no_probe e"
  obtains ts where "tenants e' (ReqTenant req) = Some ts" and "no_probe e'"
    and "admits d \<Longrightarrow> state (breaker ts) = Closed" and "\<not> admits d \<Longrightarrow> state (breaker ts) \<in> {Open, HalfOpen}"
  using assms(1)
proof (cases rule: Evaluate_cases)
  case (1 ts)
  note k = evaluate_killed_eq [OF 1(3)]
  have st: "state (breaker ts) \<in> {Open, HalfOpen}" unfolding k(2) by (rule State_tripped) (simp add: Trip_def)
  then have "no_probe e'" unfolding 1(1) by (intro no_probe_put [OF assms(2)]) auto
  with 1(1) st k(3) show ?thesis by (intro that [of ts]) (auto simp: admits_def)
next
  case (2 ts b)
  note k = evaluate_open_eq [OF 2(4)]
  have "state b = Open" using Allow_false [OF 2(3)] no_probe_tenant [OF assms(2)] by auto
  then have st: "state (breaker ts) \<in> {Open, HalfOpen}" unfolding k(2) by (intro State_tripped) simp
  then have "no_probe e'" unfolding 2(1) by (intro no_probe_put [OF assms(2)]) auto
  with 2(1) st k(3) show ?thesis by (intro that [of ts]) (auto simp: admits_def)
next
  case (3 ts b d1 ts1 m1)
  have b: "state b = Closed \<or> state b = HalfOpenTesting" using Allow_true [OF 3(3)] .
  then have "breaker ts1 = b" using evaluate_figures_eq(2) [OF 3(4)] by (simp add: State_settled)
  with decide_breaker [OF 3(5)] b
  have st: "if DAction d = ActionBlock then state (breaker ts) \<in> {Open, HalfOpen} else state (breaker ts) = Closed" by simp
  then have "no_probe e'" unfolding 3(1) by (intro no_probe_put [OF assms(2)]) (auto split: if_splits)
  moreover have "DAction d = ActionBlock \<longleftrightarrow> \<not> admits d"
    using 3(5) evaluate_figures_eq(3) [OF 3(4)] by (cases rule: decide_outcome) (auto simp: admits_def)
  ultimately show ?thesis using 3(1) st by (intro that [of ts]) auto
qed

text \<open>The engines of a running system.\<close>

inductive engine_reach :: "Engine \<Rightarrow> bool" where
  engine_new: "engine_reach (NewEngine p)"
| engine_evaluate: "engine_reach e \<Longrightarrow> engine_reach (fst (snd (Evaluate clk req e m)))"
| engine_usage: "engine_reach e \<Longrightarrow> engine_reach (RecordUsage clk t c e)"
| engine_kill_all: "engine_reach e \<Longrightarrow> engine_reach (KillAll on e)"
| engine_kill_tenant: "engine_reach e \<Longrightarrow> engine_reach (KillTenant t on e)"
| engine_kill_provider: "engine_reach e \<Longrightarrow> engine_reach (KillProvider q on e)"

lemma reach_no_probe: "engine_reach e \<Longrightarrow> no_probe e"
proof (induction rule: engine_reach.induct)
  case (engine_evaluate e clk req m)
  obtain d e' m' where ev: "Evaluate clk req e m = (d, e', m')" by (metis prod_cases3)
  from Evaluate_breaker [OF this engine_evaluate.IH] ev show ?case by auto
next
  case (engine_usage e clk t c)
  have "RecordUsage clk t c e = put_tenant t ((tenant_of (clk 0) t e)\<lparr>tracker :=
      tracker_Record (clock_from 1 clk) c (tracker (tenant_of (clk 0) t e))\<rparr>) (snd (stateFor (clk 0) t e))"
    by (simp add: RecordUsage_def tenant_of_def Let_def split: prod.splits)
  then show ?case using no_probe_put [OF engine_usage.IH] no_probe_tenant [OF engine_usage.IH] by simp
qed (simp_all add: no_probe_def NewEngine_def KillAll_def KillTenant_def KillProvider_def)

section \<open>A fresh tenant\<close>

lemma VelocityPerSec_idle: "samples w = [] \<Longrightarrow> VelocityPerSec now w = (Fin 0, w)"
proof -
  assume w: "samples w = []"
  then have "evictLocked now w = w" by (simp add: evictLocked_def)
  moreover have "Float 0 = Fin 0" by (simp add: Float_Fin)
  ultimately show ?thesis using w
    by (cases rule: Seconds_cases [of "lookback w"])
       (auto simp: VelocityPerSec_def window_Sum_def Let_def of_rat64_small)
qed

definition idle :: "MultiWindowTracker \<Rightarrow> bool" where
  "idle t \<longleftrightarrow> samples (Short t) = [] \<and> samples (Medium t) = [] \<and> baseline t = Fin 0"

lemma FromFloat_0: "FromFloat (Fin 0) = 0"
  using FromFloat_units [of 0] by simp

lemma idle_figures:
  assumes "idle t"
  shows "VelocityMultiplier now t = (Fin 0, t)" "Acceleration_of clk t = (Fin 0, t)"
    "ProjectedExposure_of clk cur horizon t = (cur, t)"
proof -
  have v: "VelocityPerSec u (Short t) = (Fin 0, Short t)" "VelocityPerSec u (Medium t) = (Fin 0, Medium t)" for u
    using assms by (simp_all add: VelocityPerSec_idle idle_def)
  show m: "VelocityMultiplier now t = (Fin 0, t)" using v assms by (simp add: VelocityMultiplier_def Baseline_def idle_def)
  have a: "Acceleration_of c t = (Fin 0, t)" for c using v by (simp add: Acceleration_of_def f_sub_def of_rat64_small)
  then show "Acceleration_of clk t = (Fin 0, t)" .
  obtain s where "Seconds horizon = Fin s" by (cases rule: Seconds_cases [of horizon]) auto
  with a v show "ProjectedExposure_of clk cur horizon t = (cur, t)"
    by (simp add: ProjectedExposure_of_def of_rat64_small FromFloat_0)
qed

definition demo_request :: "micros \<Rightarrow> RiskRequest" where
  "demo_request est = \<lparr>ReqTenant = ''t'', ReqRoute = ''/chat'', ReqProvider = ''mock'', ReqEstimate = est, ReqConcurrency = 1\<rparr>"

lemma demo_score:
  "score DefaultPolicy (demo_request 40) \<lparr>Short = ws, Medium = wm, Long = wl, Created = c, baseline = Fin 0, initOnce = i\<rparr>
     \<lparr>ExpLimit = 100, ExpReserved = 0, ExpSettled = 0, ExpAvailable = 100\<rparr> (Fin 0) (Fin 0) = (12, ''COMPOSITE_SCORE'')"
  by code_simp

text \<open>Two first requests of a tenant: one with a budget of 100 micros, one without any budget.\<close>

definition demo_engine :: Engine where
  "demo_engine = NewEngine DefaultPolicy"

definition demo_funded :: Manager where
  "demo_funded = SetBudget ''t'' 100 NewManager"

lemma demo_idle: "idle (tracker (tenant_of now t demo_engine))"
  by (simp add: demo_engine_def tenant_of_def stateFor_def NewEngine_def Let_def idle_def
      NewMultiWindowTrackerWithWindows_def NewRollingWindow_def)

lemma demo_score_broke:
  "score DefaultPolicy (demo_request 40) \<lparr>Short = ws, Medium = wm, Long = wl, Created = c, baseline = Fin 0, initOnce = i\<rparr>
     \<lparr>ExpLimit = 0, ExpReserved = 0, ExpSettled = 0, ExpAvailable = 0\<rparr> (Fin 0) (Fin 0) = (0, ''COMPOSITE_SCORE'')"
  by code_simp

lemma demo_gate: "Allow now (breaker (tenant_of u t demo_engine)) = (True, circuit_New (15 * Second))"
  by (simp add: demo_engine_def tenant_of_def stateFor_def NewEngine_def Let_def DefaultPolicy_def
      circuit_New_def Allow_def maybeAdvanceLocked_def)

lemma demo_tracker: "\<exists>ws wm wl c. tracker (tenant_of u t demo_engine) =
    \<lparr>Short = ws, Medium = wm, Long = wl, Created = c, baseline = Fin 0, initOnce = False\<rparr>"
  by (simp add: demo_engine_def tenant_of_def stateFor_def NewEngine_def Let_def NewMultiWindowTrackerWithWindows_def)

lemma demo_evaluate:
  assumes sc: "\<And>ws wm wl c. score DefaultPolicy req \<lparr>Short = ws, Medium = wm, Long = wl, Created = c, baseline = Fin 0, initOnce = False\<rparr>
      (fst (Exposure_of (ReqTenant req) m)) (Fin 0) (Fin 0) = (s, rule)" and s: "s <s 70"
  shows "case fst (Reserve (clock_from 18 clk) (ReqTenant req) (ReqEstimate req) (30 * Second) (snd (getAccount (ReqTenant req) m))) of
      Inl err \<Rightarrow> DAction (fst (Evaluate clk req demo_engine m)) = ActionBlock
        \<and> DRuleTriggered (fst (Evaluate clk req demo_engine m)) = ''INSUFFICIENT_BUDGET''
    | Inr r \<Rightarrow> DAction (fst (Evaluate clk req demo_engine m)) = ActionAllow
        \<and> DReservationID (fst (Evaluate clk req demo_engine m)) = ResID r"
proof -
  obtain d e' m' where ev: "Evaluate clk req demo_engine m = (d, e', m')" by (metis prod_cases3)
  have p: "policy demo_engine = DefaultPolicy" and nk: "\<not> killSwitchActive t q demo_engine" for t q
    by (simp_all add: demo_engine_def NewEngine_def killSwitchActive_def)
  from ev show ?thesis
  proof (cases rule: Evaluate_cases)
    case (3 ts b d1 ts1 m1)
    let ?ts = "(tenant_of (clk 0) (ReqTenant req) demo_engine)\<lparr>breaker := b\<rparr>"
    have "idle (tracker ?ts)" using demo_idle by simp
    note fig = idle_figures [OF this]
    have "score DefaultPolicy req (tracker ?ts) (fst (Exposure_of (ReqTenant req) m)) (Fin 0) (Fin 0) = (s, rule)"
      using demo_tracker [of "clk 0" "ReqTenant req"] sc by (metis tenantState.select_convs(1) tenantState.surjective tenantState.update_convs(2))
    with 3(4) fig have d1: "DRiskScore d1 = s" "DRuleTriggered d1 = rule" "DReservationID d1 = ''''" "m1 = snd (getAccount (ReqTenant req) m)"
      by (auto simp: evaluate_figures_def p Let_def case_prod_unfold)
    have "\<not> 90 \<le>s s" "\<not> 70 \<le>s s" using s by (auto simp: go_simps)
    then have "decide clk DefaultPolicy req d1 ts1 m1 = decide_allow clk DefaultPolicy req d1 ts1 m1"
      by (simp add: decide_def d1 DefaultPolicy_def)
    with 3(5) ev d1 p show ?thesis
      by (auto simp: decide_allow_def DefaultPolicy_def split: prod.splits sum.splits)
  qed (use nk demo_gate in auto)
qed

lemma demo_funded_solvent: "solvent demo_funded"
  unfolding demo_funded_def by (rule solvent_SetBudget [OF solvent_New]) (simp add: NewManager_def)

lemma demo_allows:
  "DAction (fst (Evaluate (\<lambda>i. 5) (demo_request 40) demo_engine demo_funded)) = ActionAllow \<and>
   DReservationID (fst (Evaluate (\<lambda>i. 5) (demo_request 40) demo_engine demo_funded)) = demo_id"
proof -
  have x: "fst (Exposure_of (ReqTenant (demo_request 40)) demo_funded) = \<lparr>ExpLimit = 100, ExpReserved = 0, ExpSettled = 0, ExpAvailable = 100\<rparr>"
    by (simp add: demo_request_def demo_funded_def op_defs NewManager_def account0_def available_def)
  have r: "fst (Reserve (clock_from 18 (\<lambda>i. 5)) (ReqTenant (demo_request 40)) (ReqEstimate (demo_request 40)) (30 * Second)
      (snd (getAccount (ReqTenant (demo_request 40)) demo_funded))) = Inr (new_reservation demo_id ''t'' 40 5 (30 * Second))"
    using demo_id_eq
    by (simp add: demo_request_def demo_funded_def op_defs NewManager_def account0_def available_def go_simps Let_def)
  have "(12 :: int64) <s 70" by (simp add: go_simps)
  from demo_evaluate [of "demo_request 40" demo_funded 12 "''COMPOSITE_SCORE''" "\<lambda>i. 5", unfolded x r, OF demo_score this]
  show ?thesis by (simp add: new_reservation_def)
qed

lemma demo_blocks:
  "DAction (fst (Evaluate (\<lambda>i. 5) (demo_request 40) demo_engine NewManager)) = ActionBlock \<and>
   DRuleTriggered (fst (Evaluate (\<lambda>i. 5) (demo_request 40) demo_engine NewManager)) = ''INSUFFICIENT_BUDGET''"
proof -
  have x: "fst (Exposure_of (ReqTenant (demo_request 40)) NewManager) = \<lparr>ExpLimit = 0, ExpReserved = 0, ExpSettled = 0, ExpAvailable = 0\<rparr>"
    by (simp add: demo_request_def op_defs NewManager_def account0_def available_def)
  have r: "fst (Reserve (clock_from 18 (\<lambda>i. 5)) (ReqTenant (demo_request 40)) (ReqEstimate (demo_request 40)) (30 * Second)
      (snd (getAccount (ReqTenant (demo_request 40)) NewManager))) = Inl ErrInsufficientBudget"
    by (simp add: demo_request_def op_defs NewManager_def account0_def available_def go_simps)
  have "(0 :: int64) <s 70" by (simp add: go_simps)
  from demo_evaluate [of "demo_request 40" NewManager 0 "''COMPOSITE_SCORE''" "\<lambda>i. 5", unfolded x r, OF demo_score_broke this]
  show ?thesis by simp
qed

section \<open>A refusal shuts the gate\<close>

lemma decide_opens:
  assumes "decide clk p req d1 ts1 m1 = (d, ts, m')" and "state (breaker ts1) = Closed \<or> state (breaker ts1) = HalfOpenTesting"
    and "DAction d = ActionBlock" and "DReservationID d1 = ''''"
    and "0 < sint (cooldown (breaker ts1))" and "\<And>i. \<tau> \<le> clk i \<and> clk i < \<tau> + sint (cooldown (breaker ts1))"
  shows "state (breaker ts) = Open \<and> \<tau> \<le> openedAt (breaker ts) \<and> cooldown (breaker ts) = cooldown (breaker ts1)"
proof (cases "BlockThreshold p \<le>s DRiskScore d1")
  case True
  have "\<not> clk 13 + sint (cooldown (breaker ts1)) \<le> clk 14" using assms(6) [of 13] assms(6) [of 14] by linarith
  then have "\<not> cooldown (breaker ts1) \<le>s time_Sub (clk 14) (clk 13)"
    using assms(5) time_Sub_ge [of "cooldown (breaker ts1)" "clk 14" "clk 13"] by (simp add: word_sle_eq)
  with True assms show ?thesis
    by (auto simp: decide_def decide_block_def State_def maybeAdvanceLocked_def Trip_def ReportFailure_def Let_def
        split: if_splits)
next
  case False
  have "state (breaker ts) = Open \<and> openedAt (breaker ts) \<in> range clk \<and> cooldown (breaker ts) = cooldown (breaker ts1)"
    using assms(1-3) False
    by (auto simp: decide_def decide_throttle_def decide_allow_def ReportFailure_def split: prod.splits sum.splits if_splits)
  with assms(6) show ?thesis by auto
qed

lemma Allow_cooling:
  assumes "state b = Open" and "- (2 ^ 63) < sint (cooldown b)" and "now < openedAt b + sint (cooldown b)"
  shows "Allow now b = (False, b)"
  using assms time_Sub_ge [OF assms(2), of now "openedAt b"] by (simp add: Allow_def maybeAdvanceLocked_def word_sle_eq)

lemma evaluate_gate:
  assumes "\<not> killSwitchActive (ReqTenant req) (ReqProvider req) e"
    and "Allow (clk 3) (breaker (tenant_of (clk 0) (ReqTenant req) e)) = (False, b)"
    and "Evaluate clk req e m = (d, e', m')"
  shows "DAction d = ActionBlock \<and> DRuleTriggered d = ''CIRCUIT_OPEN'' \<and> view m' = view m"
  using assms(3)
proof (cases rule: Evaluate_cases)
  case (2 ts b)
  from evaluate_open_eq [OF 2(4)] show ?thesis by simp
qed (use assms in auto)

lemma tenant_of_put: "tenant_of now t (put_tenant t ts e) = ts"
  by (simp add: tenant_of_def stateFor_def)

lemma tenant_of_policy: "e = NewEngine p \<Longrightarrow> cooldown (breaker (tenant_of now t e)) = CircuitCooldown p"
  by (simp add: tenant_of_def stateFor_def NewEngine_def Let_def circuit_New_def)

text \<open>Other tenants are not touched.\<close>

lemma getAccount_other: "u \<noteq> t \<Longrightarrow> accounts (snd (getAccount t m)) u = accounts m u"
  by (auto simp: getAccount_def put_account_def split: option.splits)

lemma Reserve_other: "u \<noteq> t \<Longrightarrow> accounts (snd (Reserve c t a ttl m)) u = accounts m u"
  using getAccount_other [of u t m]
  by (auto simp: Reserve_result grant_def put_reservation_def put_account_def)

lemma Evaluate_other:
  assumes "Evaluate clk req e m = (d, e', m')" and "u \<noteq> ReqTenant req"
  shows "tenants e' u = tenants e u \<and> accounts m' u = accounts m u"
  using assms(1)
proof (cases rule: Evaluate_cases)
  case (1 ts)
  then show ?thesis using evaluate_killed_eq [OF 1(3)] assms(2) by simp
next
  case (2 ts b)
  then show ?thesis using evaluate_open_eq [OF 2(4)] assms(2) by (simp add: getAccount_other)
next
  case (3 ts b d1 ts1 m1)
  note f = evaluate_figures_eq [OF 3(4)]
  have "accounts m' u = accounts m1 u"
    using 3(5) f(3)
  proof (cases rule: decide_outcome)
    case refused
    then show ?thesis using Reserve_other [OF assms(2)] by auto
  next
    case (granted c r)
    then show ?thesis using Reserve_other [OF assms(2), of c "ReqEstimate req" "ReservationTTL (policy e)" m1] by simp
  qed
  then show ?thesis using 3(1) f(1) assms(2) by (simp add: getAccount_other)
qed

section \<open>Properties\<close>

text \<open>
  C12: the kill switch stops everything: while it is on (for all, for the tenant or for the
  provider), \<open>Evaluate\<close> answers KILL_SWITCH, makes no reservation, does not even touch the
  reservation manager, and leaves the tenant's breaker tripped.
\<close>

theorem kill_switch_stops:
  assumes "killAll e \<or> killTenant e (ReqTenant req) \<or> killProvider e (ReqProvider req)"
  shows "\<exists>d e' ts. Evaluate clk req e m = (d, e', m) \<and> DAction d = ActionKillSwitch \<and> DReservationID d = ''''
    \<and> tenants e' (ReqTenant req) = Some ts \<and> state (breaker ts) \<in> {Open, HalfOpen}"
proof -
  obtain d e' m' where ev: "Evaluate clk req e m = (d, e', m')" by (metis prod_cases3)
  from ev show ?thesis
  proof (cases rule: Evaluate_cases)
    case (1 ts)
    note k = evaluate_killed_eq [OF 1(3)]
    have "state (breaker ts) \<in> {Open, HalfOpen}" unfolding k(2) by (rule State_tripped) (simp add: Trip_def)
    with ev k 1(1) show ?thesis by auto
  qed (use assms in \<open>auto simp: killSwitchActive_def\<close>)
qed

theorem kill_switch_stops_witness:
  "\<exists>d e' ts. Evaluate (\<lambda>i. 5) (demo_request 40) (KillProvider ''mock'' True demo_engine) demo_funded = (d, e', demo_funded)
     \<and> DAction d = ActionKillSwitch \<and> DReservationID d = '''' \<and> tenants e' ''t'' = Some ts \<and> state (breaker ts) \<in> {Open, HalfOpen}"
  using kill_switch_stops [of "KillProvider ''mock'' True demo_engine" "demo_request 40" "\<lambda>i. 5" demo_funded]
  by (simp add: KillProvider_def demo_request_def)

text \<open>
  C7: a decision and the budget agree: if the answer is ALLOW or THROTTLE, the budget changes by
  exactly one new hold of the estimated cost for the tenant, under the identifier in the decision;
  for every other answer there is no identifier and no change. The manager stays solvent.
\<close>

theorem decision_matches_hold:
  assumes "solvent m" and "0 \<le> sint (ReqEstimate req)" and "unat (idCounter m) < 2 ^ 64 - 1"
    and "Evaluate clk req e m = (d, e', m')"
  shows "solvent m' \<and>
    (if DAction d = ActionAllow \<or> DAction d = ActionThrottle
     then aHolds (view m) (DReservationID d) = None
        \<and> a_reserve (DReservationID d) (ReqTenant req) (sint (ReqEstimate req)) (view m) = Some (view m')
     else DReservationID d = '''' \<and> view m' = view m \<and> DAction d \<noteq> ActionAllowWithLimit)"
  using Evaluate_budget [OF assms(4,1)] assms(2,3) by (auto simp: can_reserve_def admits_def)

theorem decision_matches_hold_witness:
  "a_reserve demo_id ''t'' 40 (view demo_funded)
     = Some (view (snd (snd (Evaluate (\<lambda>i. 5) (demo_request 40) demo_engine demo_funded))))"
proof -
  obtain d e' m' where ev: "Evaluate (\<lambda>i. 5) (demo_request 40) demo_engine demo_funded = (d, e', m')" by (metis prod_cases3)
  have "unat (idCounter demo_funded) < 2 ^ 64 - 1" by (simp add: demo_funded_def op_defs NewManager_def)
  from decision_matches_hold [OF demo_funded_solvent _ this ev] demo_allows ev show ?thesis
    by (simp add: demo_request_def)
qed

text \<open>
  C30: no decision leaves the half-open probe hanging: in a running engine no breaker waits for a
  report between decisions, an admitted request leaves its breaker closed, and a refused one leaves
  it open (or already half-open), so recovery is always possible.
\<close>

theorem no_hanging_probe:
  assumes "engine_reach e" and "Evaluate clk req e m = (d, e', m')"
  shows "(\<forall>t ts. tenants e' t = Some ts \<longrightarrow> state (breaker ts) \<noteq> HalfOpenTesting)
    \<and> (\<exists>ts. tenants e' (ReqTenant req) = Some ts \<and>
        (if DAction d = ActionAllow \<or> DAction d = ActionThrottle then state (breaker ts) = Closed
         else state (breaker ts) \<in> {Open, HalfOpen}))"
  using Evaluate_breaker [OF assms(2) reach_no_probe [OF assms(1)]]
  unfolding no_probe_def admits_def by metis

theorem no_hanging_probe_witness:
  "\<exists>ts. tenants (fst (snd (Evaluate (\<lambda>i. 5) (demo_request 40) demo_engine demo_funded))) ''t'' = Some ts \<and> state (breaker ts) = Closed"
proof -
  obtain d e' m' where ev: "Evaluate (\<lambda>i. 5) (demo_request 40) demo_engine demo_funded = (d, e', m')" by (metis prod_cases3)
  have "engine_reach demo_engine" unfolding demo_engine_def by (rule engine_new)
  from no_hanging_probe [OF this ev] demo_allows ev show ?thesis by (simp add: demo_request_def)
qed

text \<open>
  A refusal shuts the gate: after a request that the gate let through was answered BLOCK (for
  its score or for lack of budget), every later request of the tenant within the cooldown is
  answered CIRCUIT_OPEN and the budget is not touched.
\<close>

theorem block_shuts_gate:
  assumes "Evaluate clk req e m = (d, e', m')" and "DAction d = ActionBlock" and "DRuleTriggered d \<noteq> ''CIRCUIT_OPEN''"
    and "cooldown (breaker (tenant_of (clk 0) (ReqTenant req) e)) = cd" and "0 < sint cd"
    and "\<And>i. \<tau> \<le> clk i \<and> clk i < \<tau> + sint cd"
    and "Evaluate clk2 req2 e' m2 = (d2, e2, m3)" and "ReqTenant req2 = ReqTenant req" and "clk2 3 < \<tau> + sint cd"
    and "\<not> killSwitchActive (ReqTenant req2) (ReqProvider req2) e'"
  shows "DAction d2 = ActionBlock \<and> DRuleTriggered d2 = ''CIRCUIT_OPEN'' \<and> view m3 = view m2"
  using assms(1)
proof (cases rule: Evaluate_cases)
  case (1 ts)
  then show ?thesis using evaluate_killed_eq(3) [OF 1(3)] assms(2) by simp
next
  case (2 ts b)
  then show ?thesis using evaluate_open_eq(5) [OF 2(4)] assms(3) by simp
next
  case (3 ts b d1 ts1 m1)
  have b: "state b = Closed \<or> state b = HalfOpenTesting" using Allow_true [OF 3(3)] .
  then have bt: "breaker ts1 = b" using evaluate_figures_eq(2) [OF 3(4)] by (simp add: State_settled)
  have cb: "cooldown b = cd" using 3(3) assms(4) by (auto simp: Allow_def maybeAdvanceLocked_def Let_def split: BState.splits if_splits)
  from decide_opens [OF 3(5) _ assms(2) evaluate_figures_eq(3) [OF 3(4)], of \<tau>] b bt cb assms(5,6)
  have "state (breaker ts) = Open" "\<tau> \<le> openedAt (breaker ts)" "cooldown (breaker ts) = cd" by auto
  then have "Allow (clk2 3) (breaker ts) = (False, breaker ts)" using assms(5,9) by (intro Allow_cooling) auto
  with 3(1) assms(8,10) show ?thesis
    by (intro evaluate_gate [OF assms(10) _ assms(7)]) (simp add: tenant_of_put)
qed

theorem block_shuts_gate_witness:
  "DRuleTriggered (fst (Evaluate (\<lambda>i. 7) (demo_request 1) (fst (snd (Evaluate (\<lambda>i. 5) (demo_request 40) demo_engine NewManager))) demo_funded))
     = ''CIRCUIT_OPEN''"
proof -
  obtain d e' m' where ev: "Evaluate (\<lambda>i. 5) (demo_request 40) demo_engine NewManager = (d, e', m')" by (metis prod_cases3)
  obtain d2 e2 m3 where ev2: "Evaluate (\<lambda>i. 7) (demo_request 1) e' demo_funded = (d2, e2, m3)" by (metis prod_cases3)
  have c: "cooldown (breaker (tenant_of 5 (ReqTenant (demo_request 40)) demo_engine)) = 15 * Second"
    unfolding demo_engine_def by (subst tenant_of_policy [OF refl]) (simp add: DefaultPolicy_def)
  have nk: "\<not> killSwitchActive t p demo_engine" for t p by (simp add: demo_engine_def NewEngine_def killSwitchActive_def)
  have "\<not> killSwitchActive (ReqTenant (demo_request 1)) (ReqProvider (demo_request 1)) e'"
    using ev nk by (cases rule: Evaluate_cases) auto
  from block_shuts_gate [OF ev _ _ c _ _ ev2 _ _ this, of 0] demo_blocks ev ev2 show ?thesis
    by (simp add: demo_request_def)
qed

text \<open>
  Tenants are isolated: a decision for one tenant changes neither the tracker nor the breaker
  nor the account of any other.
\<close>

theorem tenants_isolated:
  assumes "Evaluate clk req e m = (d, e', m')" and "u \<noteq> ReqTenant req"
  shows "tenants e' u = tenants e u \<and> accounts m' u = accounts m u"
  using assms by (rule Evaluate_other)

theorem tenants_isolated_witness:
  "accounts (snd (snd (Evaluate (\<lambda>i. 5) (demo_request 40) demo_engine demo_manager))) ''u'' = accounts demo_manager ''u''"
proof -
  obtain d e' m' where ev: "Evaluate (\<lambda>i. 5) (demo_request 40) demo_engine demo_manager = (d, e', m')" by (metis prod_cases3)
  from tenants_isolated [OF this, of "''u''"] ev show ?thesis by (simp add: demo_request_def)
qed

end
