(* ===== verification/Score.thy ===== *)
theory Score
  imports Risk
begin

text \<open>
  The risk score (\<open>score\<close> in \<open>internal/risk/engine.go\<close>): with sane weights and finite figures
  it is monotone in every risk factor, rounding included, and what each factor can contribute.
\<close>

section \<open>Order on float64\<close>

lemma f_le_refl: "x \<noteq> NaN \<Longrightarrow> f_le x x"
  by (simp add: f_le_def)

lemma of_rat64_mono: "x \<le> y \<Longrightarrow> f_le (of_rat64 x) (of_rat64 y)"
proof -
  assume "x \<le> y"
  then have le: "rnd x \<le> rnd y" by (rule rnd_mono)
  have up: "1024 \<le> expo \<bar>rnd y\<bar>" if "0 < rnd x" "1024 \<le> expo \<bar>rnd x\<bar>"
    using that le expo_mono [of "rnd x" "rnd y"] by simp
  have down: "1024 \<le> expo \<bar>rnd x\<bar>" if "rnd y < 0" "1024 \<le> expo \<bar>rnd y\<bar>"
    using that le expo_mono [of "- rnd y" "- rnd x"] by simp
  show ?thesis
    using le up down by (auto simp: of_rat64_def Let_def f_le_def)
qed

lemma of_rat64_not_NaN [simp]: "of_rat64 x \<noteq> NaN"
  by (simp add: of_rat64_def Let_def)

lemma f_div_mono:
  assumes "f_le x y" and "0 < c"
  shows "f_le (f_div x (Fin c)) (f_div y (Fin c)) \<and> f_div x (Fin c) \<noteq> NaN \<and> f_div y (Fin c) \<noteq> NaN"
proof -
  have s: "f_le NInf (of_rat64 q)" "f_le (of_rat64 q) PInf" for q
    by (cases "of_rat64 q"; simp add: f_le_def)+
  have q: "f_le (of_rat64 (a / c)) (of_rat64 (b / c))" if "a \<le> b" for a b
    using that assms(2) by (intro of_rat64_mono divide_right_mono) auto
  show ?thesis
    by (cases x; cases y) (use assms q s in \<open>auto simp: f_le_def\<close>, metis less_imp_le)
qed

lemma clamp01_range: "x \<noteq> NaN \<Longrightarrow> \<exists>r. clamp01 x = Fin r \<and> 0 \<le> r \<and> r \<le> 1"
  by (cases x) (auto simp: clamp01_def)

lemma clamp01_mono:
  "f_le x y \<Longrightarrow> \<exists>r s. clamp01 x = Fin r \<and> clamp01 y = Fin s \<and> 0 \<le> r \<and> r \<le> s \<and> s \<le> 1"
  by (cases x; cases y) (auto simp: clamp01_def f_le_def)

text \<open>\<open>le_upto B x y\<close>: finite numbers between 0 and \<open>B\<close>, in order.\<close>

definition le_upto :: "nat \<Rightarrow> float64 \<Rightarrow> float64 \<Rightarrow> bool" where
  "le_upto B x y \<longleftrightarrow> (\<exists>r s. x = Fin r \<and> y = Fin s \<and> 0 \<le> r \<and> r \<le> s \<and> s \<le> of_nat B)"

lemma of_rat64_upto:
  assumes "0 \<le> r" and "r \<le> s" and "s \<le> of_nat B" and "B \<le> 2 ^ 50"
  shows "le_upto B (of_rat64 r) (of_rat64 s)"
proof -
  have B: "(of_nat B :: rat) \<le> 2 ^ 50" using assms(4) by (metis of_nat_le_iff of_nat_numeral of_nat_power)
  have "rnd s \<le> of_nat B"
    using ieee.r_le_int [of s "int B"] assms(3,4) by simp
  moreover have "of_rat64 r = Fin (rnd r)" "of_rat64 s = Fin (rnd s)"
    using assms B by (auto intro!: of_rat64_small)
  ultimately show ?thesis using assms(1,2) rnd_nonneg rnd_mono by (auto simp: le_upto_def)
qed

lemma add_upto:
  assumes "le_upto B x y" and "le_upto C u v" and "B + C \<le> 2 ^ 50"
  shows "le_upto (B + C) (f_add x u) (f_add y v)"
  using assms by (auto simp: le_upto_def [of B] le_upto_def [of C] intro!: of_rat64_upto)

lemma mul_upto:
  assumes "le_upto B x y" and "w = Fin c" "0 \<le> c" "c \<le> 1" and "B \<le> 2 ^ 50"
  shows "le_upto B (f_mul w x) (f_mul w y)"
proof -
  obtain r s where rs: "x = Fin r" "y = Fin s" "0 \<le> r" "r \<le> s" "s \<le> of_nat B"
    using assms(1) by (auto simp: le_upto_def)
  have "c * s \<le> 1 * of_nat B" using rs assms(3,4) by (intro mult_mono) auto
  with rs assms show ?thesis by (auto intro!: of_rat64_upto mult_left_mono)
qed

lemma percent_mono:
  assumes "f_le x y"
  shows "le_upto 100 (f_mul (clamp01 x) (Fin 100)) (f_mul (clamp01 y) (Fin 100))"
proof -
  obtain r s where "clamp01 x = Fin r" "clamp01 y = Fin s" "0 \<le> r" "r \<le> s" "s \<le> 1"
    using clamp01_mono [OF assms] by blast
  then show ?thesis by (auto intro!: of_rat64_upto)
qed

lemma le_upto_0: "le_upto B x y \<Longrightarrow> le_upto B (Fin 0) y"
  by (auto simp: le_upto_def)

lemma le_upto_refl0: "le_upto B (Fin 0) (Fin 0)"
  by (simp add: le_upto_def)

section \<open>Subscores\<close>

definition sane :: "Policy \<Rightarrow> bool" where
  "sane p \<longleftrightarrow>
     (\<forall>w \<in> {wBudgetUtilization (PWeights p), wVelocity (PWeights p), wAcceleration (PWeights p), wConcurrency (PWeights p)}.
        \<exists>c. w = Fin c \<and> 0 \<le> c \<and> c \<le> 1)
     \<and> (\<exists>c. VelocityTargetMult p = Fin c \<and> 0 < c)"

lemma sane_DefaultPolicy: "sane DefaultPolicy"
proof -
  have "of_rat64 (30 / 100) = Fin (rnd (30 / 100))" "of_rat64 (40 / 100) = Fin (rnd (40 / 100))"
    "of_rat64 (20 / 100) = Fin (rnd (20 / 100))" "of_rat64 (10 / 100) = Fin (rnd (10 / 100))"
    by (rule of_rat64_small; simp)+
  moreover have "0 \<le> rnd (30 / 100) \<and> rnd (30 / 100) \<le> 1" "0 \<le> rnd (40 / 100) \<and> rnd (40 / 100) \<le> 1"
    "0 \<le> rnd (20 / 100) \<and> rnd (20 / 100) \<le> 1" "0 \<le> rnd (10 / 100) \<and> rnd (10 / 100) \<le> 1"
    by (rule ieee.r_unit; simp)+
  ultimately show ?thesis by (simp add: sane_def DefaultPolicy_def DefaultWeights_def)
qed

lemma Float_pos: "0 <s a \<Longrightarrow> \<exists>c. Float a = Fin c \<and> 0 < c"
proof -
  assume "0 <s a"
  then have "1 \<le> sint a" by (simp add: go_simps)
  then have "(1 :: rat) \<le> of_int (sint a)" by simp
  then have "1 \<le> rnd (of_int (sint a))" using rnd_mono [of 1] ieee.r_1 by fastforce
  then have "1 / 2 ^ 30 \<le> rnd (of_int (sint a)) / 1000000" by simp
  then have "1 / 2 ^ 30 \<le> rnd (rnd (of_int (sint a)) / 1000000)" using rnd_mono tiny by fastforce
  then have "0 < rnd (rnd (of_int (sint a)) / 1000000)" by (rule less_le_trans [rotated]) simp
  then show ?thesis by (simp add: Float_Fin)
qed

lemma of_int64_mono: "a \<le>s b \<Longrightarrow> f_le (of_int64 a) (of_int64 b)"
  by (simp add: of_int64_Fin word_sle_eq rnd_mono)

lemma of_int64_pos: "0 <s a \<Longrightarrow> \<exists>c. of_int64 a = Fin c \<and> 0 < c"
proof -
  assume "0 <s a"
  then have "1 \<le> sint a" by (simp add: go_simps)
  then have "(1 :: rat) \<le> of_int (sint a)" by simp
  then have "1 \<le> rnd (of_int (sint a))" using rnd_mono [of 1] ieee.r_1 by fastforce
  then have "0 < rnd (of_int (sint a))" by linarith
  then show ?thesis by (simp add: of_int64_Fin)
qed

lemma budget_sub_mono:
  assumes "ExpLimit x = ExpLimit y"
    and "ExpReserved x + ExpSettled x + ReqEstimate q \<le>s ExpReserved y + ExpSettled y + ReqEstimate r"
  shows "le_upto 100 (budget_sub q x) (budget_sub r y)"
proof (cases "0 <s ExpLimit x")
  case True
  then obtain c where c: "Float (ExpLimit x) = Fin c" "0 < c" using Float_pos by blast
  have "le_upto 100
      (f_mul (clamp01 (f_div (Float (ExpReserved x + ExpSettled x + ReqEstimate q)) (Fin c))) (Fin 100))
      (f_mul (clamp01 (f_div (Float (ExpReserved y + ExpSettled y + ReqEstimate r)) (Fin c))) (Fin 100))"
    using f_div_mono [OF Float_mono [OF assms(2)] c(2)] by (intro percent_mono) simp
  with True c assms(1) show ?thesis by (simp add: budget_sub_def)
next
  case False
  with assms(1) show ?thesis by (simp add: budget_sub_def le_upto_refl0)
qed

lemma velocity_sub_mono: "sane p \<Longrightarrow> f_le u v \<Longrightarrow> le_upto 100 (velocity_sub p u) (velocity_sub p v)"
  unfolding velocity_sub_def sane_def using f_div_mono by (auto intro!: percent_mono)

lemma concurrency_sub_mono:
  "ReqConcurrency q \<le>s ReqConcurrency r \<Longrightarrow> le_upto 100 (concurrency_sub p q) (concurrency_sub p r)"
  unfolding concurrency_sub_def using f_div_mono [OF of_int64_mono] of_int64_pos [of "MaxConcurrency p"]
  by (auto intro!: percent_mono simp: le_upto_refl0)

lemma accel_sub_mono:
  assumes "f_le a b" and "base = Fin c"
  shows "le_upto 100 (accel_sub base a) (accel_sub base b)"
proof -
  let ?d = "if f_le base (Fin 0) then Fin 1 else base"
  obtain e where d: "?d = Fin e" "0 < e" using assms(2) by (cases "c \<le> 0") auto
  have m: "le_upto 100 (f_mul (clamp01 (f_div x ?d)) (Fin 100)) (f_mul (clamp01 (f_div y ?d)) (Fin 100))" if "f_le x y" for x y
    unfolding d(1) using f_div_mono [OF that d(2)] by (intro percent_mono) simp
  have "f_lt (Fin 0) b" if "f_lt (Fin 0) a" using that assms(1) by (cases a; cases b) (auto simp: f_le_def)
  moreover have "b \<noteq> NaN" using assms(1) by (auto simp: f_le_def)
  ultimately show ?thesis
    using m [OF assms(1)] le_upto_0 [OF m [OF f_le_refl [of b]]]
    by (auto simp: accel_sub_def Let_def le_upto_refl0)
qed

lemma weighted_total_mono:
  assumes "sane p" and "le_upto 100 b b'" "le_upto 100 v v'" "le_upto 100 a a'" "le_upto 100 c c'"
  shows "le_upto 400 (weighted_total (PWeights p) b v a c) (weighted_total (PWeights p) b' v' a' c')"
proof -
  obtain w1 w2 w3 w4 where w: "wBudgetUtilization (PWeights p) = Fin w1" "0 \<le> w1" "w1 \<le> 1"
    "wVelocity (PWeights p) = Fin w2" "0 \<le> w2" "w2 \<le> 1" "wAcceleration (PWeights p) = Fin w3" "0 \<le> w3" "w3 \<le> 1"
    "wConcurrency (PWeights p) = Fin w4" "0 \<le> w4" "w4 \<le> 1"
    using assms(1) by (auto simp: sane_def)
  note m = mul_upto [OF assms(2) w(1-3)] mul_upto [OF assms(3) w(4-6)]
    mul_upto [OF assms(4) w(7-9)] mul_upto [OF assms(5) w(10-12)]
  from add_upto [OF add_upto [OF add_upto [OF m(1,2)] m(3)] m(4)] show ?thesis
    by (simp add: weighted_total_def)
qed

section \<open>The score\<close>

lemma to_score_mono:
  assumes "le_upto 400 x y"
  shows "clamp_score (to_int64 x) \<le>s clamp_score (to_int64 y)"
proof -
  obtain r s where rs: "x = Fin r" "y = Fin s" "0 \<le> r" "r \<le> s" "s \<le> 400"
    using assms by (auto simp: le_upto_def)
  have f: "0 \<le> \<lfloor>r\<rfloor>" "\<lfloor>r\<rfloor> \<le> \<lfloor>s\<rfloor>" "\<lfloor>s\<rfloor> \<le> 400"
    using rs(3) floor_mono [OF rs(4)] floor_mono [OF rs(5)] by simp_all
  then have "sint (to_int64 x) = \<lfloor>r\<rfloor>" "sint (to_int64 y) = \<lfloor>s\<rfloor>"
    using rs by (auto simp: trunc_def in_int64_def intro!: sint_of_int_int64)
  moreover have "sint (clamp_score z) = min 100 (sint z)" if "0 \<le> sint z" for z
    using that by (simp add: clamp_score_def go_simps)
  ultimately show ?thesis using f by (simp add: word_sle_eq del: le_floor_iff floor_le_iff zero_le_floor)
qed

lemma clamp_score_range: "0 \<le> sint (clamp_score s) \<and> sint (clamp_score s) \<le> 100"
  by (simp add: clamp_score_def go_simps)

lemma levelFor_mono: "a \<le>s b \<Longrightarrow> levelFor a \<le> levelFor b"
  by (auto simp: levelFor_def word_sle_eq less_eq_Level_def)

text \<open>
  C31: the score is in 0..100 and monotone, with the rounding of \<open>float64\<close> included: for weights
  between 0 and 1, more committed budget for the same limit, a higher velocity multiplier, a higher
  acceleration or more concurrent requests never lower it, and never lower the risk level.
\<close>

theorem score_monotone:
  assumes "sane p" and "Baseline trk = Fin base"
    and "ExpLimit x = ExpLimit y"
    and "ExpReserved x + ExpSettled x + ReqEstimate q \<le>s ExpReserved y + ExpSettled y + ReqEstimate r"
    and "f_le u v" and "f_le a b" and "ReqConcurrency q \<le>s ReqConcurrency r"
  shows "0 \<le> sint (fst (score p q trk x u a)) \<and> fst (score p q trk x u a) \<le>s fst (score p r trk y v b)
    \<and> sint (fst (score p r trk y v b)) \<le> 100 \<and> levelFor (fst (score p q trk x u a)) \<le> levelFor (fst (score p r trk y v b))"
  using to_score_mono [OF weighted_total_mono [OF assms(1) budget_sub_mono [OF assms(3,4)]
      velocity_sub_mono [OF assms(1,5)] accel_sub_mono [OF assms(6,2)] concurrency_sub_mono [OF assms(7)]]]
    clamp_score_range levelFor_mono
  by (simp add: score_def Let_def)

theorem score_monotone_witness:
  "fst (score DefaultPolicy (demo_request 40) (NewMultiWindowTracker 0)
      \<lparr>ExpLimit = 100, ExpReserved = 0, ExpSettled = 0, ExpAvailable = 100\<rparr> (Fin 0) (Fin 0))
   \<le>s fst (score DefaultPolicy (demo_request 50) (NewMultiWindowTracker 0)
      \<lparr>ExpLimit = 100, ExpReserved = 30, ExpSettled = 0, ExpAvailable = 70\<rparr> (Fin 7) (Fin 2))"
  by (rule score_monotone [OF sane_DefaultPolicy, where base = 0, THEN conjunct2, THEN conjunct1])
     (simp_all add: demo_request_def Baseline_def NewMultiWindowTracker_def NewMultiWindowTrackerWithWindows_def go_simps)

section \<open>A tenant without recent spend\<close>

lemma idle_score:
  assumes "\<not> f_lt (Fin 0) a"
  shows "sint (fst (score DefaultPolicy q trk x (Fin 0) a)) \<le> 40"
proof -
  let ?w = "PWeights DefaultPolicy"
  have top: "le_upto 100 z (Fin 100)" if "le_upto 100 z z" for z
    using that by (auto simp: le_upto_def)
  have b: "le_upto 100 (budget_sub q x) (Fin 100)" by (intro top budget_sub_mono) (simp_all add: word_sle_eq)
  have c: "le_upto 100 (concurrency_sub DefaultPolicy q) (Fin 100)" by (intro top concurrency_sub_mono) (simp add: word_sle_eq)
  have v: "velocity_sub DefaultPolicy (Fin 0) = Fin 0" by code_simp
  have "le_upto 400 (weighted_total ?w (budget_sub q x) (Fin 0) (Fin 0) (concurrency_sub DefaultPolicy q))
      (weighted_total ?w (Fin 100) (Fin 0) (Fin 0) (Fin 100))"
    using sane_DefaultPolicy b c by (intro weighted_total_mono) (auto intro: le_upto_refl0)
  from to_score_mono [OF this]
  have "clamp_score (to_int64 (weighted_total ?w (budget_sub q x) (Fin 0) (Fin 0) (concurrency_sub DefaultPolicy q))) \<le>s
      clamp_score (to_int64 (weighted_total ?w (Fin 100) (Fin 0) (Fin 0) (Fin 100)))" .
  moreover have "clamp_score (to_int64 (weighted_total ?w (Fin 100) (Fin 0) (Fin 0) (Fin 100))) = 40" by code_simp
  ultimately show ?thesis using assms by (simp add: score_def Let_def v accel_sub_def word_sle_eq)
qed

lemma fresh_tenant:
  assumes "tenants e t = None"
  shows "idle (tracker (tenant_of now t e))" and "breaker (tenant_of now t e) = circuit_New (CircuitCooldown (policy e))"
  using assms by (simp_all add: tenant_of_def stateFor_def Let_def idle_def NewMultiWindowTrackerWithWindows_def NewRollingWindow_def)

lemma fresh_figures:
  assumes "evaluate_figures clk DefaultPolicy req ts m = (d, ts', m')" and "idle (tracker ts)"
  shows "sint (DRiskScore d) \<le> 40"
proof -
  note fig = idle_figures [OF assms(2)]
  have "DRiskScore d = fst (score DefaultPolicy req (tracker ts) (fst (Exposure_of (ReqTenant req) m)) (Fin 0) (Fin 0))"
    using assms(1) fig by (auto simp: evaluate_figures_def Let_def case_prod_unfold)
  then show ?thesis using idle_score [of "Fin 0"] by simp
qed

text \<open>
  The first request of a tenant is decided by its budget alone: under the default policy and
  without a kill switch, it is answered ALLOW if reserved + settled + estimate is within the limit
  and otherwise BLOCK with rule INSUFFICIENT_BUDGET; budget use and concurrency cannot reach the
  throttle threshold by themselves.
\<close>

theorem first_request_by_budget:
  assumes "policy e = DefaultPolicy" and "tenants e (ReqTenant req) = None" and "solvent m"
    and "\<not> killSwitchActive (ReqTenant req) (ReqProvider req) e"
    and "Evaluate clk req e m = (d, e', m')"
  shows "if sint (reserved (acc_of m (ReqTenant req))) + sint (settled (acc_of m (ReqTenant req))) + sint (ReqEstimate req)
        \<le> sint (limit (acc_of m (ReqTenant req)))
    then DAction d = ActionAllow
    else DAction d = ActionBlock \<and> DRuleTriggered d = ''INSUFFICIENT_BUDGET''"
  using assms(5)
proof (cases rule: Evaluate_cases)
  case (1 ts)
  then show ?thesis using assms(4) by simp
next
  case (2 ts b)
  then show ?thesis by (simp add: fresh_tenant(2) [OF assms(2)] circuit_New_def Allow_def maybeAdvanceLocked_def)
next
  case (3 ts b d1 ts1 m1)
  let ?t = "ReqTenant req"
  have "sint (DRiskScore d1) \<le> 40"
    using 3(4) fresh_tenant(1) [OF assms(2), of "clk 0"] assms(1) by (auto intro!: fresh_figures)
  then have "decide clk (policy e) req d1 ts1 m1 = decide_allow clk DefaultPolicy req d1 ts1 m1"
    by (simp add: decide_def assms(1) DefaultPolicy_def word_sle_eq)
  moreover have "available (acc_of m1 ?t) <s ReqEstimate req \<longleftrightarrow>
      \<not> sint (reserved (acc_of m ?t)) + sint (settled (acc_of m ?t)) + sint (ReqEstimate req) \<le> sint (limit (acc_of m ?t))"
    using available_view [OF assms(3), of ?t] committed_view [OF assms(3), of ?t] evaluate_figures_eq(1) [OF 3(4)]
    by (simp add: go_simps) linarith
  ultimately show ?thesis using 3(5)
    by (auto simp: decide_allow_def Reserve_result split: if_splits)
qed

theorem first_request_by_budget_witness:
  "DAction (fst (Evaluate (\<lambda>i. 9) (demo_request 100) demo_engine demo_funded)) = ActionAllow"
proof -
  obtain d e' m' where ev: "Evaluate (\<lambda>i. 9) (demo_request 100) demo_engine demo_funded = (d, e', m')" by (metis prod_cases3)
  have "acc_of demo_funded (ReqTenant (demo_request 100)) = \<lparr>limit = 100, reserved = 0, settled = 0\<rparr>"
    by (simp add: acc_of_def demo_funded_def demo_request_def SetBudget_def put_account_def NewManager_def account0_def)
  with first_request_by_budget [OF _ _ demo_funded_solvent _ ev] ev show ?thesis
    by (simp add: demo_engine_def NewEngine_def killSwitchActive_def demo_request_def)
qed

end
