(* ===== verification/Provider.thy ===== *)
theory Provider
  imports GoStrings GoTime
begin

text \<open>
  Package \<open>provider\<close> (\<open>internal/provider/provider.go\<close>): header filtering, the mock and the generic
  HTTP provider with its \<open>http.Client\<close>, and the registry. What the client does with time-outs and
  redirects is modelled, and every request it hands to the network is recorded; the URL parser behind
  \<open>http.NewRequestWithContext\<close>, the transport behind the client and the reading of a redirect are
  parameters, collected in a record \<open>Net\<close>. A header is a map from keys to the list of values; a body
  is the list of its bytes.
\<close>

type_synonym Header = "string \<rightharpoonup> string list"
type_synonym bytes = string

record Usage =
  InputUnits :: int64
  OutputUnits :: int64

record Response =
  StatusCode :: int64
  Body :: bytes
  Headers :: Header

definition Response0 :: Response where
  "Response0 = \<lparr>StatusCode = 0, Body = [], Headers = Map.empty\<rparr>"

definition Usage0 :: Usage where
  "Usage0 = \<lparr>InputUnits = 0, OutputUnits = 0\<rparr>"

record ExecRequest =
  ReqMethod :: string
  ReqURL :: string
  ReqPath :: string
  ReqHeaders :: Header
  ReqBody :: bytes

section \<open>Headers\<close>

text \<open>
  \<open>textproto.CanonicalMIMEHeaderKey\<close>: a key with a byte that is no token character is left alone,
  otherwise the first letter and the letters after a dash are upper case and all others lower case.
\<close>

definition is_token :: "char \<Rightarrow> bool" where
  "is_token c \<longleftrightarrow> is_upper c \<or> is_lower c \<or> is_digit c \<or> c \<in> set ''!#$%&*+-.^_|~'' \<or> c = CHR 0x27 \<or> c = CHR 0x60"

fun canon :: "bool \<Rightarrow> string \<Rightarrow> string" where
  "canon upper [] = []"
| "canon upper (c # cs) = (if upper then to_upper c else to_lower c) # canon (c = CHR ''-'') cs"

definition CanonicalMIMEHeaderKey :: "string \<Rightarrow> string" where
  "CanonicalMIMEHeaderKey k = (if list_all is_token k then canon True k else k)"

definition Header_Get :: "Header \<Rightarrow> string \<Rightarrow> string" where
  "Header_Get h k = (case h (CanonicalMIMEHeaderKey k) of Some (v # vs) \<Rightarrow> v | _ \<Rightarrow> [])"

definition Header_Set :: "string \<Rightarrow> string \<Rightarrow> Header \<Rightarrow> Header" where
  "Header_Set k v h = h(CanonicalMIMEHeaderKey k \<mapsto> [v])"

definition Header_Del :: "string \<Rightarrow> Header \<Rightarrow> Header" where
  "Header_Del k h = h(CanonicalMIMEHeaderKey k := None)"

definition hopByHopHeaders :: "string list" where
  "hopByHopHeaders = [''Connection'', ''Keep-Alive'', ''Proxy-Authenticate'', ''Proxy-Authorization'',
     ''Te'', ''Trailers'', ''Transfer-Encoding'', ''Upgrade'']"

text \<open>The copy loop makes a map with the same entries; then each hop-by-hop key is deleted.\<close>

definition FilterHopByHopHeaders :: "Header \<Rightarrow> Header" where
  "FilterHopByHopHeaders h = fold Header_Del hopByHopHeaders h"

section \<open>Errors\<close>

datatype ProviderError =
    ErrBodyTooLarge nat
  | ErrBuildingRequest string
  | ErrScheme string
  | ErrEmbeddedCredentials
  | ErrHostNotAllowed string string
  | ErrDo string
  | ErrReadingResponse string
  | ErrResponseTooLarge
  | ErrProviderNotFound

definition MaxUpstreamRequestBytes :: nat where "MaxUpstreamRequestBytes = 2097152"
definition MaxUpstreamResponseBytes :: nat where "MaxUpstreamResponseBytes = 8388608"

text \<open>
  \<open>%q\<close>: printable characters stand for themselves, quotes, backslashes and control characters are
  escaped; bytes above ASCII, parts of printable runes, are passed on.
\<close>

definition quote_char :: "char \<Rightarrow> string" where
  "quote_char c =
     (let n = of_char c :: nat
      in if n = 34 \<or> n = 92 then [CHR 0x5C, c]
         else if n = 7 then CHR 0x5C # ''a'' else if n = 8 then CHR 0x5C # ''b''
         else if n = 9 then CHR 0x5C # ''t'' else if n = 10 then CHR 0x5C # ''n''
         else if n = 11 then CHR 0x5C # ''v'' else if n = 12 then CHR 0x5C # ''f''
         else if n = 13 then CHR 0x5C # ''r''
         else if n < 32 \<or> n = 127 then CHR 0x5C # ''x'' @ [hex_digit (n div 16), hex_digit (n mod 16)]
         else [c])"

definition quote :: "string \<Rightarrow> string" where
  "quote s = [CHR 0x22] @ concat (map quote_char s) @ [CHR 0x22]"

primrec ProviderError_String :: "ProviderError \<Rightarrow> string" where
  "ProviderError_String (ErrBodyTooLarge n) =
     ''provider: request body of '' @ dec n @ '' bytes exceeds '' @ dec MaxUpstreamRequestBytes @ '' byte limit''"
| "ProviderError_String (ErrBuildingRequest e) = ''provider: building request: '' @ e"
| "ProviderError_String (ErrScheme s) = ''provider: upstream scheme '' @ quote s @ '' is not http/https''"
| "ProviderError_String ErrEmbeddedCredentials = ''provider: upstream URL must not contain embedded credentials''"
| "ProviderError_String (ErrHostNotAllowed h n) =
     ''provider: host '' @ quote h @ '' is not in the SSRF allowlist for '' @ quote n"
| "ProviderError_String (ErrDo e) = e"
| "ProviderError_String (ErrReadingResponse e) = ''provider: reading upstream response: '' @ e"
| "ProviderError_String ErrResponseTooLarge =
     ''provider: upstream response exceeded '' @ dec MaxUpstreamResponseBytes @ '' byte limit''"
| "ProviderError_String ErrProviderNotFound = ''provider: not registered''"

section \<open>Providers\<close>

text \<open>
  What the program gets from \<open>net/http\<close>: the parts of a parsed URL it looks at, a request ready to
  send, and the answer, whose body is a stream of bytes that may end in an error.
\<close>

record URL =
  Scheme :: string
  HasUser :: bool
  Host :: string

record HttpRequest =
  HMethod :: string
  HTarget :: string
  HHeader :: Header
  HBody :: bytes

record HttpResponse =
  HStatus :: int64
  HRespHeader :: Header
  HStream :: bytes
  HStreamErr :: "string option"

text \<open>
  The network. \<open>round_trip t via q\<close> is the answer to \<open>q\<close> when the client's time-out is \<open>t\<close> and the
  requests \<open>via\<close> were sent before under the same deadline. \<open>next_request via resp\<close> is what the client
  makes of an answer to the last request of \<open>via\<close>: nothing when it is no redirect with a location, an
  error when the location does not parse, otherwise the request the redirect asks for.
  \<open>client_error\<close> is the text of the \<open>url.Error\<close> around an error of the client.
\<close>

record Net =
  parse_request :: "string \<Rightarrow> string \<Rightarrow> string + URL"
  round_trip :: "duration \<Rightarrow> HttpRequest list \<Rightarrow> HttpRequest \<Rightarrow> string + HttpResponse"
  next_request :: "HttpRequest list \<Rightarrow> HttpResponse \<Rightarrow> (string + HttpRequest) option"
  client_error :: "HttpRequest list \<Rightarrow> string \<Rightarrow> string"

section \<open>The HTTP client\<close>

text \<open>
  \<open>http.Client\<close> with the two fields the program sets. \<open>CheckRedirect\<close> is either a function that
  answers \<open>http.ErrUseLastResponse\<close>, or nil, and then the client stops after ten requests.
\<close>

datatype RedirectPolicy = ReturnErrUseLastResponse | NilCheckRedirect

datatype Redirect = UseLastResponse | RefuseRedirect string | FollowRedirect

record HttpClient =
  ClientTimeout :: duration
  CheckRedirect :: RedirectPolicy

fun checkRedirect :: "RedirectPolicy \<Rightarrow> HttpRequest list \<Rightarrow> Redirect" where
  "checkRedirect ReturnErrUseLastResponse via = UseLastResponse"
| "checkRedirect NilCheckRedirect via =
     (if 10 \<le> length via then RefuseRedirect ''stopped after 10 redirects'' else FollowRedirect)"

text \<open>
  The loop of \<open>Client.Do\<close>, with all the requests it has handed to the transport. It ends because a
  redirect is followed at most nine times.
\<close>

function client_loop :: "Net \<Rightarrow> HttpClient \<Rightarrow> HttpRequest list \<Rightarrow> HttpRequest \<Rightarrow> (string + HttpResponse) \<times> HttpRequest list" where
  "client_loop net c via q =
     (case round_trip net (ClientTimeout c) via q of
        Inl err \<Rightarrow> (Inl err, via @ [q])
      | Inr resp \<Rightarrow>
          (case next_request net (via @ [q]) resp of
             None \<Rightarrow> (Inr resp, via @ [q])
           | Some (Inl err) \<Rightarrow> (Inl (client_error net (via @ [q]) err), via @ [q])
           | Some (Inr q') \<Rightarrow>
               (case checkRedirect (CheckRedirect c) (via @ [q]) of
                  UseLastResponse \<Rightarrow> (Inr resp, via @ [q])
                | RefuseRedirect err \<Rightarrow> (Inl (client_error net (via @ [q]) err), via @ [q])
                | FollowRedirect \<Rightarrow> client_loop net c (via @ [q]) q')))"
  by pat_completeness auto

lemma checkRedirect_follow: "checkRedirect pol via = FollowRedirect \<Longrightarrow> length via < 10"
  by (cases pol) (auto split: if_splits)

termination client_loop
  by (relation "measure (\<lambda>(net, c, via, q). 10 - length via)") (auto dest: checkRedirect_follow)

declare client_loop.simps [simp del]

definition client_Do :: "Net \<Rightarrow> HttpClient \<Rightarrow> HttpRequest \<Rightarrow> (string + HttpResponse) \<times> HttpRequest list" where
  "client_Do net c q = client_loop net c [] q"

section \<open>The two providers and the registry\<close>

record MockProvider =
  MockName :: string
  UsageFn :: "(ExecRequest \<Rightarrow> Usage) option"

definition NewMockProvider :: "string \<Rightarrow> (ExecRequest \<Rightarrow> Usage) option \<Rightarrow> MockProvider" where
  "NewMockProvider name usageFn = \<lparr>MockName = name, UsageFn = usageFn\<rparr>"

definition mock_Execute :: "MockProvider \<Rightarrow> ExecRequest \<Rightarrow> ProviderError + Response \<times> Usage" where
  "mock_Execute p req =
     (let u = \<lparr>InputUnits = 100, OutputUnits = 100\<rparr>;
          u = (case UsageFn p of None \<Rightarrow> u | Some f \<Rightarrow> f req)
      in Inr (\<lparr>StatusCode = 200,
          Body = [CHR 0x7B, CHR 0x22] @ ''mock'' @ [CHR 0x22] @ '':true'' @ [CHR 0x7D], Headers = Map.empty\<rparr>, u))"

record GenericHTTP =
  HttpName :: string
  BaseURL :: string
  Client :: HttpClient
  AllowedHosts :: "string set"

definition NewGenericHTTP :: "string \<Rightarrow> string \<Rightarrow> string list \<Rightarrow> GenericHTTP" where
  "NewGenericHTTP name baseURL allowedHosts =
     \<lparr>HttpName = name, BaseURL = baseURL,
      Client = \<lparr>ClientTimeout = 30 * Second, CheckRedirect = ReturnErrUseLastResponse\<rparr>,
      AllowedHosts = set allowedHosts\<rparr>"

definition trim_right_slash :: "string \<Rightarrow> string" where
  "trim_right_slash s = rev (dropWhile (\<lambda>c. c = CHR ''/'') (rev s))"

definition upstream_target :: "string \<Rightarrow> string \<Rightarrow> string" where
  "upstream_target baseURL path =
     (let path = (if path \<noteq> [] \<and> hd path \<noteq> CHR ''/'' then CHR ''/'' # path else path)
      in trim_right_slash baseURL @ path)"

text \<open>Reading at most one byte more than the limit: a stream error shows only if it comes before that.\<close>

definition read_limited :: "HttpResponse \<Rightarrow> ProviderError + bytes" where
  "read_limited resp =
     (let body = take (MaxUpstreamResponseBytes + 1) (HStream resp)
      in case HStreamErr resp of
           Some err \<Rightarrow> if length (HStream resp) \<le> MaxUpstreamResponseBytes then Inl (ErrReadingResponse err)
                       else Inl ErrResponseTooLarge
         | None \<Rightarrow> if MaxUpstreamResponseBytes < length body then Inl ErrResponseTooLarge else Inr body)"

text \<open>
  \<open>GenericHTTP.Execute\<close>, with the requests that left the process on the way; what it returns is the
  first component.
\<close>

definition http_Exchange :: "Net \<Rightarrow> GenericHTTP \<Rightarrow> ExecRequest \<Rightarrow> (ProviderError + Response \<times> Usage) \<times> HttpRequest list" where
  "http_Exchange net p req =
     (if MaxUpstreamRequestBytes < length (ReqBody req) then (Inl (ErrBodyTooLarge (length (ReqBody req))), [])
      else let target = upstream_target (BaseURL p) (ReqPath req)
           in case parse_request net (ReqMethod req) target of
                Inl err \<Rightarrow> (Inl (ErrBuildingRequest err), [])
              | Inr url \<Rightarrow>
                  if Scheme url \<noteq> ''http'' \<and> Scheme url \<noteq> ''https'' then (Inl (ErrScheme (Scheme url)), [])
                  else if HasUser url then (Inl ErrEmbeddedCredentials, [])
                  else if AllowedHosts p \<noteq> {} \<and> Host url \<notin> AllowedHosts p
                  then (Inl (ErrHostNotAllowed (Host url) (HttpName p)), [])
                  else let httpReq = \<lparr>HMethod = ReqMethod req, HTarget = target,
                                      HHeader = FilterHopByHopHeaders (ReqHeaders req), HBody = ReqBody req\<rparr>;
                           (answer, sent) = client_Do net (Client p) httpReq
                       in (case answer of
                             Inl err \<Rightarrow> Inl (ErrDo err)
                           | Inr resp \<Rightarrow>
                               (case read_limited resp of
                                  Inl err \<Rightarrow> Inl err
                                | Inr body \<Rightarrow>
                                    Inr (\<lparr>StatusCode = HStatus resp, Body = body, Headers = FilterHopByHopHeaders (HRespHeader resp)\<rparr>,
                                         \<lparr>InputUnits = 1, OutputUnits = 0\<rparr>)), sent))"

definition http_Execute :: "Net \<Rightarrow> GenericHTTP \<Rightarrow> ExecRequest \<Rightarrow> ProviderError + Response \<times> Usage" where
  "http_Execute net p req = fst (http_Exchange net p req)"

text \<open>The interface \<open>Provider\<close> and the registry.\<close>

datatype ProviderImpl = Mock MockProvider | Generic GenericHTTP

primrec provider_Name :: "ProviderImpl \<Rightarrow> string" where
  "provider_Name (Mock p) = MockName p"
| "provider_Name (Generic p) = HttpName p"

primrec provider_Execute :: "Net \<Rightarrow> ProviderImpl \<Rightarrow> ExecRequest \<Rightarrow> ProviderError + Response \<times> Usage" where
  "provider_Execute net (Mock p) req = mock_Execute p req"
| "provider_Execute net (Generic p) req = http_Execute net p req"

text \<open>The requests that leave the process while a provider executes: none from the mock.\<close>

primrec provider_Sent :: "Net \<Rightarrow> ProviderImpl \<Rightarrow> ExecRequest \<Rightarrow> HttpRequest list" where
  "provider_Sent net (Mock p) req = []"
| "provider_Sent net (Generic p) req = snd (http_Exchange net p req)"

record ProviderRegistry =
  providers :: "string \<rightharpoonup> ProviderImpl"

definition provider_NewRegistry :: ProviderRegistry where
  "provider_NewRegistry = \<lparr>providers = Map.empty\<rparr>"

definition Register :: "ProviderImpl \<Rightarrow> ProviderRegistry \<Rightarrow> ProviderRegistry" where
  "Register p r = r\<lparr>providers := (providers r)(provider_Name p \<mapsto> p)\<rparr>"

definition provider_Get :: "string \<Rightarrow> ProviderRegistry \<Rightarrow> ProviderError + ProviderImpl" where
  "provider_Get name r = (case providers r name of None \<Rightarrow> Inl ErrProviderNotFound | Some p \<Rightarrow> Inr p)"

section \<open>Hop-by-hop headers\<close>

lemma filter_hop_lookup:
  "FilterHopByHopHeaders h k = (if k \<in> CanonicalMIMEHeaderKey ` set hopByHopHeaders then None else h k)"
proof -
  have "fold Header_Del ks h k = (if k \<in> CanonicalMIMEHeaderKey ` set ks then None else h k)" for ks
    by (induction ks arbitrary: h) (auto simp: Header_Del_def)
  then show ?thesis by (simp add: FilterHopByHopHeaders_def)
qed

lemma hop_canonical: "CanonicalMIMEHeaderKey ` set hopByHopHeaders = set hopByHopHeaders"
proof -
  have "map CanonicalMIMEHeaderKey hopByHopHeaders = hopByHopHeaders" by code_simp
  then show ?thesis by (metis list.set_map)
qed

section \<open>The upstream host\<close>

text \<open>
  The authority of a URL: what stands between \<open>://\<close> and the next slash, question mark or hash
  sign (RFC 3986).
\<close>

definition after_scheme :: "string \<Rightarrow> string" where
  "after_scheme s = drop 3 (dropWhile (\<lambda>c. c \<noteq> CHR '':'') s)"

definition authority :: "string \<Rightarrow> string" where
  "authority s = takeWhile (\<lambda>c. c \<notin> set ''/?#'') (after_scheme s)"

lemma takeWhile_stop: "x = [] \<or> \<not> P (hd x) \<Longrightarrow> takeWhile P (y @ x) = takeWhile P y"
  by (induction y) (cases x; auto)+

lemma authority_append:
  assumes "trim_right_slash baseURL = scheme @ ''://'' @ rest" and "CHR '':'' \<notin> set scheme" and "path = [] \<or> hd path = CHR ''/''"
  shows "authority (trim_right_slash baseURL @ path) = takeWhile (\<lambda>c. c \<notin> set ''/?#'') rest"
proof -
  have "dropWhile (\<lambda>c. c \<noteq> CHR '':'') (scheme @ ''://'' @ rest @ path) = ''://'' @ rest @ path"
    using assms(2) by (subst dropWhile_append2) auto
  then have "after_scheme (trim_right_slash baseURL @ path) = rest @ path" by (simp add: after_scheme_def assms(1))
  moreover have "path = [] \<or> \<not> hd path \<notin> set ''/?#''" using assms(3) by auto
  ultimately show ?thesis unfolding authority_def by (simp only: takeWhile_stop)
qed

section \<open>Properties\<close>

text \<open>
  A client cannot choose the upstream host: for a base URL of the form \<open>scheme://authority...\<close>,
  the authority of the target is that of the configured base, whatever path the client sends (with
  slashes, dots, question marks, at signs or a whole URL in it).
\<close>

theorem upstream_host_fixed:
  assumes "trim_right_slash baseURL = scheme @ ''://'' @ rest" and "CHR '':'' \<notin> set scheme"
  shows "authority (upstream_target baseURL path) = authority (trim_right_slash baseURL)"
proof -
  let ?p = "if path \<noteq> [] \<and> hd path \<noteq> CHR ''/'' then CHR ''/'' # path else path"
  have "?p = [] \<or> hd ?p = CHR ''/''" by auto
  from authority_append [OF assms this] authority_append [OF assms, of "[]"] show ?thesis
    by (simp add: upstream_target_def)
qed

theorem upstream_host_fixed_witness:
  "authority (upstream_target ''https://api.example.com/'' ''@evil.example/x'') = ''api.example.com''"
proof -
  have t: "trim_right_slash ''https://api.example.com/'' = ''https'' @ ''://'' @ ''api.example.com''" by code_simp
  have "authority (trim_right_slash ''https://api.example.com/'') = ''api.example.com''" by code_simp
  with upstream_host_fixed [OF t] show ?thesis by simp
qed

text \<open>
  The proxy removes exactly the listed hop-by-hop headers: a listed key is absent from the
  filtered header, every other key keeps its values. The list has the key \<open>Trailers\<close> where RFC 7230
  has \<open>Trailer\<close>, so a \<open>Trailer\<close> header is forwarded.
\<close>

theorem hop_by_hop_removed:
  "FilterHopByHopHeaders h k = (if k \<in> set hopByHopHeaders then None else h k)
   \<and> FilterHopByHopHeaders h ''Trailer'' = h ''Trailer''"
  by (simp add: filter_hop_lookup hop_canonical) (simp add: hopByHopHeaders_def)

section \<open>What leaves the process\<close>

text \<open>A client that refuses redirects sends the request it was given, once, and returns the answer to it.\<close>

lemma client_Do_once:
  assumes "client_Do net c q = (answer, sent)" and "CheckRedirect c = ReturnErrUseLastResponse"
  shows "sent = [q] \<and> (\<forall>resp. answer = Inr resp \<longrightarrow> round_trip net (ClientTimeout c) [] q = Inr resp)"
  using assms
  by (auto simp: client_Do_def client_loop.simps [of net c "[]" q] split: sum.splits option.splits)

lemma client_Do_plain:
  "round_trip net (ClientTimeout c) [] q = Inr resp \<Longrightarrow> next_request net [q] resp = None \<Longrightarrow>
   client_Do net c q = (Inr resp, [q])"
  by (simp add: client_Do_def client_loop.simps [of net c "[]" q])

lemma http_Execute_cases:
  assumes "http_Execute net p req = r"
  obtains (failed) err where "r = Inl err" "err \<noteq> ErrProviderNotFound"
  | (answered) resp where "r = Inr (resp, \<lparr>InputUnits = 1, OutputUnits = 0\<rparr>)" "length (Body resp) \<le> MaxUpstreamResponseBytes"
      "length (ReqBody req) \<le> MaxUpstreamRequestBytes"
  using assms
  by (auto simp: http_Execute_def http_Exchange_def read_limited_def Let_def split: prod.splits sum.splits option.splits if_splits)

lemma http_sent:
  assumes "q \<in> set (snd (http_Exchange net (NewGenericHTTP name base hosts) req))"
  shows "q = \<lparr>HMethod = ReqMethod req, HTarget = upstream_target base (ReqPath req),
              HHeader = FilterHopByHopHeaders (ReqHeaders req), HBody = ReqBody req\<rparr>
    \<and> snd (http_Exchange net (NewGenericHTTP name base hosts) req) = [q]
    \<and> (\<exists>url. parse_request net (HMethod q) (HTarget q) = Inr url
        \<and> Scheme url \<in> {''http'', ''https''} \<and> \<not> HasUser url \<and> (set hosts = {} \<or> Host url \<in> set hosts))"
  using assms
  by (auto simp: http_Exchange_def NewGenericHTTP_def Let_def split: if_splits sum.splits prod.splits dest!: client_Do_once)

lemma http_answered:
  assumes "http_Execute net (NewGenericHTTP name base hosts) req = Inr (resp, u)"
  shows "\<exists>q answer. snd (http_Exchange net (NewGenericHTTP name base hosts) req) = [q]
    \<and> round_trip net (30 * Second) [] q = Inr answer
    \<and> StatusCode resp = HStatus answer \<and> Body resp = HStream answer \<and> Headers resp = FilterHopByHopHeaders (HRespHeader answer)"
  using assms
  by (auto simp: http_Execute_def http_Exchange_def NewGenericHTTP_def read_limited_def Let_def
      split: if_splits sum.splits prod.splits option.splits dest!: client_Do_once)

lemma http_sent_once: "length (snd (http_Exchange net (NewGenericHTTP name base hosts) req)) \<le> 1"
proof (cases "snd (http_Exchange net (NewGenericHTTP name base hosts) req)")
  case (Cons q qs)
  then have "q \<in> set (snd (http_Exchange net (NewGenericHTTP name base hosts) req))" by simp
  from http_sent [OF this] have "snd (http_Exchange net (NewGenericHTTP name base hosts) req) = [q]" by (rule conjE) blast
  then show ?thesis by simp
qed simp

section \<open>Properties of the generic provider\<close>

text \<open>
  The generic provider only talks to what it was configured for: if it returns a response, the
  body it sent and the body it returns are within their limits, the URL it used was \<open>http\<close> or
  \<open>https\<close>, without credentials and to an allowed host, and the usage is one flat unit.
\<close>

theorem http_Execute_guards:
  assumes "http_Execute net p req = Inr (resp, u)"
  shows "length (ReqBody req) \<le> MaxUpstreamRequestBytes \<and> length (Body resp) \<le> MaxUpstreamResponseBytes
    \<and> u = \<lparr>InputUnits = 1, OutputUnits = 0\<rparr>
    \<and> (\<exists>url. parse_request net (ReqMethod req) (upstream_target (BaseURL p) (ReqPath req)) = Inr url
        \<and> Scheme url \<in> {''http'', ''https''} \<and> \<not> HasUser url \<and> (AllowedHosts p = {} \<or> Host url \<in> AllowedHosts p))"
  using assms
  by (auto simp: http_Execute_def http_Exchange_def read_limited_def Let_def split: prod.splits if_splits sum.splits option.splits)

definition demo_net :: Net where
  "demo_net = \<lparr>parse_request = (\<lambda>meth target. Inr \<lparr>Scheme = takeWhile (\<lambda>c. c \<noteq> CHR '':'') target, HasUser = False, Host = authority target\<rparr>),
     round_trip = (\<lambda>t via q. Inr \<lparr>HStatus = 200, HRespHeader = Map.empty, HStream = HTarget q, HStreamErr = None\<rparr>),
     next_request = (\<lambda>via resp. None), client_error = (\<lambda>via err. err)\<rparr>"

theorem http_Execute_guards_witness:
  "length ''http://up/x'' \<le> MaxUpstreamResponseBytes
   \<and> (\<exists>url. parse_request demo_net ''GET'' (upstream_target ''http://up'' ''x'') = Inr url \<and> Host url \<in> {''up''})"
proof -
  have "FilterHopByHopHeaders Map.empty = Map.empty" by (rule ext) (simp add: filter_hop_lookup)
  then have "http_Execute demo_net (NewGenericHTTP ''http'' ''http://up'' [''up''])
      \<lparr>ReqMethod = ''GET'', ReqURL = [], ReqPath = ''x'', ReqHeaders = Map.empty, ReqBody = []\<rparr>
    = Inr (\<lparr>StatusCode = 200, Body = ''http://up/x'', Headers = Map.empty\<rparr>, \<lparr>InputUnits = 1, OutputUnits = 0\<rparr>)"
    by (simp add: http_Execute_def http_Exchange_def client_Do_plain NewGenericHTTP_def demo_net_def upstream_target_def trim_right_slash_def Let_def
        authority_def after_scheme_def read_limited_def MaxUpstreamRequestBytes_def MaxUpstreamResponseBytes_def)
  from http_Execute_guards [OF this] show ?thesis by (simp add: NewGenericHTTP_def) blast
qed

end
