(* ===== verification/Gateway.thy ===== *)
theory Gateway
  imports Risk Pricing Ledger Provider
begin

text \<open>
  Package \<open>gateway\<close> (\<open>internal/gateway/gateway.go\<close>): the request pipeline. The gateway holds
  pointers to the five components; here it is the record of their states, and \<open>HandleRequest\<close>
  passes it through its stages. The upstream network is the parameter \<open>net\<close>. A \<open>None\<close> decision
  in a result is Go's zero \<open>Decision\<close>.
\<close>

record RouteConfig =
  RCRoute :: string
  RCProvider :: string
  RCModel :: string

record Gateway =
  GRisk :: Engine
  GReserv :: Manager
  GPricing :: Registry
  GProviders :: ProviderRegistry
  GLedger :: Ledger

definition gateway_New :: "Engine \<Rightarrow> Manager \<Rightarrow> Registry \<Rightarrow> ProviderRegistry \<Rightarrow> Ledger \<Rightarrow> Gateway" where
  "gateway_New e m pr ps l = \<lparr>GRisk = e, GReserv = m, GPricing = pr, GProviders = ps, GLedger = l\<rparr>"

datatype GatewayError = ErrPricing PricingError | ErrProvider ProviderError | ErrReserv ResError

primrec PricingError_String :: "PricingError \<Rightarrow> string" where
  "PricingError_String ErrNoPricingInEffect = ''pricing: no version in effect at requested time''"

primrec GatewayError_String :: "GatewayError \<Rightarrow> string" where
  "GatewayError_String (ErrPricing e) = ''pricing lookup failed: '' @ PricingError_String e"
| "GatewayError_String (ErrProvider e) = ProviderError_String e"
| "GatewayError_String (ErrReserv e) = ResError_String e"

record RequestResult =
  ResultID :: string
  ResultDecision :: "Decision option"
  Executed :: bool
  ResultResponse :: Response
  ResultUsage :: Usage
  ResultCost :: micros
  ResultReconcile :: ReconcileResult
  ResultErr :: "GatewayError option"

definition result0 :: "string \<Rightarrow> RequestResult" where
  "result0 rid = \<lparr>ResultID = rid, ResultDecision = None, Executed = False, ResultResponse = Response0,
     ResultUsage = Usage0, ResultCost = 0, ResultReconcile = ReconcileResult0, ResultErr = None\<rparr>"

definition emit :: "time \<Rightarrow> Event \<Rightarrow> Gateway \<Rightarrow> Gateway" where
  "emit now e g = g\<lparr>GLedger := snd (Append now e (GLedger g))\<rparr>"

text \<open>A caller: the request and tenant identifiers and the route; \<open>gateway_itoa\<close> is \<open>%d\<close> of an \<open>int\<close>.\<close>

record Caller =
  CallID :: string
  CallTenant :: string
  CallRoute :: RouteConfig

definition gateway_itoa :: "int64 \<Rightarrow> string" where
  "gateway_itoa n = dec_int (sint n)"

definition ev :: "EventType \<Rightarrow> Caller \<Rightarrow> Event" where
  "ev ty c = event0 ty (CallTenant c) (CallID c)"

definition routed :: "Caller \<Rightarrow> Event \<Rightarrow> Event" where
  "routed c e = e\<lparr>Route := RCRoute (CallRoute c), Provider := RCProvider (CallRoute c)\<rparr>"

text \<open>The stages: admission, execution, reconciliation; the clock readings are numbered over all of them.\<close>

definition reconcile_stage :: "clock \<Rightarrow> Caller \<Rightarrow> Rate \<Rightarrow> Decision \<Rightarrow> Response \<Rightarrow> Usage \<Rightarrow> Gateway \<Rightarrow> RequestResult \<times> Gateway" where
  "reconcile_stage clk c rate d resp usage g =
     (let actualCost = Estimate rate (InputUnits usage) (OutputUnits usage);
          g = emit (clk 33) ((ev UsageReported c)\<lparr>Amount := actualCost\<rparr>) g;
          res = (result0 (CallID c))\<lparr>ResultDecision := Some d, Executed := True, ResultResponse := resp,
                  ResultUsage := usage, ResultCost := actualCost\<rparr>;
          (rec, m) = Reconcile (DReservationID d) actualCost (GReserv g);
          g = g\<lparr>GReserv := m\<rparr>
      in case rec of
           Inl err \<Rightarrow>
             (res\<lparr>ResultErr := Some (ErrReserv err)\<rparr>,
              emit (clk 34) ((ev RequestFailed c)\<lparr>Metadata := [''error'' \<mapsto> ''reconciliation failed: '' @ ResError_String err]\<rparr>) g)
         | Inr rr \<Rightarrow>
             (res\<lparr>ResultReconcile := rr\<rparr>,
              let g = emit (clk 35) ((ev CostReconciled c)\<lparr>ReservationID := DReservationID d, Amount := actualCost,
                        Metadata := [''released'' \<mapsto> micros_String (RecReleased rr), ''overage'' \<mapsto> micros_String (RecOverage rr)]\<rparr>) g
              in g\<lparr>GRisk := RecordUsage (clock_from 36 clk) (CallTenant c) actualCost (GRisk g)\<rparr>))"

definition give_back :: "Decision \<Rightarrow> Gateway \<Rightarrow> Gateway" where
  "give_back d g = g\<lparr>GReserv := snd (Release (DReservationID d) (GReserv g))\<rparr>"

definition execute_stage :: "Net \<Rightarrow> clock \<Rightarrow> Caller \<Rightarrow> ExecRequest \<Rightarrow> Rate \<Rightarrow> Decision \<Rightarrow> Gateway \<Rightarrow> RequestResult \<times> Gateway" where
  "execute_stage net clk c execReq rate d g =
     (let res = (result0 (CallID c))\<lparr>ResultDecision := Some d\<rparr>
      in case provider_Get (RCProvider (CallRoute c)) (GProviders g) of
           Inl err \<Rightarrow>
             (res\<lparr>ResultErr := Some (ErrProvider err)\<rparr>,
              emit (clk 29) ((ev ReservationReleased c)\<lparr>ReservationID := DReservationID d,
                  Metadata := [''reason'' \<mapsto> ''provider not found'']\<rparr>) (give_back d g))
         | Inr p \<Rightarrow>
             (case provider_Execute net p execReq of
                Inl err \<Rightarrow>
                  (res\<lparr>ResultErr := Some (ErrProvider err)\<rparr>,
                   emit (clk 31) ((ev RequestFailed c)\<lparr>Metadata := [''error'' \<mapsto> ProviderError_String err]\<rparr>)
                     (emit (clk 30) ((ev ReservationReleased c)\<lparr>ReservationID := DReservationID d,
                        Metadata := [''reason'' \<mapsto> ''execution failed'']\<rparr>) (give_back d g)))
              | Inr (resp, usage) \<Rightarrow>
                  reconcile_stage clk c rate d resp usage (emit (clk 32) (routed c (ev RequestExecuted c)) g)))"

definition created_event :: "Caller \<Rightarrow> Decision \<Rightarrow> micros \<Rightarrow> Event" where
  "created_event c d est = (ev ReservationCreated c)\<lparr>ReservationID := DReservationID d, Amount := est\<rparr>"

definition dispatch :: "Net \<Rightarrow> clock \<Rightarrow> Caller \<Rightarrow> ExecRequest \<Rightarrow> Rate \<Rightarrow> micros \<Rightarrow> Decision \<Rightarrow> Gateway \<Rightarrow> RequestResult \<times> Gateway" where
  "dispatch net clk c execReq rate est d g =
     (if DAction d = ActionAllow \<or> DAction d = ActionAllowWithLimit then
        execute_stage net clk c execReq rate d
          (emit (clk 25) ((routed c (ev RequestAllowed c))\<lparr>Amount := est,
               Metadata := [''risk_score'' \<mapsto> gateway_itoa (DRiskScore d)]\<rparr>)
            (emit (clk 24) (created_event c d est) g))
      else if DAction d = ActionThrottle then
        ((result0 (CallID c))\<lparr>ResultDecision := Some d\<rparr>,
         emit (clk 27) ((routed c (ev RequestThrottled c))\<lparr>Metadata := [''risk_score'' \<mapsto> gateway_itoa (DRiskScore d)]\<rparr>)
           (if DReservationID d \<noteq> '''' then emit (clk 26) (created_event c d est) g else g))
      else
        ((result0 (CallID c))\<lparr>ResultDecision := Some d\<rparr>,
         emit (clk 28) ((routed c (ev RequestBlocked c))\<lparr>Metadata := [''reason'' \<mapsto> DReason d, ''rule'' \<mapsto> DRuleTriggered d]\<rparr>) g))"

definition HandleRequest :: "Net \<Rightarrow> clock \<Rightarrow> Caller \<Rightarrow> ExecRequest \<Rightarrow> int64 \<Rightarrow> int64 \<Rightarrow> int64 \<Rightarrow> Gateway \<Rightarrow> RequestResult \<times> Gateway" where
  "HandleRequest net clk c execReq estIn estOut concurrency g =
     (case RateAt (GPricing g) (RCProvider (CallRoute c)) (RCModel (CallRoute c)) (clk 0) of
        Inl err \<Rightarrow>
          ((result0 (CallID c))\<lparr>ResultErr := Some (ErrPricing err)\<rparr>,
           emit (clk 1) ((ev RequestFailed c)\<lparr>Route := RCRoute (CallRoute c), Metadata := [''error'' \<mapsto> PricingError_String err]\<rparr>) g)
      | Inr rate \<Rightarrow>
          (let est = Estimate rate estIn estOut;
               g = emit (clk 2) ((routed c (ev RequestEstimated c))\<lparr>Amount := est\<rparr>) g;
               (d, e, m) = Evaluate (clock_from 3 clk)
                 \<lparr>ReqTenant = CallTenant c, ReqRoute = RCRoute (CallRoute c), ReqProvider = RCProvider (CallRoute c),
                  ReqEstimate = est, ReqConcurrency = concurrency\<rparr> (GRisk g) (GReserv g)
           in dispatch net clk c execReq rate est d (g\<lparr>GRisk := e, GReserv := m\<rparr>)))"

declare emit_def [op_defs] ev_def [op_defs] routed_def [op_defs]

section \<open>The audit trail\<close>

definition labels :: "Gateway \<Rightarrow> (EventType \<times> string \<times> string) list" where
  "labels g = map (\<lambda>e. (Type e, TenantID e, RequestID e)) (events (GLedger g))"

lemma labels_emit [simp]: "labels (emit now e g) = labels g @ [(Type e, TenantID e, RequestID e)]"
  by (simp add: labels_def emit_def Append_def Let_def)

lemma labels_upd [simp]: "labels (g\<lparr>GRisk := e\<rparr>) = labels g" "labels (g\<lparr>GReserv := m\<rparr>) = labels g"
  "labels (give_back d g) = labels g"
  by (simp_all add: labels_def give_back_def)

lemma emit_sel [simp]: "GRisk (emit now e g) = GRisk g" "GReserv (emit now e g) = GReserv g"
  "GPricing (emit now e g) = GPricing g" "GProviders (emit now e g) = GProviders g"
  by (simp_all add: emit_def)

lemma ev_sel [simp]: "Type (ev ty c) = ty" "TenantID (ev ty c) = CallTenant c" "RequestID (ev ty c) = CallID c"
  "Type (routed c e) = Type e" "TenantID (routed c e) = TenantID e" "RequestID (routed c e) = RequestID e"
  by (simp_all add: ev_def event0_def routed_def)

text \<open>The events a finished request has left, read off its result.\<close>

definition execution_trail :: "RequestResult \<Rightarrow> EventType list" where
  "execution_trail res =
     (if Executed res then [RequestExecuted, UsageReported, if ResultErr res = None then CostReconciled else RequestFailed]
      else if ResultErr res = Some (ErrProvider ErrProviderNotFound) then [ReservationReleased]
      else [ReservationReleased, RequestFailed])"

definition expected_trail :: "RequestResult \<Rightarrow> EventType list" where
  "expected_trail res =
     (case ResultDecision res of
        None \<Rightarrow> [RequestFailed]
      | Some d \<Rightarrow> RequestEstimated #
          (if DAction d = ActionAllow \<or> DAction d = ActionAllowWithLimit
           then [ReservationCreated, RequestAllowed] @ execution_trail res
           else if DAction d = ActionThrottle
           then (if DReservationID d = '''' then [] else [ReservationCreated]) @ [RequestThrottled]
           else [RequestBlocked]))"

definition tagged :: "Caller \<Rightarrow> EventType list \<Rightarrow> (EventType \<times> string \<times> string) list" where
  "tagged c tys = map (\<lambda>ty. (ty, CallTenant c, CallID c)) tys"

lemma Execute_not_unregistered: "provider_Execute net p req \<noteq> Inl ErrProviderNotFound"
  by (cases p) (auto simp: mock_Execute_def Let_def elim: http_Execute_cases)

lemma reconcile_stage_trail:
  assumes "reconcile_stage clk c rate d resp usage g = (res, g')"
  shows "labels g' = labels g @ tagged c [UsageReported, if ResultErr res = None then CostReconciled else RequestFailed]
    \<and> Executed res \<and> ResultDecision res = Some d"
  using assms by (auto simp: reconcile_stage_def result0_def tagged_def Let_def split: prod.splits sum.splits)

lemma execute_stage_trail:
  assumes "execute_stage net clk c x rate d g = (res, g')"
  shows "labels g' = labels g @ tagged c (execution_trail res) \<and> ResultDecision res = Some d"
proof (cases "provider_Get (RCProvider (CallRoute c)) (GProviders g)")
  case (Inl err)
  moreover have "err = ErrProviderNotFound" using Inl by (auto simp: provider_Get_def split: option.splits)
  ultimately show ?thesis using assms
    by (auto simp: execute_stage_def result0_def tagged_def execution_trail_def)
next
  case (Inr p)
  show ?thesis
  proof (cases "provider_Execute net p x")
    case (Inl err)
    with Execute_not_unregistered [of net p x] Inr assms show ?thesis
      by (auto simp: execute_stage_def result0_def tagged_def execution_trail_def)
  next
    case ok: (Inr ru)
    obtain resp usage where ru: "ru = (resp, usage)" by fastforce
    from assms Inr ok ru reconcile_stage_trail [of clk c rate d resp usage _ res g'] show ?thesis
      by (auto simp: execute_stage_def tagged_def execution_trail_def)
  qed
qed

lemma dispatch_trail:
  assumes "dispatch net clk c x rate est d g = (res, g')"
  shows "labels g' = labels g @ tagged c (tl (expected_trail res)) \<and> ResultDecision res = Some d"
proof (cases "DAction d = ActionAllow \<or> DAction d = ActionAllowWithLimit")
  case True
  with assms obtain g1 where g1: "execute_stage net clk c x rate d g1 = (res, g')"
    and l: "labels g1 = labels g @ tagged c [ReservationCreated, RequestAllowed]"
    by (auto simp: dispatch_def tagged_def created_event_def)
  from execute_stage_trail [OF g1] True l show ?thesis by (auto simp: expected_trail_def tagged_def)
next
  case False
  with assms show ?thesis
    by (auto simp: dispatch_def expected_trail_def tagged_def result0_def created_event_def split: if_splits)
qed

lemma HandleRequest_cases:
  assumes "HandleRequest net clk c x estIn estOut conc g = (res, g')"
  obtains (unpriced) err where "RateAt (GPricing g) (RCProvider (CallRoute c)) (RCModel (CallRoute c)) (clk 0) = Inl err"
      "res = (result0 (CallID c))\<lparr>ResultErr := Some (ErrPricing err)\<rparr>"
      "labels g' = labels g @ tagged c [RequestFailed]" "GReserv g' = GReserv g" "GRisk g' = GRisk g"
  | (decided) rate d e m g1 where "RateAt (GPricing g) (RCProvider (CallRoute c)) (RCModel (CallRoute c)) (clk 0) = Inr rate"
      "Evaluate (clock_from 3 clk) \<lparr>ReqTenant = CallTenant c, ReqRoute = RCRoute (CallRoute c), ReqProvider = RCProvider (CallRoute c),
          ReqEstimate = Estimate rate estIn estOut, ReqConcurrency = conc\<rparr> (GRisk g) (GReserv g) = (d, e, m)"
      "labels g1 = labels g @ tagged c [RequestEstimated]" "GReserv g1 = m" "GRisk g1 = e"
      "dispatch net clk c x rate (Estimate rate estIn estOut) d g1 = (res, g')"
proof (cases "RateAt (GPricing g) (RCProvider (CallRoute c)) (RCModel (CallRoute c)) (clk 0)")
  case (Inl err)
  then show ?thesis using assms by (intro unpriced) (auto simp: HandleRequest_def tagged_def)
next
  case (Inr rate)
  let ?req = "\<lparr>ReqTenant = CallTenant c, ReqRoute = RCRoute (CallRoute c), ReqProvider = RCProvider (CallRoute c),
          ReqEstimate = Estimate rate estIn estOut, ReqConcurrency = conc\<rparr>"
  obtain d e m where e: "Evaluate (clock_from 3 clk) ?req (GRisk g) (GReserv g) = (d, e, m)" by (metis prod_cases3)
  show ?thesis
    by (rule decided [OF Inr e, of "(emit (clk 2) ((routed c (ev RequestEstimated c))\<lparr>Amount := Estimate rate estIn estOut\<rparr>) g)\<lparr>GRisk := e, GReserv := m\<rparr>"])
       (use assms Inr e in \<open>auto simp: HandleRequest_def tagged_def Let_def\<close>)
qed

section \<open>Admission and settlement\<close>

text \<open>
  What the pipeline relies on: a budget implementation and an admission test in front of it that
  takes exactly one hold when it admits and nothing otherwise. What an admitted request leaves of
  the budget depends only on how it ends.
\<close>

locale admission = budget_impl inv budget room reserve release reconcile
  for inv :: "'m \<Rightarrow> bool" and budget :: "'m \<Rightarrow> Budget" and room :: "'m \<Rightarrow> int64 \<Rightarrow> bool"
    and reserve :: "string \<Rightarrow> int64 \<Rightarrow> 'm \<Rightarrow> string option \<times> 'm"
    and release :: "string \<Rightarrow> 'm \<Rightarrow> 'm" and reconcile :: "string \<Rightarrow> int64 \<Rightarrow> 'm \<Rightarrow> 'm" +
  fixes admit :: "'q \<Rightarrow> 'e \<Rightarrow> 'm \<Rightarrow> string option \<times> 'e \<times> 'm" and tenant :: "'q \<Rightarrow> string" and cost :: "'q \<Rightarrow> int64"
  assumes admit_inv: "inv m \<Longrightarrow> room m (cost q) \<Longrightarrow> admit q e m = (ko, e', m') \<Longrightarrow> inv m'"
    and admit_some: "inv m \<Longrightarrow> room m (cost q) \<Longrightarrow> admit q e m = (Some k, e', m') \<Longrightarrow>
      aHolds (budget m) k = None \<and> a_reserve k (tenant q) (sint (cost q)) (budget m) = Some (budget m')"
    and admit_none: "inv m \<Longrightarrow> room m (cost q) \<Longrightarrow> admit q e m = (None, e', m') \<Longrightarrow> budget m' = budget m"
begin

lemma admitted_hold:
  assumes "inv m" "room m (cost q)" "admit q e m = (Some k, e', m')"
  shows "budget m' = (budget m)\<lparr>aHolds := (aHolds (budget m))(k \<mapsto> (tenant q, sint (cost q)))\<rparr>" and "aHolds (budget m) k = None"
  using admit_some [OF assms] by (auto simp: a_reserve_def split: if_splits)

lemma admit_then_release:
  assumes "inv m" "room m (cost q)" "admit q e m = (Some k, e', m')"
  shows "inv (release k m') \<and> budget (release k m') = budget m"
  using release_free [OF admit_inv [OF assms], of k] admitted_hold [OF assms] by (simp add: a_free_def fun_upd_idem)

lemma admit_then_settle:
  assumes "inv m" "room m (cost q)" "admit q e m = (Some k, e', m')" "0 \<le> sint c" "sint c \<le> sint (cost q)"
  shows "inv (reconcile k c m') \<and> budget (reconcile k c m')
    = (budget m)\<lparr>aSpent := (aSpent (budget m))(tenant q := aSpent (budget m) (tenant q) + sint c)\<rparr>"
proof -
  note h = admitted_hold [OF assms(1-3)]
  have "aHolds (budget m') k = Some (tenant q, sint (cost q))" by (simp add: h)
  from reconcile_settle [OF admit_inv [OF assms(1-3)] this assms(4,5)] h show ?thesis
    by (simp add: a_settle_def fun_upd_idem)
qed

end

definition admit_eval :: "clock \<Rightarrow> RiskRequest \<Rightarrow> Engine \<Rightarrow> Manager \<Rightarrow> string option \<times> Engine \<times> Manager" where
  "admit_eval clk req e m =
     (let (d, e', m') = Evaluate clk req e m in (if admits d then Some (DReservationID d) else None, e', m'))"

interpretation engine_admission: admission solvent view can_reserve "reserve_id rclk ttl"
  "\<lambda>k m. snd (Release k m)" "\<lambda>k c m. snd (Reconcile k c m)" "admit_eval clk" ReqTenant ReqEstimate for clk rclk ttl
proof
  fix m e e' m' and q :: RiskRequest
  assume i: "solvent m" and r: "can_reserve m (ReqEstimate q)"
  obtain d e1 m1 where ev: "Evaluate clk q e m = (d, e1, m1)" by (metis prod_cases3)
  note b = Evaluate_budget [OF ev i r]
  {
    fix k
    assume "admit_eval clk q e m = (k, e', m')"
    with ev b show "solvent m'" by (auto simp: admit_eval_def)
  }
  {
    fix k
    assume "admit_eval clk q e m = (Some k, e', m')"
    with ev b show "aHolds (view m) k = None \<and> a_reserve k (ReqTenant q) (sint (ReqEstimate q)) (view m) = Some (view m')"
      by (auto simp: admit_eval_def split: if_splits)
  }
  assume "admit_eval clk q e m = (None, e', m')"
  with ev b show "view m' = view m" by (auto simp: admit_eval_def split: if_splits)
qed

text \<open>How the pipeline goes on from an admission.\<close>

lemma Reconcile_held:
  assumes "books m" and "aHolds (view m) k = Some h"
  shows "\<exists>rr. fst (Reconcile k c m) = Inr rr" and "aHolds (view (snd (Reconcile k c m))) = (aHolds (view m))(k := None)"
proof -
  obtain r where r: "reservations m k = Some r" "ResStatus r = StateReserved"
    using assms(2) by (auto simp: hold_of_def bind_eq_Some_conv split: if_splits)
  have "ResID r = k" using books_entry(1) [OF assms(1) r(1)] .
  then show "\<exists>rr. fst (Reconcile k c m) = Inr rr" and "aHolds (view (snd (Reconcile k c m))) = (aHolds (view m))(k := None)"
    using r by (auto simp: Reconcile_def reconcile_apply_settle [OF assms(1) r(1)] hold_of_def)
qed

lemma reconcile_stage_reserv:
  assumes "reconcile_stage clk c rate d resp usage g = (res, g')"
  shows "GReserv g' = snd (Reconcile (DReservationID d) (ResultCost res) (GReserv g))"
    and "ResultCost res = Estimate rate (InputUnits usage) (OutputUnits usage)" and "Executed res"
    and "ResultErr res = None \<longleftrightarrow> (\<exists>rr. fst (Reconcile (DReservationID d) (ResultCost res) (GReserv g)) = Inr rr)"
  using assms by (auto simp: reconcile_stage_def result0_def Let_def split: prod.splits sum.splits)

lemma execute_stage_reserv:
  assumes "execute_stage net clk c x rate d g = (res, g')"
  obtains (released) "\<not> Executed res" "GReserv g' = snd (Release (DReservationID d) (GReserv g))" "\<exists>e. ResultErr res = Some (ErrProvider e)"
  | (settled) "Executed res" "GReserv g' = snd (Reconcile (DReservationID d) (ResultCost res) (GReserv g))"
      "ResultErr res = None \<longleftrightarrow> (\<exists>rr. fst (Reconcile (DReservationID d) (ResultCost res) (GReserv g)) = Inr rr)"
proof (cases "provider_Get (RCProvider (CallRoute c)) (GProviders g)")
  case (Inl err)
  then show ?thesis using assms by (intro released) (auto simp: execute_stage_def result0_def give_back_def)
next
  case (Inr p)
  show ?thesis
  proof (cases "provider_Execute net p x")
    case (Inl err)
    then show ?thesis using assms Inr by (intro released) (auto simp: execute_stage_def result0_def give_back_def)
  next
    case ok: (Inr ru)
    obtain resp usage where "ru = (resp, usage)" by fastforce
    with assms Inr ok have "reconcile_stage clk c rate d resp usage (emit (clk 32) (routed c (ev RequestExecuted c)) g) = (res, g')"
      by (simp add: execute_stage_def)
    from reconcile_stage_reserv [OF this] show ?thesis by (intro settled) simp_all
  qed
qed

text \<open>The budget after an admitted request was executed or failed.\<close>

lemma execute_stage_budget:
  assumes ex: "execute_stage net clk c x rate d g2 = (res, g')" and g2: "GReserv g2 = m" and s: "solvent m0"
    and ad: "admit_eval clk' q e0 m0 = (Some (DReservationID d), e, m)" and est: "can_reserve m0 (ReqEstimate q)" and bk: "books m"
  obtains (failed) "\<not> Executed res" "view (GReserv g') = view m0"
  | (executed) "Executed res" "ResultErr res = None" "aHolds (view (GReserv g')) = aHolds (view m0)"
      "0 \<le> sint (ResultCost res) \<and> sint (ResultCost res) \<le> sint (ReqEstimate q) \<Longrightarrow>
        view (GReserv g') = (view m0)\<lparr>aSpent := (aSpent (view m0)) (ReqTenant q := aSpent (view m0) (ReqTenant q) + sint (ResultCost res))\<rparr>"
proof -
  note rel = engine_admission.admit_then_release [OF s _ ad, simplified, OF est]
    and set = engine_admission.admit_then_settle [OF s _ ad, simplified, OF est]
    and hold = engine_admission.admitted_hold [OF s _ ad, simplified, OF est]
  from ex show thesis
  proof (cases rule: execute_stage_reserv)
    case released
    with rel g2 show thesis by (intro failed) simp_all
  next
    case settled
    note rc = Reconcile_held [OF bk, of "DReservationID d"]
    have "aHolds (view (GReserv g')) = aHolds (view m0)" using rc(2) settled(2) hold g2 by (simp add: fun_upd_idem)
    with settled g2 rc(1) hold set show thesis by (intro executed) simp_all
  qed
qed

text \<open>The budget after a whole request, by how it ended.\<close>

text \<open>What a settled hold leaves behind: the reservation at its final cost, and the cost on the account.\<close>

lemma Reconcile_records:
  assumes "books m" and "aHolds (view m) k = Some (t, a)" and "m' = snd (Reconcile k cost m)"
  shows "\<exists>r. Get k m' = Inr r \<and> ResTenant r = t \<and> sint (ResAmount r) = a \<and> ResStatus r = StateReconciled \<and> ActualCost r = cost"
    and "settled (acc_of m' u) = (if u = t then settled (acc_of m t) + cost else settled (acc_of m u))"
proof -
  obtain r where r: "reservations m k = Some r" "ResStatus r = StateReserved" "ResTenant r = t" "sint (ResAmount r) = a"
    using assms(2) by (auto simp: hold_of_def bind_eq_Some_conv split: if_splits)
  have e: "ResID r = k" "accounts m t \<noteq> None" "\<not> IsReconciled r"
    using books_entry [OF assms(1) r(1)] r(2,3) by auto
  have m': "m' = put_reservation (r\<lparr>ActualCost := cost, IsReconciled := True, ResStatus := StateReconciled\<rparr>)
      (put_account t ((acc_of m t)\<lparr>reserved := reserved (acc_of m t) - ResAmount r, settled := settled (acc_of m t) + cost\<rparr>) (snd (getAccount t m)))"
    using r e(3) by (simp add: assms(3) Reconcile_def reconcile_apply_def)
  show "\<exists>r. Get k m' = Inr r \<and> ResTenant r = t \<and> sint (ResAmount r) = a \<and> ResStatus r = StateReconciled \<and> ActualCost r = cost"
    using r e(1) by (simp add: m' Get_def put_reservation_def)
  show "settled (acc_of m' u) = (if u = t then settled (acc_of m t) + cost else settled (acc_of m u))"
    using e(2) by (auto simp: m' acc_of_def put_reservation_def put_account_def getAccount_def)
qed

text \<open>An executed request has settled its own reservation at the reported cost and charged its tenant.\<close>

lemma executed_is_settled:
  assumes h: "HandleRequest net clk c x estIn estOut conc g = (res, g')" and s: "solvent (GReserv g)"
    and r: "RateAt (GPricing g) (RCProvider (CallRoute c)) (RCModel (CallRoute c)) (clk 0) = Inr rate"
    and est: "can_reserve (GReserv g) (Estimate rate estIn estOut)" and ex: "Executed res"
  shows "(\<exists>d v. ResultDecision res = Some d \<and> Get (DReservationID d) (GReserv g') = Inr v \<and> ResTenant v = CallTenant c
      \<and> ResAmount v = Estimate rate estIn estOut \<and> ResStatus v = StateReconciled \<and> ActualCost v = ResultCost res)
    \<and> (\<forall>u. settled (acc_of (GReserv g') u) = settled (acc_of (GReserv g) u) + (if u = CallTenant c then ResultCost res else 0))"
  using h
proof (cases rule: HandleRequest_cases)
  case (decided rate' d e m g1)
  have [simp]: "rate' = rate" using decided(1) r by simp
  note b = Evaluate_budget [OF decided(2) s, simplified, OF est]
  have ad: "DAction d = ActionAllow" using decided(6) b ex by (auto simp: dispatch_def result0_def split: if_splits)
  then obtain g2 where x: "execute_stage net clk c x rate d g2 = (res, g')" and g2: "GReserv g2 = m"
    using decided(4,6) by (auto simp: dispatch_def)
  have rd: "ResultDecision res = Some d" using execute_stage_trail [OF x] by simp
  have "a_reserve (DReservationID d) (CallTenant c) (sint (Estimate rate estIn estOut)) (view (GReserv g)) = Some (view m)"
    using b ad by (simp add: admits_def)
  then have grant: "view m = (view (GReserv g))\<lparr>aHolds := (aHolds (view (GReserv g)))
      (DReservationID d \<mapsto> (CallTenant c, sint (Estimate rate estIn estOut)))\<rparr>"
    by (auto simp: a_reserve_def simp del: view_sel split: if_splits)
  have hold: "aHolds (view m) (DReservationID d) = Some (CallTenant c, sint (Estimate rate estIn estOut))"
    and same: "aSpent (view m) = aSpent (view (GReserv g))" by (simp_all add: grant del: view_sel)
  have kept: "settled (acc_of m u) = settled (acc_of (GReserv g) u)" for u
    using fun_cong [OF same, of u] by (simp add: signed_word_eqI)
  have "GReserv g' = snd (Reconcile (DReservationID d) (ResultCost res) m)"
    using x by (cases rule: execute_stage_reserv) (use ex g2 in auto)
  note rec = Reconcile_records [OF _ hold this]
  have bk: "books m" using b solvent_books by blast
  show ?thesis using rec(1) [OF bk] rec(2) [OF bk] rd kept by (auto simp: signed_word_eqI)
qed (use ex in \<open>simp add: result0_def\<close>)

lemma HandleRequest_budget:
  assumes h: "HandleRequest net clk c x estIn estOut conc g = (res, g')" and s: "solvent (GReserv g)"
    and r: "RateAt (GPricing g) (RCProvider (CallRoute c)) (RCModel (CallRoute c)) (clk 0) = Inr rate"
    and est: "can_reserve (GReserv g) (Estimate rate estIn estOut)"
  obtains (refused) d where "ResultDecision res = Some d" "\<not> admits d" "\<not> Executed res" "view (GReserv g') = view (GReserv g)"
  | (throttled) d where "ResultDecision res = Some d" "DAction d = ActionThrottle" "\<not> Executed res"
      "a_reserve (DReservationID d) (CallTenant c) (sint (Estimate rate estIn estOut)) (view (GReserv g)) = Some (view (GReserv g'))"
      "aHolds (view (GReserv g)) (DReservationID d) = None"
  | (failed) d where "ResultDecision res = Some d" "DAction d = ActionAllow" "\<not> Executed res" "view (GReserv g') = view (GReserv g)"
  | (executed) d where "ResultDecision res = Some d" "DAction d = ActionAllow" "Executed res" "ResultErr res = None"
      "aHolds (view (GReserv g')) = aHolds (view (GReserv g))"
      "0 \<le> sint (ResultCost res) \<and> sint (ResultCost res) \<le> sint (Estimate rate estIn estOut) \<Longrightarrow>
        view (GReserv g') = (view (GReserv g))\<lparr>aSpent := (aSpent (view (GReserv g)))
          (CallTenant c := aSpent (view (GReserv g)) (CallTenant c) + sint (ResultCost res))\<rparr>"
  using h
proof (cases rule: HandleRequest_cases)
  case (decided rate' d e m g1)
  let ?req = "\<lparr>ReqTenant = CallTenant c, ReqRoute = RCRoute (CallRoute c), ReqProvider = RCProvider (CallRoute c),
          ReqEstimate = Estimate rate estIn estOut, ReqConcurrency = conc\<rparr>"
  have [simp]: "rate' = rate" using decided(1) r by simp
  note b = Evaluate_budget [OF decided(2) s, simplified, OF est]
  have rd: "ResultDecision res = Some d" using dispatch_trail [OF decided(6)] by simp
  show ?thesis
  proof (cases "admits d")
    case False
    then have "\<not> Executed res \<and> GReserv g' = m"
      using decided(4,6) b by (auto simp: dispatch_def result0_def admits_def split: if_splits)
    with False rd b show ?thesis by (intro refused [of d]) auto
  next
    case True
    have ad: "admit_eval (clock_from 3 clk) ?req (GRisk g) (GReserv g) = (Some (DReservationID d), e, m)"
      using decided(2) True by (simp add: admit_eval_def)
    show ?thesis
    proof (cases "DAction d = ActionThrottle")
      case thr: True
      then have "\<not> Executed res \<and> GReserv g' = m"
        using decided(4,6) by (auto simp: dispatch_def result0_def split: if_splits)
      with thr rd b True show ?thesis by (intro throttled [of d]) auto
    next
      case False
      then have al: "DAction d = ActionAllow" using True by (simp add: admits_def)
      then obtain g2 where ex: "execute_stage net clk c x rate d g2 = (res, g')" and g2: "GReserv g2 = m"
        using decided(4,6) by (auto simp: dispatch_def)
      have bk: "books m" using b solvent_books by blast
      have "can_reserve (GReserv g) (ReqEstimate ?req)" using est by simp
      from ex g2 s ad this bk show ?thesis
      proof (cases rule: execute_stage_budget)
        case failed
        with rd al show ?thesis by (intro that(3) [of d])
      next
        case executed
        then show ?thesis using that(4) [of d] rd al by simp
      qed
    qed
  qed
qed (use r in auto)

text \<open>The manager stays solvent if what was executed cost no more than its estimate.\<close>

definition within_estimate :: "Rate \<Rightarrow> int64 \<Rightarrow> int64 \<Rightarrow> RequestResult \<Rightarrow> bool" where
  "within_estimate rate estIn estOut res \<longleftrightarrow> 0 \<le> sint (Estimate rate estIn estOut) \<and>
     (Executed res \<longrightarrow> 0 \<le> sint (ResultCost res) \<and> sint (ResultCost res) \<le> sint (Estimate rate estIn estOut))"

lemma HandleRequest_solvent:
  assumes h: "HandleRequest net clk c x estIn estOut conc g = (res, g')" and s: "solvent (GReserv g)"
    and cnt: "unat (idCounter (GReserv g)) < 2 ^ 64 - 1"
    and w: "\<And>rate. RateAt (GPricing g) (RCProvider (CallRoute c)) (RCModel (CallRoute c)) (clk 0) = Inr rate \<Longrightarrow>
      within_estimate rate estIn estOut res"
  shows "solvent (GReserv g')"
  using h
proof (cases rule: HandleRequest_cases)
  case (unpriced err)
  with s show ?thesis by simp
next
  case (decided rate d e m g1)
  let ?req = "\<lparr>ReqTenant = CallTenant c, ReqRoute = RCRoute (CallRoute c), ReqProvider = RCProvider (CallRoute c),
          ReqEstimate = Estimate rate estIn estOut, ReqConcurrency = conc\<rparr>"
  have we: "within_estimate rate estIn estOut res" using w [OF decided(1)] .
  then have est: "can_reserve (GReserv g) (Estimate rate estIn estOut)" using cnt by (simp add: within_estimate_def can_reserve_def)
  have sm: "solvent m" using Evaluate_budget [OF decided(2) s] est by simp
  show ?thesis
  proof (cases "DAction d = ActionAllow")
    case False
    moreover have "DAction d \<noteq> ActionAllowWithLimit" using Evaluate_budget [OF decided(2) s] est by simp
    ultimately have "GReserv g' = m" using decided(4,6) by (auto simp: dispatch_def split: if_splits)
    with sm show ?thesis by simp
  next
    case True
    then have ad: "admit_eval (clock_from 3 clk) ?req (GRisk g) (GReserv g) = (Some (DReservationID d), e, m)"
      using decided(2) by (simp add: admit_eval_def admits_def)
    from True obtain g2 where ex: "execute_stage net clk c x rate d g2 = (res, g')" and g2: "GReserv g2 = m"
      using decided(4,6) by (auto simp: dispatch_def)
    from ex show ?thesis
    proof (cases rule: execute_stage_reserv)
      case released
      with engine_admission.admit_then_release [OF s _ ad] est g2 show ?thesis by simp
    next
      case settled
      with engine_admission.admit_then_settle [OF s _ ad, of "ResultCost res"] est g2 we show ?thesis
        by (simp add: within_estimate_def)
    qed
  qed
qed

section \<open>Properties\<close>

text \<open>A gateway with one funded tenant, one route and a mock upstream that reports 30 units.\<close>

definition demo_gateway :: Gateway where
  "demo_gateway = gateway_New demo_engine demo_funded (AddRate ((demo_rate 1 0)\<lparr>RateProvider := ''mock''\<rparr>) pricing_NewRegistry)
     (Register (Mock (NewMockProvider ''mock'' (Some (\<lambda>req. \<lparr>InputUnits = 30, OutputUnits = 0\<rparr>)))) provider_NewRegistry) ledger_New"

definition demo_caller :: Caller where
  "demo_caller = \<lparr>CallID = ''r1'', CallTenant = ''t'', CallRoute = \<lparr>RCRoute = ''/chat'', RCProvider = ''mock'', RCModel = ''m''\<rparr>\<rparr>"

definition demo_exec :: ExecRequest where
  "demo_exec = \<lparr>ReqMethod = ''POST'', ReqURL = '''', ReqPath = ''/v1'', ReqHeaders = Map.empty, ReqBody = ''''\<rparr>"

definition demo_run :: "RequestResult \<times> Gateway" where
  "demo_run = HandleRequest demo_net (\<lambda>i. 5) demo_caller demo_exec 40 0 1 demo_gateway"

lemma demo_run_rate:
  "RateAt (GPricing demo_gateway) (RCProvider (CallRoute demo_caller)) (RCModel (CallRoute demo_caller)) 5
     = Inr ((demo_rate 1 0)\<lparr>RateProvider := ''mock''\<rparr>)"
  by (simp add: demo_gateway_def gateway_New_def AddRate_def pricing_NewRegistry_def demo_caller_def demo_rate_def
      RateAt_def activeAt_def Before_def IsZero_def Let_def)

lemma demo_run_estimate: "Estimate ((demo_rate 1 0)\<lparr>RateProvider := ''mock''\<rparr>) 40 0 = 40"
  by (simp add: Estimate_def demo_rate_def)

lemma demo_run_room: "can_reserve (GReserv demo_gateway) 40"
  by (simp add: can_reserve_def demo_gateway_def gateway_New_def demo_funded_def op_defs NewManager_def)

lemma demo_run_solvent: "solvent (GReserv demo_gateway)"
  using demo_funded_solvent by (simp add: demo_gateway_def gateway_New_def)

lemma demo_run_executed:
  "(\<exists>d. ResultDecision (fst demo_run) = Some d \<and> DAction d = ActionAllow \<and> DReservationID d = demo_id)
   \<and> Executed (fst demo_run) \<and> ResultCost (fst demo_run) = 30"
proof -
  obtain res g' where h: "demo_run = (res, g')" by fastforce
  then have h': "HandleRequest demo_net (\<lambda>i. 5) demo_caller demo_exec 40 0 1 demo_gateway = (res, g')"
    by (simp add: demo_run_def)
  obtain d e m where ev: "Evaluate (\<lambda>i. 5) (demo_request 40) demo_engine demo_funded = (d, e, m)" by (metis prod_cases3)
  have c5: "clock_from 3 (\<lambda>i. 5) = (\<lambda>i. 5)" by (simp add: clock_from_def)
  have d: "DAction d = ActionAllow" "DReservationID d = demo_id" using demo_allows ev by simp_all
  from h' demo_run_rate ev d show ?thesis
    by (simp add: h HandleRequest_def demo_run_estimate c5 demo_gateway_def gateway_New_def demo_caller_def demo_request_def
        dispatch_def execute_stage_def provider_Get_def Register_def NewMockProvider_def provider_NewRegistry_def
        mock_Execute_def reconcile_stage_def result0_def emit_def Let_def Estimate_def demo_rate_def
        split: prod.splits sum.splits) auto
qed

text \<open>The same engine with a throttle threshold of 0, so that every scored request below the block threshold is throttled.\<close>

definition strict_policy :: Policy where
  "strict_policy = DefaultPolicy\<lparr>ThrottleThreshold := 0\<rparr>"

definition strict_gateway :: Gateway where
  "strict_gateway = demo_gateway\<lparr>GRisk := NewEngine strict_policy\<rparr>"

lemma strict_score:
  "score strict_policy (demo_request 40) \<lparr>Short = ws, Medium = wm, Long = wl, Created = c, baseline = Fin 0, initOnce = i\<rparr>
     \<lparr>ExpLimit = 100, ExpReserved = 0, ExpSettled = 0, ExpAvailable = 100\<rparr> (Fin 0) (Fin 0) = (12, ''COMPOSITE_SCORE'')"
  by code_simp

lemma strict_throttles:
  assumes "Evaluate (\<lambda>i. 5) (demo_request 40) (NewEngine strict_policy) demo_funded = (d, e', m')"
  shows "DAction d = ActionThrottle"
proof -
  have nk: "\<not> killSwitchActive t q (NewEngine strict_policy)" for t q by (simp add: NewEngine_def killSwitchActive_def)
  have st: "\<exists>ws wm wl c. tenant_of now t (NewEngine strict_policy) = \<lparr>tracker = \<lparr>Short = ws, Medium = wm, Long = wl, Created = c,
      baseline = Fin 0, initOnce = False\<rparr>, breaker = circuit_New (15 * Second)\<rparr> \<and> samples ws = [] \<and> samples wm = []" for now t
    by (simp add: tenant_of_def stateFor_def NewEngine_def Let_def NewMultiWindowTrackerWithWindows_def NewRollingWindow_def
        strict_policy_def DefaultPolicy_def)
  from assms show ?thesis
  proof (cases rule: Evaluate_cases)
    case (2 ts b)
    then show ?thesis using st [of 5 "ReqTenant (demo_request 40)"]
      by (auto simp: Allow_def maybeAdvanceLocked_def circuit_New_def)
  next
    case (3 ts b d1 ts1 m1)
    obtain ws wm wl c where ts: "tenant_of 5 (ReqTenant (demo_request 40)) (NewEngine strict_policy) = \<lparr>tracker = \<lparr>Short = ws, Medium = wm, Long = wl,
        Created = c, baseline = Fin 0, initOnce = False\<rparr>, breaker = circuit_New (15 * Second)\<rparr>" and e: "samples ws = []" "samples wm = []"
      using st by blast
    have "idle \<lparr>Short = ws, Medium = wm, Long = wl, Created = c, baseline = Fin 0, initOnce = False\<rparr>" using e by (simp add: idle_def)
    note fig = idle_figures [OF this]
    have x: "fst (Exposure_of (ReqTenant (demo_request 40)) demo_funded) = \<lparr>ExpLimit = 100, ExpReserved = 0, ExpSettled = 0, ExpAvailable = 100\<rparr>"
      by (simp add: demo_request_def demo_funded_def op_defs NewManager_def account0_def available_def)
    have p: "policy (NewEngine strict_policy) = strict_policy" by (simp add: NewEngine_def)
    have d1: "DRiskScore d1 = 12" using 3(4) fig strict_score x
      by (auto simp: evaluate_figures_def p ts Let_def case_prod_unfold)
    have "\<not> available (acc_of m1 ''t'') <s 40"
      using evaluate_figures_eq(1) [OF 3(4)]
      by (simp add: demo_request_def acc_of_def demo_funded_def op_defs NewManager_def account0_def available_def go_simps)
    moreover have "decide (\<lambda>i. 5) strict_policy (demo_request 40) d1 ts1 m1 = decide_throttle (\<lambda>i. 5) strict_policy (demo_request 40) d1 ts1 m1"
      by (simp add: decide_def d1 strict_policy_def DefaultPolicy_def word_sle_eq)
    ultimately show ?thesis using 3(5) unfolding p
      by (auto simp: decide_throttle_def Reserve_result demo_request_def)
  qed (use nk in simp)
qed

text \<open>
  C5: a request that is not throttled leaves no hold behind: whatever the decision, and whether the
  provider is missing, fails or answers (at any cost, also above the estimate), the outstanding
  holds after \<open>HandleRequest\<close> are those before. If it did not execute the whole budget is
  unchanged; if it executed at no more than the estimate, exactly the actual cost is spent.
\<close>

theorem request_settles_its_hold:
  assumes "HandleRequest net clk c x estIn estOut conc g = (res, g')" and "solvent (GReserv g)"
    and "RateAt (GPricing g) (RCProvider (CallRoute c)) (RCModel (CallRoute c)) (clk 0) = Inr rate"
    and "0 \<le> sint (Estimate rate estIn estOut)" and "unat (idCounter (GReserv g)) < 2 ^ 64 - 1"
    and "ResultDecision res = Some d" and "DAction d \<noteq> ActionThrottle"
  shows "aHolds (view (GReserv g')) = aHolds (view (GReserv g))
    \<and> (\<not> Executed res \<longrightarrow> view (GReserv g') = view (GReserv g))
    \<and> (Executed res \<longrightarrow> DAction d = ActionAllow \<and> ResultErr res = None)
    \<and> (Executed res \<and> 0 \<le> sint (ResultCost res) \<and> sint (ResultCost res) \<le> sint (Estimate rate estIn estOut) \<longrightarrow>
        view (GReserv g') = (view (GReserv g))\<lparr>aSpent := (aSpent (view (GReserv g)))
          (CallTenant c := aSpent (view (GReserv g)) (CallTenant c) + sint (ResultCost res))\<rparr>)"
proof -
  have room: "can_reserve (GReserv g) (Estimate rate estIn estOut)" using assms(4,5) by (simp add: can_reserve_def)
  from assms(1-3) room show ?thesis
    by (cases rule: HandleRequest_budget) (use assms(6,7) in auto)
qed

theorem request_settles_its_hold_witness:
  "view (GReserv (snd demo_run)) = (view demo_funded)\<lparr>aSpent := (aSpent (view demo_funded))(''t'' := 30)\<rparr>"
proof -
  obtain res g' where h: "demo_run = (res, g')" by fastforce
  then have h': "HandleRequest demo_net (\<lambda>i. 5) demo_caller demo_exec 40 0 1 demo_gateway = (res, g')"
    by (simp add: demo_run_def)
  obtain d where d: "ResultDecision res = Some d" "DAction d = ActionAllow" and e: "Executed res" "ResultCost res = 30"
    using demo_run_executed unfolding h by auto
  have n: "0 \<le> sint (Estimate ((demo_rate 1 0)\<lparr>RateProvider := ''mock''\<rparr>) 40 0)" "unat (idCounter (GReserv demo_gateway)) < 2 ^ 64 - 1"
    using demo_run_room by (simp_all add: demo_run_estimate can_reserve_def)
  have z: "aSpent (view (GReserv demo_gateway)) ''t'' = 0" "GReserv demo_gateway = demo_funded" "CallTenant demo_caller = ''t''"
    by (simp_all add: demo_gateway_def gateway_New_def demo_caller_def acc_of_def demo_funded_def SetBudget_def put_account_def
        NewManager_def account0_def)
  from request_settles_its_hold [OF h' demo_run_solvent demo_run_rate n d(1)] d(2) e show ?thesis
    using z by (simp add: h demo_run_estimate)
qed

text \<open>
  C38: a throttled request keeps its hold: \<open>HandleRequest\<close> returns without executing, but the budget
  still carries the reservation that \<open>Evaluate\<close> made for it, although nothing in the pipeline will
  settle or release it any more.
\<close>

theorem throttled_request_keeps_hold:
  assumes "HandleRequest net clk c x estIn estOut conc g = (res, g')" and "solvent (GReserv g)"
    and "RateAt (GPricing g) (RCProvider (CallRoute c)) (RCModel (CallRoute c)) (clk 0) = Inr rate"
    and "0 \<le> sint (Estimate rate estIn estOut)" and "unat (idCounter (GReserv g)) < 2 ^ 64 - 1"
    and "ResultDecision res = Some d" and "DAction d = ActionThrottle"
  shows "\<not> Executed res \<and> aHolds (view (GReserv g)) (DReservationID d) = None
    \<and> aHolds (view (GReserv g')) (DReservationID d) = Some (CallTenant c, sint (Estimate rate estIn estOut))"
proof -
  have room: "can_reserve (GReserv g) (Estimate rate estIn estOut)" using assms(4,5) by (simp add: can_reserve_def)
  from assms(1) have "aHolds (view (GReserv g)) (DReservationID d) = None"
  proof (cases rule: HandleRequest_cases)
    case (decided rate' d' e m g1)
    then have "d' = d" using dispatch_trail [OF decided(6)] assms(6) by simp
    with Evaluate_budget [OF decided(2) assms(2)] decided(1) assms(3,7) room show ?thesis by (auto simp: admits_def)
  qed (use assms(3) in auto)
  moreover from assms(1-3) room
  have "\<not> Executed res \<and> aHolds (view (GReserv g')) (DReservationID d) = Some (CallTenant c, sint (Estimate rate estIn estOut))"
  proof (cases rule: HandleRequest_budget)
    case (throttled d')
    with assms(6) show ?thesis by (auto simp: a_reserve_def simp del: view_sel split: if_splits dest!: sym [of _ "view (GReserv g')"])
  qed (use assms(6,7) in \<open>auto simp: admits_def\<close>)
  ultimately show ?thesis by simp
qed

theorem throttled_request_keeps_hold_witness:
  "\<exists>k. aHolds (view (GReserv (snd (HandleRequest demo_net (\<lambda>i. 5) demo_caller demo_exec 40 0 1 strict_gateway)))) k = Some (''t'', 40)"
proof -
  obtain res g' where h: "HandleRequest demo_net (\<lambda>i. 5) demo_caller demo_exec 40 0 1 strict_gateway = (res, g')" by fastforce
  have g: "GPricing strict_gateway = GPricing demo_gateway" "GReserv strict_gateway = demo_funded" "GRisk strict_gateway = NewEngine strict_policy"
    by (simp_all add: strict_gateway_def demo_gateway_def gateway_New_def)
  have r: "RateAt (GPricing strict_gateway) (RCProvider (CallRoute demo_caller)) (RCModel (CallRoute demo_caller)) 5
      = Inr ((demo_rate 1 0)\<lparr>RateProvider := ''mock''\<rparr>)" using demo_run_rate g by simp
  have s: "solvent (GReserv strict_gateway)" using demo_funded_solvent g by simp
  from h obtain d where d: "ResultDecision res = Some d" "DAction d = ActionThrottle"
  proof (cases rule: HandleRequest_cases)
    case (decided rate d e m g1)
    have q: "\<lparr>ReqTenant = CallTenant demo_caller, ReqRoute = RCRoute (CallRoute demo_caller), ReqProvider = RCProvider (CallRoute demo_caller),
        ReqEstimate = Estimate rate 40 0, ReqConcurrency = 1\<rparr> = demo_request 40"
      using decided(1) r by (simp add: demo_caller_def demo_request_def demo_run_estimate)
    have c5: "clock_from 3 (\<lambda>i. 5) = (\<lambda>i. 5)" by (simp add: clock_from_def)
    have "DAction d = ActionThrottle" using strict_throttles decided(2) unfolding q c5 g by blast
    with dispatch_trail [OF decided(6)] show thesis by (intro that) auto
  qed (use r in auto)
  have n: "0 \<le> sint (Estimate ((demo_rate 1 0)\<lparr>RateProvider := ''mock''\<rparr>) 40 0)" "unat (idCounter (GReserv strict_gateway)) < 2 ^ 64 - 1"
    using demo_run_room by (simp_all add: demo_run_estimate can_reserve_def g) (simp add: demo_gateway_def gateway_New_def)
  have t: "CallTenant demo_caller = ''t''" by (simp add: demo_caller_def)
  have "aHolds (view (GReserv g')) (DReservationID d) = Some (''t'', sint (40 :: int64))"
    using throttled_request_keeps_hold [OF h s r n d] unfolding demo_run_estimate t by blast
  then show ?thesis unfolding h by (intro exI [of _ "DReservationID d"]) simp
qed

text \<open>
  C13: the audit trail is complete and in order: a request appends exactly the events of the path it
  took, in the order of the pipeline, each with its tenant and request identifiers, and nothing of
  the ledger before is changed.
\<close>

theorem audit_trail_complete:
  assumes "HandleRequest net clk c x estIn estOut conc g = (res, g')"
  shows "map (\<lambda>e. (Type e, TenantID e, RequestID e)) (events (GLedger g'))
    = map (\<lambda>e. (Type e, TenantID e, RequestID e)) (events (GLedger g))
      @ map (\<lambda>ty. (ty, CallTenant c, CallID c)) (expected_trail res)"
proof -
  from assms have "labels g' = labels g @ tagged c (expected_trail res)"
  proof (cases rule: HandleRequest_cases)
    case (unpriced err)
    then show ?thesis by (simp add: expected_trail_def result0_def tagged_def)
  next
    case (decided rate d e m g1)
    note t = dispatch_trail [OF decided(6)]
    then have "expected_trail res = RequestEstimated # tl (expected_trail res)" by (simp add: expected_trail_def)
    then have "tagged c (expected_trail res) = tagged c [RequestEstimated] @ tagged c (tl (expected_trail res))"
      by (metis append_Cons append_Nil map_append tagged_def)
    with t decided(3) show ?thesis by simp
  qed
  then show ?thesis by (simp add: labels_def tagged_def)
qed

theorem audit_trail_complete_witness:
  "map (\<lambda>e. (Type e, TenantID e, RequestID e)) (events (GLedger (snd demo_run)))
    = map (\<lambda>ty. (ty, ''t'', ''r1'')) [RequestEstimated, ReservationCreated, RequestAllowed, RequestExecuted, UsageReported, CostReconciled]"
proof -
  obtain res g' where h: "demo_run = (res, g')" by fastforce
  then have h': "HandleRequest demo_net (\<lambda>i. 5) demo_caller demo_exec 40 0 1 demo_gateway = (res, g')"
    by (simp add: demo_run_def)
  obtain d where d: "ResultDecision res = Some d" "DAction d = ActionAllow" and e: "Executed res"
    using demo_run_executed unfolding h by auto
  have "can_reserve (GReserv demo_gateway) (Estimate ((demo_rate 1 0)\<lparr>RateProvider := ''mock''\<rparr>) 40 0)"
    using demo_run_room by (simp add: demo_run_estimate)
  with h' demo_run_solvent demo_run_rate have "ResultErr res = None"
    by (cases rule: HandleRequest_budget) (use e in auto)
  with d e have t: "expected_trail res = [RequestEstimated, ReservationCreated, RequestAllowed, RequestExecuted, UsageReported, CostReconciled]"
    by (simp add: expected_trail_def execution_trail_def)
  have "events (GLedger demo_gateway) = []" by (simp add: demo_gateway_def gateway_New_def ledger_New_def)
  with audit_trail_complete [OF h'] t show ?thesis unfolding h by (simp add: demo_caller_def)
qed

end
