(* ===== verification/Ratelimit.thy ===== *)
theory Ratelimit
  imports Window Provider
begin

text \<open>
  The token-bucket rate limiter (\<open>internal/httpapi/ratelimit.go\<close>): \<open>newLimiter\<close>, \<open>allow\<close>, one
  turn of \<open>sweepLoop\<close> and \<open>clientIP\<close>. Tokens, rate and burst are \<open>float64\<close>, the clock reading is
  an argument. A nil limiter is \<open>None\<close>. The bound on what a limiter admits is proved with the
  rounding of every refill accounted for.
\<close>

section \<open>The limiter\<close>

record bucket =
  tokens :: float64
  lastSeen :: time

record limiter =
  buckets :: "string \<rightharpoonup> bucket"
  ratePerSec :: float64
  burst :: float64
  idleTTL :: duration

definition newLimiter :: "float64 \<Rightarrow> float64 \<Rightarrow> limiter" where
  "newLimiter rps b = \<lparr>buckets = Map.empty, ratePerSec = rps, burst = b, idleTTL = 10 * Minute\<rparr>"

text \<open>The refill of a bucket at time \<open>now\<close>, capped at the burst.\<close>

definition refill :: "time \<Rightarrow> limiter \<Rightarrow> bucket \<Rightarrow> bucket" where
  "refill now l b =
     (let elapsed = Seconds (time_Sub now (lastSeen b));
          t = f_add (tokens b) (f_mul elapsed (ratePerSec l));
          t = (if f_lt (burst l) t then burst l else t)
      in \<lparr>tokens = t, lastSeen = now\<rparr>)"

definition limiter_allow :: "time \<Rightarrow> string \<Rightarrow> limiter \<Rightarrow> bool \<times> limiter" where
  "limiter_allow now key l =
     (let b = (case buckets l key of None \<Rightarrow> \<lparr>tokens = burst l, lastSeen = now\<rparr> | Some b \<Rightarrow> b);
          b = refill now l b
      in if f_lt (tokens b) (Fin 1) then (False, l\<lparr>buckets := (buckets l)(key \<mapsto> b)\<rparr>)
         else (True, l\<lparr>buckets := (buckets l)(key \<mapsto> b\<lparr>tokens := f_sub (tokens b) (Fin 1)\<rparr>)\<rparr>))"

definition allow :: "time \<Rightarrow> string \<Rightarrow> limiter option \<Rightarrow> bool \<times> limiter option" where
  "allow now key lo =
     (case lo of
        None \<Rightarrow> (True, None)
      | Some l \<Rightarrow> (case limiter_allow now key l of (ok, l') \<Rightarrow> (ok, Some l')))"

text \<open>
  One tick of \<open>sweepLoop\<close>: the loop over the map, in the order in which Go visits it, deletes each
  bucket that has been idle.
\<close>

definition sweep_visit :: "time \<Rightarrow> limiter \<Rightarrow> string \<Rightarrow> limiter" where
  "sweep_visit cutoff l k =
     (case buckets l k of
        None \<Rightarrow> l
      | Some b \<Rightarrow> if Before (lastSeen b) cutoff then l\<lparr>buckets := (buckets l)(k := None)\<rparr> else l)"

definition sweep :: "time \<Rightarrow> string list \<Rightarrow> limiter \<Rightarrow> limiter" where
  "sweep now order l = foldl (sweep_visit (time_Add now (- idleTTL l))) l order"

text \<open>\<open>clientIP\<close> looks at two parts of the request: its header and its remote address.\<close>

definition clientIP :: "Header \<Rightarrow> string \<Rightarrow> string" where
  "clientIP h remoteAddr =
     (let xff = Header_Get h ''X-Forwarded-For''
      in if xff \<noteq> [] then
           (case IndexByte xff (CHR '','') of
              Some i \<Rightarrow> TrimSpace (take i xff)
            | None \<Rightarrow> TrimSpace xff)
         else case SplitHostPort remoteAddr of None \<Rightarrow> remoteAddr | Some (host, _) \<Rightarrow> host)"

section \<open>Sweeping\<close>

definition long_idle :: "time \<Rightarrow> limiter \<Rightarrow> string \<Rightarrow> bool" where
  "long_idle now l k \<longleftrightarrow> (\<exists>b. buckets l k = Some b \<and> Before (lastSeen b) (time_Add now (- idleTTL l)))"

text \<open>The outcome of a sweep, for any order of visits: the visited idle buckets are gone.\<close>

lemma sweep_eq:
  "sweep now order l = l\<lparr>buckets := (\<lambda>k. if k \<in> set order \<and> long_idle now l k then None else buckets l k)\<rparr>"
proof -
  let ?c = "time_Add now (- idleTTL l)"
  have "foldl (sweep_visit ?c) m ks
      = m\<lparr>buckets := (\<lambda>k. if k \<in> set ks \<and> (\<exists>b. buckets m k = Some b \<and> Before (lastSeen b) ?c) then None else buckets m k)\<rparr>" for m ks
  proof (induction ks arbitrary: m)
    case (Cons a ks)
    show ?case unfolding foldl_Cons Cons.IH
      by (cases "buckets m a") (auto simp: sweep_visit_def fun_eq_iff intro!: arg_cong [of _ _ "\<lambda>f. m\<lparr>buckets := f\<rparr>"])
  qed simp
  then show ?thesis by (simp add: sweep_def long_idle_def)
qed

section \<open>Rounding errors of a refill\<close>

lemma rnd_error: "\<bar>rnd x - x\<bar> \<le> \<bar>x\<bar> / 2 ^ 53 + 1 / 2 ^ 60"
proof (cases "x = 0")
  case False
  let ?k = "ulp_exp x"
  have "\<bar>of_int (round_even (x / 2 powi ?k)) - x / 2 powi ?k\<bar> * 2 powi ?k \<le> 1 / 2 * 2 powi ?k"
    using round_even_near [of "x / 2 powi ?k"] by (intro mult_right_mono) simp_all
  moreover have "\<bar>rnd x - x\<bar> = \<bar>of_int (round_even (x / 2 powi ?k)) - x / 2 powi ?k\<bar> * 2 powi ?k"
  proof -
    have "rnd x - x = (of_int (round_even (x / 2 powi ?k)) - x / 2 powi ?k) * 2 powi ?k"
      by (simp add: rnd_eq [OF False] left_diff_distrib)
    then show ?thesis by (simp add: abs_mult)
  qed
  ultimately have e: "\<bar>rnd x - x\<bar> \<le> 2 powi ?k / 2" by simp
  show ?thesis
  proof (cases "?k = - 1074")
    case True
    have "(2 :: rat) powi (- 1074) \<le> 2 powi (- 60)" by (simp only: powi2_le_iff)
    then have "(2 :: rat) powi (- 1074) \<le> 1 / 2 ^ 60" by (simp add: power_int_minus_divide)
    with e True have "\<bar>rnd x - x\<bar> \<le> 1 / 2 ^ 60" by simp
    moreover have "0 \<le> \<bar>x\<bar> / 2 ^ 53" by simp
    ultimately show ?thesis by linarith
  next
    case 2: False
    then have k: "?k = expo \<bar>x\<bar> - 52" by (simp add: ulp_exp_def max_def split: if_splits)
    have "2 powi expo \<bar>x\<bar> \<le> \<bar>x\<bar>" using False by (intro expo_bounds) simp
    moreover have "(2 :: rat) powi ?k = 2 powi expo \<bar>x\<bar> / 2 ^ 52"
      unfolding k by (simp add: power_int_diff)
    ultimately have "2 powi ?k / 2 \<le> \<bar>x\<bar> / 2 ^ 53" by simp
    moreover have "0 \<le> (1 / 2 ^ 60 :: rat)" by simp
    ultimately show ?thesis using e by linarith
  qed
qed simp

lemma rnd_err: "\<bar>x\<bar> \<le> 2 ^ n * b \<Longrightarrow> n \<le> 53 \<Longrightarrow> \<bar>rnd x - x\<bar> \<le> b / 2 ^ (53 - n) + 1 / 2 ^ 60"
proof -
  assume x: "\<bar>x\<bar> \<le> 2 ^ n * b" and n: "n \<le> 53"
  have p: "(2 :: rat) ^ 53 = 2 ^ n * 2 ^ (53 - n)" using n by (simp flip: power_add)
  have "\<bar>x\<bar> / 2 ^ 53 \<le> 2 ^ n * b / 2 ^ 53" using x by (rule divide_right_mono) simp
  also have "\<dots> = b / 2 ^ (53 - n)" unfolding p by simp
  finally show ?thesis using rnd_error [of x] by linarith
qed

text \<open>\<open>secs d\<close>: the exact number of seconds of a duration.\<close>

definition secs :: "int \<Rightarrow> rat" where
  "secs n = of_int n / 1000000000"

lemma near_sum:
  fixes r m e :: rat
  assumes "\<bar>r - m\<bar> \<le> m / 2 ^ 53 + 1 / 2 ^ 60" and "\<bar>m - e\<bar> \<le> 1 / 2 ^ 53 + 1 / 2 ^ 60"
  shows "\<bar>r - e\<bar> \<le> e / 2 ^ 53 + 1 / 2 ^ 51"
proof -
  have "m \<le> e + (1 / 2 ^ 53 + 1 / 2 ^ 60)" using assms(2) by linarith
  then have "m / 2 ^ 53 \<le> (e + (1 / 2 ^ 53 + 1 / 2 ^ 60)) / 2 ^ 53" by (rule divide_right_mono) simp
  then have "m / 2 ^ 53 \<le> e / 2 ^ 53 + (1 / 2 ^ 53 + 1 / 2 ^ 60) / 2 ^ 53" by (simp only: add_divide_distrib)
  moreover have "(1 / 2 ^ 53 + 1 / 2 ^ 60) / 2 ^ 53 + 1 / 2 ^ 60 + (1 / 2 ^ 53 + 1 / 2 ^ 60) \<le> (1 / 2 ^ 51 :: rat)" by simp
  ultimately show ?thesis using assms by linarith
qed

lemma Seconds_near:
  assumes "0 \<le> sint d"
  shows "\<exists>s. Seconds d = Fin s \<and> 0 \<le> s \<and> \<bar>s - secs (sint d)\<bar> \<le> secs (sint d) / 2 ^ 53 + 1 / 2 ^ 51"
proof -
  define n where "n = sint d"
  let ?q = "n div 1000000000" and ?r = "n mod 1000000000"
  have n: "0 \<le> n" "n < 2 ^ 63" using assms sint_less_int64 [of d] by (simp_all add: n_def)
  have sg: "sgn n * (\<bar>n\<bar> div 1000000000) = ?q" "sgn n * (\<bar>n\<bar> mod 1000000000) = ?r"
    using n by (auto simp: sgn_if)
  have q: "0 \<le> ?q" "?q \<le> 2 ^ 34" and r: "0 \<le> ?r" "?r < 1000000000" using n by auto
  let ?Q = "of_int ?q :: rat" and ?R = "of_int ?r / 1000000000 :: rat"
  have Q: "0 \<le> ?Q" "?Q \<le> 2 ^ 34" using q by (simp, metis of_int_le_iff of_int_numeral of_int_power)
  have "(of_int ?r :: rat) < of_int 1000000000" using r by (simp only: of_int_less_iff)
  then have R: "0 \<le> ?R" "?R \<le> 1" using r by simp_all
  have e: "secs n = ?Q + ?R"
  proof -
    have "(of_int n :: rat) = of_int (?q * 1000000000 + ?r)" by simp
    also have "\<dots> = ?Q * 1000000000 + of_int ?r" by (simp only: of_int_add of_int_mult of_int_numeral)
    finally show ?thesis by (simp add: secs_def field_simps)
  qed
  let ?f = "rnd ?R"
  have f: "0 \<le> ?f" "?f \<le> 1" using ieee.r_unit [of ?R] R by auto
  have ef: "\<bar>?f - ?R\<bar> \<le> 1 / 2 ^ 53 + 1 / 2 ^ 60" using rnd_err [of ?R 0 1] R by simp
  have 1: "of_rat64 ?Q = Fin ?Q" using of_rat64_small [of ?Q] Q ieee.r_int [of ?q] q by simp
  have 2: "of_rat64 (of_int ?r) = Fin (of_int ?r)"
    using of_rat64_small [of "of_int ?r"] ieee.r_int [of ?r] r \<open>(of_int ?r :: rat) < of_int 1000000000\<close> by simp
  have 3: "of_rat64 ?R = Fin ?f" using of_rat64_small [of ?R] R by simp
  have 4: "of_rat64 (?Q + ?f) = Fin (rnd (?Q + ?f))" using of_rat64_small [of "?Q + ?f"] Q f by simp
  have S: "Seconds d = Fin (rnd (?Q + ?f))"
    unfolding Seconds_def Let_def n_def [symmetric] sg 1 2 f_div.simps using 3 4 by simp
  have "\<bar>rnd (?Q + ?f) - (?Q + ?f)\<bar> \<le> (?Q + ?f) / 2 ^ 53 + 1 / 2 ^ 60"
    using rnd_error [of "?Q + ?f"] Q f by simp
  moreover have "\<bar>?Q + ?f - (?Q + ?R)\<bar> \<le> 1 / 2 ^ 53 + 1 / 2 ^ 60" using ef by simp
  ultimately have "\<bar>rnd (?Q + ?f) - (?Q + ?R)\<bar> \<le> (?Q + ?R) / 2 ^ 53 + 1 / 2 ^ 51"
    by (rule near_sum)
  then show ?thesis using S Q f rnd_nonneg [of "?Q + ?f"] unfolding n_def [symmetric] e by auto
qed

section \<open>One refill\<close>

text \<open>
  A limiter with rate \<open>r\<close> and burst \<open>B\<close>, both positive and at most a million, and the default idle time.
\<close>

definition limits :: "rat \<Rightarrow> rat \<Rightarrow> limiter \<Rightarrow> bool" where
  "limits r B l \<longleftrightarrow> ratePerSec l = Fin r \<and> burst l = Fin B \<and> idleTTL l = 10 * Minute
     \<and> 0 < r \<and> r \<le> 2 ^ 20 \<and> 0 < B \<and> B \<le> 2 ^ 20"

text \<open>The bucket of a key, if there is one, holds between 0 and \<open>B\<close> tokens and was last seen by \<open>u\<close>.\<close>

definition bucket_ok :: "rat \<Rightarrow> time \<Rightarrow> bucket option \<Rightarrow> bool" where
  "bucket_ok B u bo \<longleftrightarrow>
     (case bo of None \<Rightarrow> True | Some b \<Rightarrow> \<exists>t. tokens b = Fin t \<and> 0 \<le> t \<and> t \<le> B \<and> lastSeen b \<le> u)"

text \<open>What the key could spend at time \<open>now\<close> if refills were exact.\<close>

definition potential :: "rat \<Rightarrow> rat \<Rightarrow> time \<Rightarrow> bucket option \<Rightarrow> rat" where
  "potential r B now bo =
     (case bo of None \<Rightarrow> B
      | Some b \<Rightarrow> (case tokens b of Fin t \<Rightarrow> min B (t + r * secs (now - lastSeen b)) | _ \<Rightarrow> B))"

lemma secs_mono: "m \<le> n \<Longrightarrow> secs m \<le> secs n"
  by (simp add: secs_def divide_right_mono)

lemma secs_nonneg: "0 \<le> n \<Longrightarrow> 0 \<le> secs n"
  by (simp add: secs_def)


lemma min_near: "\<bar>x - y\<bar> \<le> (c :: rat) \<Longrightarrow> \<bar>min B x - min B y\<bar> \<le> c"
  by (auto simp: min_def abs_le_iff)

lemma product_near:
  assumes s: "\<bar>s - e\<bar> \<le> e / 2 ^ 53 + 1 / 2 ^ 51" and r: "0 < r" "r \<le> (2 ^ 20 :: rat)"
  shows "\<bar>s * r - e * r\<bar> \<le> e * r / 2 ^ 53 + 1 / 2 ^ 31"
proof -
  have "\<bar>s * r - e * r\<bar> = \<bar>s - e\<bar> * r" using r by (simp add: abs_mult flip: left_diff_distrib)
  also have "\<dots> \<le> (e / 2 ^ 53 + 1 / 2 ^ 51) * r" using s r by (intro mult_right_mono) simp_all
  also have "\<dots> = e * r / 2 ^ 53 + r / 2 ^ 51" by (simp add: distrib_right)
  also have "\<dots> \<le> e * r / 2 ^ 53 + 2 ^ 20 / 2 ^ 51" using r by (intro add_left_mono divide_right_mono) simp_all
  finally show ?thesis by simp
qed

lemma refill_sum_near:
  fixes t x p X :: rat
  assumes "0 \<le> t" "t \<le> 2 ^ 20" "0 \<le> x" "x \<le> 2 ^ 22" "0 \<le> p" and p: "\<bar>p - x\<bar> \<le> x / 2 ^ 53 + 1 / 2 ^ 31"
  shows "\<bar>rnd (t + rnd p) - (t + x)\<bar> \<le> 1 / 2 ^ 27"
proof -
  have "x / 2 ^ 53 \<le> 2 ^ 22 / 2 ^ 53" using assms by (intro divide_right_mono) simp_all
  then have p1: "\<bar>p - x\<bar> \<le> 1 / 2 ^ 30" using p by simp
  then have "\<bar>p\<bar> \<le> 2 ^ 23 * 1" using assms by simp
  from rnd_err [OF this] have p2: "\<bar>rnd p - p\<bar> \<le> 1 / 2 ^ 30 + 1 / 2 ^ 60" by simp
  have "0 \<le> rnd p" using assms by (intro rnd_nonneg)
  moreover have "rnd p \<le> 2 ^ 23" using rnd_abs_le_pow [of p 23] \<open>\<bar>p\<bar> \<le> 2 ^ 23 * 1\<close> by simp
  ultimately have "\<bar>t + rnd p\<bar> \<le> 2 ^ 24 * 1" using assms(1,2) by simp
  from rnd_err [OF this] have "\<bar>rnd (t + rnd p) - (t + rnd p)\<bar> \<le> 1 / 2 ^ 29 + 1 / 2 ^ 60" by simp
  moreover have "1 / 2 ^ 29 + 1 / 2 ^ 60 + (1 / 2 ^ 30 + 1 / 2 ^ 60) + 1 / 2 ^ 30 \<le> (1 / 2 ^ 27 :: rat)" by simp
  ultimately show ?thesis using p1 p2 by linarith
qed

lemma refill_near:
  assumes l: "limits r B l" and t: "tokens b = Fin t" "0 \<le> t" "t \<le> B" and u: "lastSeen b \<le> now"
  shows "\<exists>t'. refill now l b = \<lparr>tokens = Fin t', lastSeen = now\<rparr> \<and> 0 \<le> t' \<and> t' \<le> B
    \<and> \<bar>t' - min B (t + r * secs (sint (time_Sub now (lastSeen b))))\<bar> \<le> 1 / 2 ^ 27"
proof -
  let ?d = "time_Sub now (lastSeen b)"
  define x where "x = r * secs (sint ?d)"
  have d: "0 \<le> sint ?d" using u by (simp add: sint_time_Sub)
  have rb: "ratePerSec l = Fin r" "burst l = Fin B" "0 < r" "r \<le> 2 ^ 20" "0 < B" "B \<le> 2 ^ 20"
    using l by (simp_all add: limits_def)
  have x0: "0 \<le> x" using rb secs_nonneg [OF d] by (simp add: x_def)
  obtain s where s: "Seconds ?d = Fin s" "0 \<le> s" "\<bar>s - secs (sint ?d)\<bar> \<le> secs (sint ?d) / 2 ^ 53 + 1 / 2 ^ 51"
    using Seconds_near [OF d] by blast
  have "secs (sint ?d) \<le> 2 ^ 34"
  proof -
    have "secs (sint ?d) \<le> secs (2 ^ 63)" using sint_less_int64 [of ?d] by (intro secs_mono) simp
    then show ?thesis by (simp add: secs_def)
  qed
  then have x1: "x \<le> 2 ^ 54" using rb mult_mono [of r "2 ^ 20" "secs (sint ?d)" "2 ^ 34"] secs_nonneg [OF d] by (simp add: x_def)
  have p: "\<bar>s * r - x\<bar> \<le> x / 2 ^ 53 + 1 / 2 ^ 31"
    using product_near [OF s(3) rb(3,4)] by (simp add: x_def mult.commute)
  have p0: "0 \<le> s * r" using s rb by simp
  have p1: "s * r \<le> 2 ^ 55" using p x0 x1 by (simp add: abs_le_iff)
  then have X: "0 \<le> rnd (s * r)" "rnd (s * r) \<le> 2 ^ 55"
    using rnd_nonneg [OF p0] rnd_abs_le_pow [of "s * r" 55] p0 by simp_all
  have 1: "f_mul (Seconds ?d) (ratePerSec l) = Fin (rnd (s * r))"
    using of_rat64_small [of "s * r"] p0 p1 by (simp add: s rb)
  define Y where "Y = rnd (t + rnd (s * r))"
  have 2: "f_add (tokens b) (Fin (rnd (s * r))) = Fin Y"
    using of_rat64_small [of "t + rnd (s * r)"] X t rb by (simp add: Y_def)
  have f: "refill now l b = \<lparr>tokens = Fin (min B Y), lastSeen = now\<rparr>"
    unfolding refill_def Let_def 1 2 by (simp add: rb min_def)
  have Y0: "0 \<le> Y" using X t by (simp add: Y_def rnd_nonneg)
  have "\<bar>min B Y - min B (t + x)\<bar> \<le> 1 / 2 ^ 27"
  proof (cases "x \<le> 2 ^ 22")
    case True
    then have "\<bar>Y - (t + x)\<bar> \<le> 1 / 2 ^ 27"
      using refill_sum_near [OF _ _ x0 True p0 p, of t] t rb by (simp add: Y_def)
    then show ?thesis by (rule min_near)
  next
    case False
    then have "of_int (2 ^ 21) \<le> s * r" using p x0 by (simp add: abs_le_iff)
    then have "of_int (2 ^ 21) \<le> rnd (s * r)" by (rule ieee.r_ge_int) simp
    then have "of_int (2 ^ 21) \<le> t + rnd (s * r)" using t by simp
    then have "of_int (2 ^ 21) \<le> Y" unfolding Y_def by (rule ieee.r_ge_int) simp
    then have "min B Y = B" "min B (t + x) = B" using rb t False by simp_all
    then show ?thesis by simp
  qed
  then show ?thesis using f Y0 rb unfolding x_def by auto
qed

section \<open>What a limiter admits\<close>

text \<open>One call: what it admits comes out of the potential of the key, up to rounding.\<close>

lemma limits_allow: "limits r B l \<Longrightarrow> limits r B (snd (limiter_allow now key l))"
  by (simp add: limits_def limiter_allow_def Let_def)

lemma allow_other: "k \<noteq> key \<Longrightarrow> buckets (snd (limiter_allow now key l)) k = buckets l k"
  by (simp add: limiter_allow_def Let_def)

lemma refill_potential:
  assumes l: "limits r B l" and b: "bucket_ok B now (Some b)"
  obtains t where "refill now l b = \<lparr>tokens = Fin t, lastSeen = now\<rparr>" "0 \<le> t" "t \<le> B"
    "t \<le> potential r B now (Some b) + 1 / 2 ^ 27"
    "now - lastSeen b < 2 ^ 63 \<Longrightarrow> potential r B now (Some b) \<le> t + 1 / 2 ^ 27"
proof -
  obtain t0 where t0: "tokens b = Fin t0" "0 \<le> t0" "t0 \<le> B" "lastSeen b \<le> now"
    using b by (auto simp: bucket_ok_def)
  let ?d = "sint (time_Sub now (lastSeen b))"
  obtain t where t: "refill now l b = \<lparr>tokens = Fin t, lastSeen = now\<rparr>" "0 \<le> t" "t \<le> B"
    "\<bar>t - min B (t0 + r * secs ?d)\<bar> \<le> 1 / 2 ^ 27"
    using refill_near [OF l t0] by blast
  have "r * secs ?d \<le> r * secs (now - lastSeen b)"
    using l t0(4) by (intro mult_left_mono secs_mono) (auto simp: limits_def sint_time_Sub)
  then have "min B (t0 + r * secs ?d) \<le> potential r B now (Some b)"
    by (auto simp: potential_def t0(1) min_def)
  moreover have "potential r B now (Some b) = min B (t0 + r * secs ?d)" if "now - lastSeen b < 2 ^ 63"
  proof -
    have "?d = now - lastSeen b" using that t0(4) by (simp add: sint_time_Sub)
    then show ?thesis by (simp only: potential_def t0(1) option.case float64.case)
  qed
  moreover have "t \<le> min B (t0 + r * secs ?d) + 1 / 2 ^ 27" "min B (t0 + r * secs ?d) \<le> t + 1 / 2 ^ 27"
    using t(4) by linarith+
  ultimately show thesis using t by (intro that [of t]) auto
qed

lemma allow_own:
  assumes l: "limits r B l" and b: "bucket_ok B now (buckets l k)" and a: "limiter_allow now k l = (ok, l')"
  obtains t where "0 \<le> t" "t \<le> B" "ok \<longleftrightarrow> 1 \<le> t"
    "buckets l' k = Some \<lparr>tokens = Fin (if ok then rnd (t - 1) else t), lastSeen = now\<rparr>"
    "t \<le> potential r B now (buckets l k) + 1 / 2 ^ 27"
    "(\<And>b. buckets l k = Some b \<Longrightarrow> now - lastSeen b < 2 ^ 63) \<Longrightarrow> potential r B now (buckets l k) \<le> t + 1 / 2 ^ 27"
proof -
  define b0 where "b0 = (case buckets l k of None \<Rightarrow> \<lparr>tokens = burst l, lastSeen = now\<rparr> | Some b \<Rightarrow> b)"
  have B: "burst l = Fin B" "0 < B" "B \<le> 2 ^ 20" using l by (simp_all add: limits_def)
  have b0: "bucket_ok B now (Some b0)"
    using b B by (cases "buckets l k") (auto simp: b0_def bucket_ok_def)
  have pot: "potential r B now (Some b0) = potential r B now (buckets l k)"
    using B by (cases "buckets l k") (auto simp: b0_def potential_def secs_def)
  have gap: "now - lastSeen b0 < 2 ^ 63" if "\<And>b. buckets l k = Some b \<Longrightarrow> now - lastSeen b < 2 ^ 63"
    using that by (cases "buckets l k") (auto simp: b0_def)
  obtain t where t: "refill now l b0 = \<lparr>tokens = Fin t, lastSeen = now\<rparr>" "0 \<le> t" "t \<le> B"
    "t \<le> potential r B now (Some b0) + 1 / 2 ^ 27"
    "now - lastSeen b0 < 2 ^ 63 \<Longrightarrow> potential r B now (Some b0) \<le> t + 1 / 2 ^ 27"
    using refill_potential [OF l b0] by blast
  have a': "limiter_allow now k l = (if t < 1 then (False, l\<lparr>buckets := (buckets l)(k \<mapsto> \<lparr>tokens = Fin t, lastSeen = now\<rparr>)\<rparr>)
      else (True, l\<lparr>buckets := (buckets l)(k \<mapsto> \<lparr>tokens = f_sub (Fin t) (Fin 1), lastSeen = now\<rparr>)\<rparr>))"
    unfolding limiter_allow_def b0_def [symmetric] Let_def t(1) by simp
  have sub: "f_sub (Fin t) (Fin 1) = Fin (rnd (t - 1))"
    using of_rat64_small [of "t - 1"] t B by (simp add: f_sub_def abs_le_iff)
  show thesis
    by (rule that [of t]) (use t a a' sub gap pot in \<open>auto split: if_splits\<close>)
qed

lemma allow_step:
  assumes l: "limits r B l" and b: "bucket_ok B now (buckets l k)" and a: "limiter_allow now k l = (ok, l')"
  shows "bucket_ok B now (buckets l' k)"
    and "(if ok then 1 else 0) + potential r B now (buckets l' k) \<le> potential r B now (buckets l k) + 1 / 2 ^ 26"
proof -
  have B: "0 < B" "B \<le> 2 ^ 20" using l by (simp_all add: limits_def)
  obtain t where t: "0 \<le> t" "t \<le> B" "ok \<longleftrightarrow> 1 \<le> t"
    "buckets l' k = Some \<lparr>tokens = Fin (if ok then rnd (t - 1) else t), lastSeen = now\<rparr>"
    "t \<le> potential r B now (buckets l k) + 1 / 2 ^ 27"
    using allow_own [OF l b a] by blast
  let ?t = "if ok then rnd (t - 1) else t"
  have "0 \<le> rnd (t - 1) \<and> rnd (t - 1) \<le> t - 1 + 1 / 2 ^ 28" if "ok"
  proof -
    have "\<bar>t - 1\<bar> \<le> 2 ^ 20 * 1" using that t B by simp
    from rnd_err [OF this] have "\<bar>rnd (t - 1) - (t - 1)\<bar> \<le> 1 / 2 ^ 28" by simp
    then have "rnd (t - 1) \<le> t - 1 + 1 / 2 ^ 28" by linarith
    then show ?thesis using that t(3) rnd_nonneg [of "t - 1"] by simp
  qed
  then have n: "0 \<le> ?t" "(if ok then 1 else 0) + ?t \<le> t + 1 / 2 ^ 28" and c: "?t \<le> B"
    using t by auto
  show "bucket_ok B now (buckets l' k)" using t(4) n c by (simp add: bucket_ok_def)
  have "potential r B now (buckets l' k) = ?t" using t(4) c by (simp add: potential_def secs_def)
  moreover have "1 / 2 ^ 27 + 1 / 2 ^ 28 \<le> (1 / 2 ^ 26 :: rat)" by simp
  ultimately show "(if ok then 1 else 0) + potential r B now (buckets l' k) \<le> potential r B now (buckets l k) + 1 / 2 ^ 26"
    using t(5) n(2) by linarith
qed


text \<open>
  A sweep only discards buckets that are full: after ten minutes at the rate, the missing tokens are
  back, provided that the burst is at most ten minutes' worth.
\<close>

lemma sweep_step:
  assumes l: "limits r B l" and full: "B \<le> r * 600" and b: "bucket_ok B now (buckets l k)"
  shows "bucket_ok B now (buckets (sweep now order l) k)"
    and "potential r B now (buckets (sweep now order l) k) = potential r B now (buckets l k)"
proof -
  show "bucket_ok B now (buckets (sweep now order l) k)"
    using b by (simp add: sweep_eq bucket_ok_def)
  have "potential r B now (buckets l k) = B" if i: "long_idle now l k"
  proof -
    obtain b' where b': "buckets l k = Some b'" "lastSeen b' < now - 600000000000"
      using i l by (auto simp: long_idle_def limits_def op_defs)
    obtain t where t: "tokens b' = Fin t" "0 \<le> t" using b b' by (auto simp: bucket_ok_def)
    have "secs 600000000000 \<le> secs (now - lastSeen b')" using b' by (intro secs_mono) simp
    then have "r * 600 \<le> r * secs (now - lastSeen b')"
      using l by (intro mult_left_mono) (simp_all add: limits_def secs_def)
    then show ?thesis using full t b' by (simp add: potential_def)
  qed
  then show "potential r B now (buckets (sweep now order l) k) = potential r B now (buckets l k)"
    by (auto simp: sweep_eq potential_def)
qed

text \<open>A life of a limiter: requests for keys and ticks of the sweeper, at the given times.\<close>

datatype lim_step = Ask time string | Tick time "string list"

primrec at_time :: "lim_step \<Rightarrow> time" where
  "at_time (Ask now k) = now"
| "at_time (Tick now ks) = now"

primrec lim_do :: "lim_step \<Rightarrow> limiter \<Rightarrow> bool \<times> limiter" where
  "lim_do (Ask now k) l = limiter_allow now k l"
| "lim_do (Tick now ks) l = (False, sweep now ks l)"

primrec asks :: "string \<Rightarrow> lim_step \<Rightarrow> bool" where
  "asks k (Ask now key) \<longleftrightarrow> key = k"
| "asks k (Tick now ks) \<longleftrightarrow> False"

fun admissions :: "string \<Rightarrow> lim_step list \<Rightarrow> limiter \<Rightarrow> nat" where
  "admissions k [] l = 0"
| "admissions k (s # ss) l = (if fst (lim_do s l) \<and> asks k s then 1 else 0) + admissions k ss (snd (lim_do s l))"

definition lim_run :: "lim_step list \<Rightarrow> limiter \<Rightarrow> limiter" where
  "lim_run ss l = foldl (\<lambda>l s. snd (lim_do s l)) l ss"

lemma lim_do_step:
  assumes l: "limits r B l" and full: "B \<le> r * 600" and b: "bucket_ok B (at_time s) (buckets l k)"
    and d: "lim_do s l = (ok, l')"
  shows "limits r B l'" and "bucket_ok B (at_time s) (buckets l' k)"
    and "(if ok \<and> asks k s then 1 else 0) + potential r B (at_time s) (buckets l' k)
      \<le> potential r B (at_time s) (buckets l k) + (if asks k s then 1 / 2 ^ 26 else 0)"
proof -
  have "limits r B l' \<and> bucket_ok B (at_time s) (buckets l' k)
    \<and> (if ok \<and> asks k s then 1 else 0) + potential r B (at_time s) (buckets l' k)
      \<le> potential r B (at_time s) (buckets l k) + (if asks k s then 1 / 2 ^ 26 else 0)"
  proof (cases s)
    case (Ask now key)
    show ?thesis
    proof (cases "key = k")
      case True
      with Ask b d have b': "bucket_ok B now (buckets l k)" and d': "limiter_allow now k l = (ok, l')" by simp_all
      show ?thesis using Ask True allow_step [OF l b' d'] limits_allow [OF l, of now k] d' by simp
    next
      case False
      then have "buckets l' k = buckets l k" using allow_other [of k key now l] d Ask by simp
      then show ?thesis using Ask False b d limits_allow [OF l, of now key] by simp
    qed
  next
    case (Tick now order)
    then have l': "l' = sweep now order l" "\<not> ok" using d by auto
    have "limits r B l'" using l by (simp add: l' sweep_eq limits_def)
    then show ?thesis using Tick b sweep_step [OF l full, of now k order] l' by simp
  qed
  then show "limits r B l'" and "bucket_ok B (at_time s) (buckets l' k)"
    and "(if ok \<and> asks k s then 1 else 0) + potential r B (at_time s) (buckets l' k)
      \<le> potential r B (at_time s) (buckets l k) + (if asks k s then 1 / 2 ^ 26 else 0)" by blast+
qed

lemma bucket_ok_later: "bucket_ok B u bo \<Longrightarrow> u \<le> v \<Longrightarrow> bucket_ok B v bo"
  by (auto simp: bucket_ok_def split: option.splits)


lemma lim_run_ok:
  assumes "limits r B l" and "B \<le> r * 600" and "bucket_ok B u (buckets l k)"
    and "sorted (map at_time ss)" and "\<And>s. s \<in> set ss \<Longrightarrow> u \<le> at_time s \<and> at_time s \<le> v" and "u \<le> v"
  shows "limits r B (lim_run ss l) \<and> bucket_ok B v (buckets (lim_run ss l) k)"
  using assms
proof (induction ss arbitrary: l u)
  case Nil
  then show ?case using bucket_ok_later by (simp add: lim_run_def)
next
  case (Cons s ss)
  obtain ok l' where d: "lim_do s l = (ok, l')" by fastforce
  have n: "u \<le> at_time s" "at_time s \<le> v" using Cons.prems(5) by auto
  note st = lim_do_step [OF Cons.prems(1,2) bucket_ok_later [OF Cons.prems(3) n(1)] d]
  have "limits r B (lim_run ss l') \<and> bucket_ok B v (buckets (lim_run ss l') k)"
    using Cons.prems(4,5) n by (intro Cons.IH [OF st(1) Cons.prems(2) st(2)]) auto
  then show ?case by (simp add: lim_run_def d)
qed

lemma last_seen_asked: "buckets (lim_run ss (newLimiter r B)) k = Some b \<Longrightarrow> Ask (lastSeen b) k \<in> set ss"
proof (induction ss arbitrary: b rule: rev_induct)
  case Nil
  then show ?case by (simp add: lim_run_def newLimiter_def)
next
  case (snoc s ss)
  let ?l = "lim_run ss (newLimiter r B)"
  have r: "lim_run (ss @ [s]) (newLimiter r B) = snd (lim_do s ?l)" by (simp add: lim_run_def)
  show ?case
  proof (cases s)
    case (Ask now key)
    then show ?thesis using snoc unfolding r
      by (cases "key = k") (auto simp: limiter_allow_def Let_def refill_def split: if_splits)
  next
    case (Tick now ks)
    then show ?thesis using snoc unfolding r by (auto simp: sweep_eq split: if_splits)
  qed
qed

lemma newLimiter_limits:
  "0 < r \<Longrightarrow> r \<le> 2 ^ 20 \<Longrightarrow> 0 < B \<Longrightarrow> B \<le> 2 ^ 20 \<Longrightarrow> limits r B (newLimiter (Fin r) (Fin B))"
  by (simp add: limits_def newLimiter_def)

lemma new_run_ok:
  assumes "0 < r" "r \<le> 2 ^ 20" "0 < B" "B \<le> 2 ^ 20" "B \<le> r * 600"
    and "sorted (map at_time hs)" and "\<And>s. s \<in> set hs \<Longrightarrow> at_time s \<le> t0"
  shows "limits r B (lim_run hs (newLimiter (Fin r) (Fin B)))
    \<and> bucket_ok B t0 (buckets (lim_run hs (newLimiter (Fin r) (Fin B))) k)"
proof -
  have "\<exists>u \<le> t0. \<forall>s \<in> set hs. u \<le> at_time s"
    using assms(6,7) by (cases hs) auto
  then obtain u where u: "u \<le> t0" "\<And>s. s \<in> set hs \<Longrightarrow> u \<le> at_time s" by blast
  have "bucket_ok B u (buckets (newLimiter (Fin r) (Fin B)) k)" by (simp add: bucket_ok_def newLimiter_def)
  from lim_run_ok [OF newLimiter_limits [OF assms(1-4)] assms(5) this assms(6) _ u(1)] u(2) assms(7)
  show ?thesis by blast
qed


section \<open>Properties\<close>



text \<open>
  A paced client is never turned away: whatever else happened, a request is admitted when at
  least one token (and \<open>2 ^ -26\<close> for rounding) has accrued since the key's last request.
\<close>

theorem paced_client_admitted:
  assumes "0 < r" "r \<le> 2 ^ 20" "2 \<le> B" "B \<le> 2 ^ 20" "B \<le> r * 600"
    and "sorted (map at_time hs)" and "\<And>s. s \<in> set hs \<Longrightarrow> at_time s \<le> now"
    and "\<And>t. Ask t k \<in> set hs \<Longrightarrow> 1 + 1 / 2 ^ 26 \<le> r * secs (now - t) \<and> now - t < 2 ^ 63"
  shows "fst (limiter_allow now k (lim_run hs (newLimiter (Fin r) (Fin B))))"
proof -
  let ?l = "lim_run hs (newLimiter (Fin r) (Fin B))"
  have "0 < B" using assms(3) by simp
  from new_run_ok [OF assms(1,2) this assms(4-7), of k]
  have l: "limits r B ?l" and b: "bucket_ok B now (buckets ?l k)" by blast+
  obtain ok l' where a: "limiter_allow now k ?l = (ok, l')" by fastforce
  have gap: "now - lastSeen b < 2 ^ 63" if "buckets ?l k = Some b" for b
    using assms(8) last_seen_asked [OF that] by blast
  have "1 + 1 / 2 ^ 26 \<le> potential r B now (buckets ?l k)"
  proof (cases "buckets ?l k")
    case (Some b')
    then obtain t where t: "tokens b' = Fin t" "0 \<le> t" using b by (auto simp: bucket_ok_def)
    have "1 + 1 / 2 ^ 26 \<le> r * secs (now - lastSeen b')" using assms(8) last_seen_asked [OF Some] by blast
    then show ?thesis using Some t assms(3) by (simp add: potential_def)
  qed (use assms(3) in \<open>simp add: potential_def\<close>)
  moreover obtain t where "ok \<longleftrightarrow> 1 \<le> t" "potential r B now (buckets ?l k) \<le> t + 1 / 2 ^ 27"
    using allow_own [OF l b a] gap by metis
  ultimately have ok by simp
  then show ?thesis by (simp add: a)
qed

theorem paced_client_admitted_witness:
  "fst (limiter_allow 200000000 ''ip'' (lim_run (replicate 100 (Ask 0 ''ip'')) (newLimiter (Fin 20) (Fin 40))))"
  by (rule paced_client_admitted) (auto simp: sorted_replicate map_replicate secs_def)

text \<open>
  When the burst is more than ten minutes at the rate, the sweeper gives away tokens: a key that has
  spent its burst has the full burst again after ten idle minutes, here twice the two tokens of the
  bucket within 601 seconds in which less than one token accrues.
\<close>

theorem sweep_refills_burst:
  "admissions ''ip'' [Ask 0 ''ip'', Ask 0 ''ip'', Tick 601000000000 [''ip''], Ask 601000000000 ''ip'', Ask 601000000000 ''ip'']
     (newLimiter (Fin (1 / 1024)) (Fin 2)) = 4
   \<and> 2 + 1 / 1024 * (secs 601000000000 - secs 0) + 4 / 2 ^ 26 < (3 :: rat)"
proof
  show "admissions ''ip'' [Ask 0 ''ip'', Ask 0 ''ip'', Tick 601000000000 [''ip''], Ask 601000000000 ''ip'', Ask 601000000000 ''ip'']
     (newLimiter (Fin (1 / 1024)) (Fin 2)) = 4" by code_simp
qed (simp add: secs_def)

end
