(* ===== verification/Store.thy ===== *)
theory Store
  imports Sha256 GoTime
begin

text \<open>
  Package \<open>store\<close>: the data, the generation of keys (\<open>internal/store/store.go\<close>) and the in-memory
  control plane (\<open>internal/store/memory.go\<close>). What \<open>crypto/rand\<close> delivers and the clock reading are
  arguments, and so is the order in which \<open>RevokeAPIKey\<close> visits the map. \<open>Authenticate\<close> takes and
  drops the lock three times; its sections are separate definitions, and a goroutine inside it is a
  value of \<open>AuthPc\<close>.
\<close>

section \<open>Data\<close>

datatype StoreError =
    StoreNotFound
  | StoreRevoked
  | StoreDuplicateSlug
  | StoreEntropy string
  | StoreQuery string string

record Tenant =
  TntID :: string
  TntName :: string
  Slug :: string
  TntStatus :: string
  TntCreatedAt :: time

text \<open>A nil slice of scopes is \<open>None\<close>; \<open>slice\<close> reads either form.\<close>

record APIKey =
  KeyID :: string
  KeyTenantID :: string
  KeyPrefix :: string
  KeyHash :: string
  Scopes :: "string list option"
  KeyCreatedAt :: time
  LastUsedAt :: "time option"
  RevokedAt :: "time option"

definition slice :: "'a list option \<Rightarrow> 'a list" where
  "slice so = (case so of None \<Rightarrow> [] | Some xs \<Rightarrow> xs)"

definition keyPrefix :: string where
  "keyPrefix = ''vg_live_''"

section \<open>Keys\<close>

definition hashKey :: "string \<Rightarrow> string" where
  "hashKey plaintext = EncodeToString (Sum256 plaintext)"

text \<open>\<open>rand\<close> is the outcome of \<open>rand.Read\<close> on the 32-byte buffer: an error or the filled buffer.\<close>

definition generatePlaintextKey :: "string + string \<Rightarrow> StoreError + string \<times> string \<times> string" where
  "generatePlaintextKey rand =
     (case rand of
        Inl err \<Rightarrow> Inl (StoreEntropy err)
      | Inr buf \<Rightarrow>
          let secret = EncodeToString buf;
              plaintext = keyPrefix @ secret;
              h = Sum256 plaintext;
              hash = EncodeToString h;
              displayPrefix = take (length keyPrefix + 8) plaintext
          in Inr (plaintext, hash, displayPrefix))"

text \<open>\<open>newID\<close> ignores an error of \<open>rand.Read\<close>; its argument is the content of the 16-byte buffer.\<close>

definition newID :: "string \<Rightarrow> string" where
  "newID b = EncodeToString b"

section \<open>The in-memory store\<close>

record MemoryStore =
  mTenants :: "string \<rightharpoonup> Tenant"
  mSlugs :: "string \<rightharpoonup> string"
  mKeys :: "string \<rightharpoonup> APIKey"

definition NewMemoryStore :: MemoryStore where
  "NewMemoryStore = \<lparr>mTenants = Map.empty, mSlugs = Map.empty, mKeys = Map.empty\<rparr>"

definition mem_CreateTenant ::
  "string \<Rightarrow> time \<Rightarrow> string \<Rightarrow> string \<Rightarrow> MemoryStore \<Rightarrow> (StoreError + Tenant) \<times> MemoryStore" where
  "mem_CreateTenant idb now name slug m =
     (if mSlugs m slug \<noteq> None then (Inl StoreDuplicateSlug, m)
      else let t = \<lparr>TntID = newID idb, TntName = name, Slug = slug, TntStatus = ''active'', TntCreatedAt = now\<rparr>
           in (Inr t, m\<lparr>mTenants := (mTenants m)(TntID t \<mapsto> t), mSlugs := (mSlugs m)(slug \<mapsto> TntID t)\<rparr>))"

definition mem_GetTenant :: "string \<Rightarrow> MemoryStore \<Rightarrow> StoreError + Tenant" where
  "mem_GetTenant i m = (case mTenants m i of None \<Rightarrow> Inl StoreNotFound | Some t \<Rightarrow> Inr t)"

definition mem_CreateAPIKey ::
  "string + string \<Rightarrow> string \<Rightarrow> time \<Rightarrow> string \<Rightarrow> string list option \<Rightarrow> MemoryStore
    \<Rightarrow> (StoreError + string \<times> APIKey) \<times> MemoryStore" where
  "mem_CreateAPIKey rand idb now tenantID scopes m =
     (if mTenants m tenantID = None then (Inl StoreNotFound, m)
      else case generatePlaintextKey rand of
             Inl err \<Rightarrow> (Inl err, m)
           | Inr (plaintext, hash, pre) \<Rightarrow>
               let key = \<lparr>KeyID = newID idb, KeyTenantID = tenantID, KeyPrefix = pre, KeyHash = hash, Scopes = scopes,
                          KeyCreatedAt = now, LastUsedAt = None, RevokedAt = None\<rparr>
               in (Inr (plaintext, key), m\<lparr>mKeys := (mKeys m)(hash \<mapsto> key)\<rparr>))"

text \<open>
  The three sections of \<open>Authenticate\<close>: the key under a read lock, the tenant under a read lock, and the
  write of the copied key with its new \<open>LastUsedAt\<close> under the write lock. Between them the lock is free.
\<close>

datatype AuthPc =
    AuthStart string
  | AuthKey string string APIKey
  | AuthTenant string string APIKey Tenant
  | AuthDone string "StoreError + Tenant \<times> APIKey"

definition auth_lookup :: "string \<Rightarrow> MemoryStore \<Rightarrow> AuthPc" where
  "auth_lookup plaintext m =
     (let hash = hashKey plaintext
      in case mKeys m hash of
           None \<Rightarrow> AuthDone plaintext (Inl StoreNotFound)
         | Some key \<Rightarrow>
             if RevokedAt key \<noteq> None then AuthDone plaintext (Inl StoreRevoked) else AuthKey plaintext hash key)"

definition auth_tenant :: "string \<Rightarrow> string \<Rightarrow> APIKey \<Rightarrow> MemoryStore \<Rightarrow> AuthPc" where
  "auth_tenant plaintext hash key m =
     (case mTenants m (KeyTenantID key) of
        None \<Rightarrow> AuthDone plaintext (Inl StoreNotFound)
      | Some tenant \<Rightarrow> AuthTenant plaintext hash key tenant)"

definition auth_touch :: "time \<Rightarrow> string \<Rightarrow> APIKey \<Rightarrow> MemoryStore \<Rightarrow> APIKey \<times> MemoryStore" where
  "auth_touch now hash key m =
     (let key = key\<lparr>LastUsedAt := Some now\<rparr> in (key, m\<lparr>mKeys := (mKeys m)(hash \<mapsto> key)\<rparr>))"

primrec auth_step :: "time \<Rightarrow> AuthPc \<Rightarrow> MemoryStore \<Rightarrow> AuthPc \<times> MemoryStore" where
  "auth_step now (AuthStart plaintext) m = (auth_lookup plaintext m, m)"
| "auth_step now (AuthKey plaintext hash key) m = (auth_tenant plaintext hash key m, m)"
| "auth_step now (AuthTenant plaintext hash key tenant) m =
     (case auth_touch now hash key m of (key, m) \<Rightarrow> (AuthDone plaintext (Inr (tenant, key)), m))"
| "auth_step now (AuthDone plaintext r) m = (AuthDone plaintext r, m)"

definition mem_Authenticate :: "time \<Rightarrow> string \<Rightarrow> MemoryStore \<Rightarrow> (StoreError + Tenant \<times> APIKey) \<times> MemoryStore" where
  "mem_Authenticate now plaintext m =
     (let hash = hashKey plaintext
      in case mKeys m hash of
           None \<Rightarrow> (Inl StoreNotFound, m)
         | Some key \<Rightarrow>
             if RevokedAt key \<noteq> None then (Inl StoreRevoked, m)
             else case mTenants m (KeyTenantID key) of
                    None \<Rightarrow> (Inl StoreNotFound, m)
                  | Some tenant \<Rightarrow> (case auth_touch now hash key m of (key, m) \<Rightarrow> (Inr (tenant, key), m)))"

text \<open>The loop of \<open>RevokeAPIKey\<close> over the map, in the order in which Go visits it.\<close>

fun revoke_scan :: "time \<Rightarrow> string \<Rightarrow> string list \<Rightarrow> MemoryStore \<Rightarrow> StoreError option \<times> MemoryStore" where
  "revoke_scan now keyID [] m = (Some StoreNotFound, m)"
| "revoke_scan now keyID (hash # rest) m =
     (case mKeys m hash of
        None \<Rightarrow> revoke_scan now keyID rest m
      | Some k \<Rightarrow>
          if KeyID k = keyID then (None, m\<lparr>mKeys := (mKeys m)(hash \<mapsto> k\<lparr>RevokedAt := Some now\<rparr>)\<rparr>)
          else revoke_scan now keyID rest m)"

definition mem_RevokeAPIKey :: "time \<Rightarrow> string list \<Rightarrow> string \<Rightarrow> MemoryStore \<Rightarrow> StoreError option \<times> MemoryStore" where
  "mem_RevokeAPIKey now order keyID m = revoke_scan now keyID order m"

declare hashKey_def [op_defs]

section \<open>Sections and the whole call\<close>

text \<open>A goroutine that is not interrupted runs \<open>Authenticate\<close> in three steps.\<close>

lemma auth_solo:
  "\<exists>pc1 pc2. auth_step now (AuthStart pt) m = (pc1, m) \<and> auth_step now pc1 m = (pc2, m)
    \<and> auth_step now pc2 m = (AuthDone pt (fst (mem_Authenticate now pt m)), snd (mem_Authenticate now pt m))"
  by (auto simp: auth_lookup_def auth_tenant_def mem_Authenticate_def auth_touch_def Let_def split: option.splits)

lemma auth_terminates:
  "\<exists>r. fst (auth_step c (fst (auth_step b (fst (auth_step a (AuthStart pt) m1)) m2)) m3) = AuthDone pt r"
  by (auto simp: auth_lookup_def auth_tenant_def auth_touch_def Let_def split: option.splits)

section \<open>Interleaved use\<close>

text \<open>
  Any number of goroutines use the store: whole calls of the locked operations and single sections of
  \<open>Authenticate\<close> in any order. \<open>L\<close> records what \<open>CreateAPIKey\<close> has handed out, \<open>P\<close> where each
  goroutine inside \<open>Authenticate\<close> stands. The buffers of \<open>rand.Read\<close> have their documented lengths.
\<close>

inductive plane :: "(string \<times> APIKey) list \<Rightarrow> MemoryStore \<Rightarrow> (nat \<Rightarrow> AuthPc option) \<Rightarrow> bool" where
  plane_start: "plane [] NewMemoryStore (\<lambda>_. None)"
| plane_tenant: "plane L m P \<Longrightarrow> length idb = 16 \<Longrightarrow> mem_CreateTenant idb now name slug m = (r, m') \<Longrightarrow> plane L m' P"
| plane_issue: "plane L m P \<Longrightarrow> length idb = 16 \<Longrightarrow> length buf = 32 \<Longrightarrow>
    mem_CreateAPIKey (Inr buf) idb now t scopes m = (Inr (pt, key), m') \<Longrightarrow> plane ((pt, key) # L) m' P"
| plane_no_issue: "plane L m P \<Longrightarrow> mem_CreateAPIKey rand idb now t scopes m = (Inl err, m') \<Longrightarrow> plane L m' P"
| plane_revoke: "plane L m P \<Longrightarrow> mem_RevokeAPIKey now order keyID m = (r, m') \<Longrightarrow> plane L m' P"
| plane_call: "plane L m P \<Longrightarrow> plane L m (P(i \<mapsto> AuthStart pt))"
| plane_step: "plane L m P \<Longrightarrow> P i = Some pc \<Longrightarrow> auth_step now pc m = (pc', m') \<Longrightarrow> plane L m' (P(i \<mapsto> pc'))"

text \<open>A key is what was issued, up to its time stamps of use and revocation.\<close>

definition same_key :: "APIKey \<Rightarrow> APIKey \<Rightarrow> bool" where
  "same_key k k' \<longleftrightarrow> KeyID k' = KeyID k \<and> KeyTenantID k' = KeyTenantID k \<and> KeyPrefix k' = KeyPrefix k
     \<and> KeyHash k' = KeyHash k \<and> Scopes k' = Scopes k \<and> KeyCreatedAt k' = KeyCreatedAt k"

definition issued :: "(string \<times> APIKey) list \<Rightarrow> string \<Rightarrow> APIKey \<Rightarrow> bool" where
  "issued L h k \<longleftrightarrow> (\<exists>pt k0. (pt, k0) \<in> set L \<and> hashKey pt = h \<and> same_key k0 k)"

primrec pc_traced :: "(string \<times> APIKey) list \<Rightarrow> AuthPc \<Rightarrow> bool" where
  "pc_traced L (AuthStart pt) \<longleftrightarrow> True"
| "pc_traced L (AuthKey pt h k) \<longleftrightarrow> h = hashKey pt \<and> issued L h k"
| "pc_traced L (AuthTenant pt h k t) \<longleftrightarrow> h = hashKey pt \<and> issued L h k \<and> TntID t = KeyTenantID k"
| "pc_traced L (AuthDone pt r) \<longleftrightarrow>
     (case r of Inl e \<Rightarrow> True | Inr (t, k) \<Rightarrow> issued L (hashKey pt) k \<and> TntID t = KeyTenantID k)"

definition key_shape :: "string \<Rightarrow> APIKey \<Rightarrow> bool" where
  "key_shape pt k \<longleftrightarrow> (\<exists>buf. length buf = 32 \<and> pt = keyPrefix @ EncodeToString buf)
     \<and> KeyHash k = hashKey pt \<and> KeyPrefix k = take 16 pt \<and> length (KeyID k) = 32 \<and> length (KeyTenantID k) = 32"

definition traced :: "(string \<times> APIKey) list \<Rightarrow> MemoryStore \<Rightarrow> (nat \<Rightarrow> AuthPc option) \<Rightarrow> bool" where
  "traced L m P \<longleftrightarrow> (\<forall>i t. mTenants m i = Some t \<longrightarrow> TntID t = i \<and> length i = 32)
     \<and> (\<forall>h k. mKeys m h = Some k \<longrightarrow> issued L h k)
     \<and> (\<forall>i pc. P i = Some pc \<longrightarrow> pc_traced L pc)
     \<and> (\<forall>pt k. (pt, k) \<in> set L \<longrightarrow> key_shape pt k)"

lemma traced_pc: "traced L m P \<Longrightarrow> P i = Some pc \<Longrightarrow> pc_traced L pc"
  and traced_key: "traced L m P \<Longrightarrow> mKeys m h = Some k \<Longrightarrow> issued L h k"
  and traced_shape: "traced L m P \<Longrightarrow> (pt, k) \<in> set L \<Longrightarrow> key_shape pt k"
  unfolding traced_def by blast+

lemma key_shape_length: "key_shape pt k \<Longrightarrow> length pt = 72"
  by (auto simp: key_shape_def keyPrefix_def)

lemma same_key_refl [simp]: "same_key k k"
  by (simp add: same_key_def)

lemma same_key_stamp [simp]:
  "same_key k (k'\<lparr>LastUsedAt := u\<rparr>) \<longleftrightarrow> same_key k k'" "same_key k (k'\<lparr>RevokedAt := u\<rparr>) \<longleftrightarrow> same_key k k'"
  by (simp_all add: same_key_def)

lemma issued_stamp [simp]:
  "issued L h (k\<lparr>LastUsedAt := u\<rparr>) \<longleftrightarrow> issued L h k" "issued L h (k\<lparr>RevokedAt := u\<rparr>) \<longleftrightarrow> issued L h k"
  by (simp_all add: issued_def)

lemma issued_mono: "issued L h k \<Longrightarrow> issued (x # L) h k"
  by (auto simp: issued_def)

lemma pc_traced_mono: "pc_traced L pc \<Longrightarrow> pc_traced (x # L) pc"
  by (cases pc) (auto intro: issued_mono split: sum.splits)

lemma revoke_scan_effect:
  assumes "revoke_scan now keyID order m = (r, m')"
  shows "mTenants m' = mTenants m \<and> mSlugs m' = mSlugs m
    \<and> (m' = m \<and> r = Some StoreNotFound
       \<or> r = None \<and> (\<exists>h k. h \<in> set order \<and> mKeys m h = Some k \<and> KeyID k = keyID
            \<and> m' = m\<lparr>mKeys := (mKeys m)(h \<mapsto> k\<lparr>RevokedAt := Some now\<rparr>)\<rparr>))"
  using assms by (induction order) (auto split: option.splits if_splits)

lemma CreateAPIKey_cases:
  assumes "mem_CreateAPIKey rand idb now t scopes m = (r, m')"
  obtains (fail) err where "r = Inl err" "m' = m"
  | (made) buf tn pt k where "rand = Inr buf" "mTenants m t = Some tn" "r = Inr (pt, k)"
      "pt = keyPrefix @ EncodeToString buf" "m' = m\<lparr>mKeys := (mKeys m)(hashKey pt \<mapsto> k)\<rparr>"
      "k = \<lparr>KeyID = newID idb, KeyTenantID = t, KeyPrefix = take 16 pt, KeyHash = hashKey pt, Scopes = scopes,
            KeyCreatedAt = now, LastUsedAt = None, RevokedAt = None\<rparr>"
proof (cases "mTenants m t")
  case None
  then show thesis using assms by (intro fail) (auto simp: mem_CreateAPIKey_def)
next
  case (Some tn)
  show thesis
  proof (cases rand)
    case (Inl err)
    then show thesis using assms Some by (intro fail) (auto simp: mem_CreateAPIKey_def generatePlaintextKey_def)
  next
    case (Inr buf)
    have "length keyPrefix + 8 = 16" by (simp add: keyPrefix_def)
    then show thesis using assms Some Inr
      by (intro made [of buf tn]) (auto simp: mem_CreateAPIKey_def generatePlaintextKey_def Let_def hashKey_def)
  qed
qed

lemma pc_traced_step:
  assumes "traced L m P" and "pc_traced L pc" and "auth_step now pc m = (pc', m')"
  shows "pc_traced L pc' \<and> mTenants m' = mTenants m \<and> (\<forall>h k. mKeys m' h = Some k \<longrightarrow> issued L h k)"
  using assms
  by (cases pc) (auto simp: traced_def auth_lookup_def auth_tenant_def auth_touch_def Let_def split: option.splits if_splits)

lemma plane_traced: "plane L m P \<Longrightarrow> traced L m P"
proof (induction rule: plane.induct)
  case plane_start
  show ?case by (simp add: traced_def NewMemoryStore_def)
next
  case (plane_tenant L m P idb now name slug r m')
  then show ?case by (auto simp: mem_CreateTenant_def traced_def newID_def Let_def split: if_splits)
next
  case (plane_issue L m P idb buf now t scopes pt key m')
  from plane_issue(4) show ?case
  proof (cases rule: CreateAPIKey_cases)
    case (made buf' tn pt' k)
    then have "key_shape pt key" using plane_issue by (auto simp: key_shape_def newID_def traced_def)
    moreover have "issued ((pt, key) # L) (hashKey pt) key"
      unfolding issued_def by (intro exI [of _ pt] exI [of _ key]) simp
    ultimately show ?thesis using plane_issue(5) made
      by (auto simp: traced_def intro: issued_mono pc_traced_mono)
  qed simp
next
  case (plane_no_issue L m P rand idb now t scopes err m')
  from plane_no_issue(2,3) show ?case by (cases rule: CreateAPIKey_cases) auto
next
  case (plane_revoke L m P now order keyID r m')
  from revoke_scan_effect [of now keyID order m r m'] plane_revoke(2,3) show ?case
    by (auto simp: mem_RevokeAPIKey_def traced_def split: if_splits)
next
  case (plane_call L m P i pt)
  then show ?case by (auto simp: traced_def)
next
  case (plane_step L m P i pc now pc' m')
  then have "pc_traced L pc" by (auto simp: traced_def)
  from pc_traced_step [OF plane_step(4) this plane_step(3)] plane_step(4) show ?case
    by (auto simp: traced_def)
qed

section \<open>The interface Store\<close>

text \<open>
  The interface \<open>Store\<close> as a record of operations on a state of type \<open>'s\<close>. \<open>'e\<close> is what one call
  takes from its surroundings (entropy, clock, map order).
\<close>

record ('e, 's) StoreAPI =
  CreateTenant :: "'e \<Rightarrow> string \<Rightarrow> string \<Rightarrow> 's \<Rightarrow> (StoreError + Tenant) \<times> 's"
  GetTenant :: "'e \<Rightarrow> string \<Rightarrow> 's \<Rightarrow> (StoreError + Tenant) \<times> 's"
  CreateAPIKey :: "'e \<Rightarrow> string \<Rightarrow> string list option \<Rightarrow> 's \<Rightarrow> (StoreError + string \<times> APIKey) \<times> 's"
  Authenticate :: "'e \<Rightarrow> string \<Rightarrow> 's \<Rightarrow> (StoreError + Tenant \<times> APIKey) \<times> 's"
  RevokeAPIKey :: "'e \<Rightarrow> string \<Rightarrow> 's \<Rightarrow> StoreError option \<times> 's"

record Draw =
  dRand :: "string + string"
  dID :: string
  dNow :: time
  dOrder :: "string list"

definition memory_api :: "(Draw, MemoryStore) StoreAPI" where
  "memory_api =
     \<lparr>CreateTenant = (\<lambda>e. mem_CreateTenant (dID e) (dNow e)),
      GetTenant = (\<lambda>e i m. (mem_GetTenant i m, m)),
      CreateAPIKey = (\<lambda>e. mem_CreateAPIKey (dRand e) (dID e) (dNow e)),
      Authenticate = (\<lambda>e. mem_Authenticate (dNow e)),
      RevokeAPIKey = (\<lambda>e. mem_RevokeAPIKey (dNow e) (dOrder e))\<rparr>"

text \<open>Sequences of calls.\<close>

datatype StoreOp =
    OpCreateTenant string string
  | OpGetTenant string
  | OpCreateAPIKey string "string list option"
  | OpAuthenticate string
  | OpRevokeAPIKey string

primrec store_op :: "('e, 's) StoreAPI \<Rightarrow> 'e \<Rightarrow> StoreOp \<Rightarrow> 's \<Rightarrow> 's" where
  "store_op api e (OpCreateTenant name slug) s = snd (CreateTenant api e name slug s)"
| "store_op api e (OpGetTenant i) s = snd (GetTenant api e i s)"
| "store_op api e (OpCreateAPIKey t scopes) s = snd (CreateAPIKey api e t scopes s)"
| "store_op api e (OpAuthenticate pt) s = snd (Authenticate api e pt s)"
| "store_op api e (OpRevokeAPIKey i) s = snd (RevokeAPIKey api e i s)"

fun store_run :: "('e, 's) StoreAPI \<Rightarrow> ('e \<times> StoreOp) list \<Rightarrow> 's \<Rightarrow> 's" where
  "store_run api [] s = s"
| "store_run api ((e, op) # ops) s = store_run api ops (store_op api e op s)"

fun fair_run :: "('e \<Rightarrow> 's \<Rightarrow> bool) \<Rightarrow> ('e, 's) StoreAPI \<Rightarrow> ('e \<times> StoreOp) list \<Rightarrow> 's \<Rightarrow> bool" where
  "fair_run fair api [] s \<longleftrightarrow> True"
| "fair_run fair api ((e, op) # ops) s \<longleftrightarrow> fair e s \<and> fair_run fair api ops (store_op api e op s)"

text \<open>
  What the interface promises, on the abstract key directory: a map from the hash of a key to its
  identifier, its tenant, its scopes and whether it is revoked. \<open>norm\<close> is how the backend reads an
  identifier: as it is in memory, as the value of a UUID in Postgres.
\<close>

record Entry =
  eID :: string
  eTenant :: string
  eScopes :: "string list"
  eRevoked :: bool

type_synonym Directory = "string \<rightharpoonup> Entry"

definition retire :: "string \<Rightarrow> Directory \<Rightarrow> Directory" where
  "retire i d = (\<lambda>h. map_option (\<lambda>en. if eID en = i then en\<lparr>eRevoked := True\<rparr> else en) (d h))"

text \<open>
  What \<open>Authenticate\<close> may answer for a directory entry. Any answer other than success, \<open>ErrNotFound\<close>
  and \<open>ErrRevoked\<close> reports a failure of the backend and says nothing about the key.
\<close>

definition answers :: "Entry option \<Rightarrow> StoreError + Tenant \<times> APIKey \<Rightarrow> bool" where
  "answers en r \<longleftrightarrow>
     (case r of
        Inr (t, k) \<Rightarrow> (case en of None \<Rightarrow> False
          | Some x \<Rightarrow> \<not> eRevoked x \<and> TntID t = eTenant x \<and> KeyID k = eID x \<and> slice (Scopes k) = eScopes x)
      | Inl StoreNotFound \<Rightarrow> en = None
      | Inl StoreRevoked \<Rightarrow> (case en of None \<Rightarrow> False | Some x \<Rightarrow> eRevoked x)
      | Inl _ \<Rightarrow> True)"

locale key_store =
  fixes api :: "('e, 's) StoreAPI" and ok :: "'s \<Rightarrow> bool" and dir :: "'s \<Rightarrow> Directory" and fair :: "'e \<Rightarrow> 's \<Rightarrow> bool"
    and norm :: "string \<Rightarrow> string"
  assumes enrol_law: "ok s \<Longrightarrow> fair e s \<Longrightarrow> CreateTenant api e n sl s = (r, s') \<Longrightarrow> ok s' \<and> dir s' = dir s"
    and get_law: "ok s \<Longrightarrow> GetTenant api e i s = (r, s') \<Longrightarrow> ok s' \<and> dir s' = dir s"
    and issue_law: "ok s \<Longrightarrow> fair e s \<Longrightarrow> CreateAPIKey api e t sc s = (Inr (pt, k), s') \<Longrightarrow>
      ok s' \<and> dir s (hashKey pt) = None
      \<and> dir s' = (dir s)(hashKey pt \<mapsto> \<lparr>eID = KeyID k, eTenant = norm t, eScopes = slice sc, eRevoked = False\<rparr>)"
    and no_issue_law: "ok s \<Longrightarrow> fair e s \<Longrightarrow> CreateAPIKey api e t sc s = (Inl err, s') \<Longrightarrow> ok s' \<and> dir s \<subseteq>\<^sub>m dir s'"
    and auth_law: "ok s \<Longrightarrow> Authenticate api e pt s = (a, s') \<Longrightarrow>
      ok s' \<and> dir s' = dir s \<and> answers (dir s (hashKey pt)) a"
    and revoke_law: "ok s \<Longrightarrow> fair e s \<Longrightarrow> RevokeAPIKey api e i s = (x, s') \<Longrightarrow>
      ok s' \<and> (dir s' = retire (norm i) (dir s) \<or> x \<noteq> None \<and> dir s' = dir s)"
begin

lemma op_ok:
  assumes "ok s" "fair e s"
  shows "ok (store_op api e op s)"
proof (cases op)
  case (OpCreateAPIKey t sc)
  obtain r s' where r: "CreateAPIKey api e t sc s = (r, s')" by fastforce
  then have "ok s'" using issue_law [OF assms, of t sc] no_issue_law [OF assms, of t sc] by (cases r) auto
  then show ?thesis by (simp add: OpCreateAPIKey r)
next
  case (OpCreateTenant n sl)
  then show ?thesis using enrol_law [OF assms, of n sl] by (cases "CreateTenant api e n sl s") simp
next
  case (OpGetTenant i)
  then show ?thesis using get_law [OF assms(1), of e i] by (cases "GetTenant api e i s") simp
next
  case (OpAuthenticate pt)
  then show ?thesis using auth_law [OF assms(1), of e pt] by (cases "Authenticate api e pt s") simp
next
  case (OpRevokeAPIKey i)
  then show ?thesis using revoke_law [OF assms, of i] by (cases "RevokeAPIKey api e i s") simp
qed

lemma run_ok: "ok s \<Longrightarrow> fair_run fair api ops s \<Longrightarrow> ok (store_run api ops s)"
  by (induction ops arbitrary: s) (auto simp: op_ok)

text \<open>A live entry only goes by a call of \<open>RevokeAPIKey\<close> with its identifier.\<close>

lemma op_entry:
  assumes "ok s" "fair e s" "dir s h = Some en"
  shows "dir (store_op api e op s) h = Some en
    \<or> (\<exists>i. op = OpRevokeAPIKey i \<and> norm i = eID en) \<and> dir (store_op api e op s) h = Some (en\<lparr>eRevoked := True\<rparr>)"
proof (cases op)
  case (OpCreateAPIKey t sc)
  obtain r s' where r: "CreateAPIKey api e t sc s = (r, s')" by fastforce
  show ?thesis
  proof (cases r)
    case (Inl err)
    then show ?thesis using no_issue_law [OF assms(1,2)] r assms(3) OpCreateAPIKey by (auto simp: map_le_def dom_def)
  next
    case (Inr x)
    then show ?thesis using issue_law [OF assms(1,2), of t sc "fst x" "snd x" s'] r assms(3) OpCreateAPIKey by auto
  qed
next
  case (OpRevokeAPIKey i)
  obtain x s' where r: "RevokeAPIKey api e i s = (x, s')" by fastforce
  then show ?thesis using revoke_law [OF assms(1,2) r] assms(3) OpRevokeAPIKey by (auto simp: retire_def split: if_splits)
next
  case (OpCreateTenant n sl)
  then show ?thesis using enrol_law [OF assms(1,2), of n sl] assms(3) by (cases "CreateTenant api e n sl s") auto
next
  case (OpGetTenant i)
  then show ?thesis using get_law [OF assms(1), of e i] assms(3) by (cases "GetTenant api e i s") auto
next
  case (OpAuthenticate pt)
  then show ?thesis using auth_law [OF assms(1), of e pt] assms(3) by (cases "Authenticate api e pt s") auto
qed

lemma run_entry:
  assumes "ok s" "fair_run fair api ops s" "dir s h = Some en"
  shows "ok (store_run api ops s)
    \<and> (dir (store_run api ops s) h = Some en
       \<or> (\<exists>e i. (e, OpRevokeAPIKey i) \<in> set ops \<and> norm i = eID en) \<and> dir (store_run api ops s) h = Some (en\<lparr>eRevoked := True\<rparr>))"
  using assms
proof (induction ops arbitrary: s en)
  case (Cons x ops)
  obtain e op where x: "x = (e, op)" by fastforce
  with Cons.prems have f: "fair e s" "fair_run fair api ops (store_op api e op s)" by simp_all
  have k: "ok (store_op api e op s)" using op_ok Cons.prems(1) f(1) by blast
  from op_entry [OF Cons.prems(1) f(1) Cons.prems(3), of op] show ?case
  proof
    assume "dir (store_op api e op s) h = Some en"
    from Cons.IH [OF k f(2) this] show ?thesis by (auto simp: x)
  next
    assume h: "(\<exists>i. op = OpRevokeAPIKey i \<and> norm i = eID en) \<and> dir (store_op api e op s) h = Some (en\<lparr>eRevoked := True\<rparr>)"
    from Cons.IH [OF k f(2), of "en\<lparr>eRevoked := True\<rparr>"] h show ?thesis by (auto simp: x)
  qed
qed simp

lemma issued_key_works:
  assumes "ok s" "fair e s" "CreateAPIKey api e t sc s = (Inr (pt, k), s')"
    and "fair_run fair api ops s'" "\<And>e' i. (e', OpRevokeAPIKey i) \<in> set ops \<Longrightarrow> norm i \<noteq> KeyID k"
    and a: "Authenticate api e2 pt (store_run api ops s') = (r, s2)"
  shows "answers (Some \<lparr>eID = KeyID k, eTenant = norm t, eScopes = slice sc, eRevoked = False\<rparr>) r"
proof -
  let ?en = "\<lparr>eID = KeyID k, eTenant = norm t, eScopes = slice sc, eRevoked = False\<rparr>"
  have i: "ok s'" "dir s' (hashKey pt) = Some ?en" using issue_law [OF assms(1-3)] by simp_all
  from run_entry [OF i(1) assms(4) i(2)] assms(5)
  have "ok (store_run api ops s')" "dir (store_run api ops s') (hashKey pt) = Some ?en" by auto
  from auth_law [OF this(1) a] this(2) show ?thesis by simp
qed

lemma revoked_key_dead:
  assumes "ok s" "fair e s" "RevokeAPIKey api e i s = (None, s')" "dir s (hashKey pt) = Some en" "eID en = norm i"
    and "fair_run fair api ops s'"
    and a: "Authenticate api e2 pt (store_run api ops s') = (r, s2)"
  shows "answers (Some (en\<lparr>eRevoked := True\<rparr>)) r"
proof -
  have i: "ok s'" "dir s' (hashKey pt) = Some (en\<lparr>eRevoked := True\<rparr>)"
    using revoke_law [OF assms(1-3)] assms(4,5) by (auto simp: retire_def)
  from run_entry [OF i(1) assms(6) i(2)]
  have "ok (store_run api ops s')" "dir (store_run api ops s') (hashKey pt) = Some (en\<lparr>eRevoked := True\<rparr>)" by auto
  from auth_law [OF this(1) a] this(2) show ?thesis by simp
qed

end

section \<open>The in-memory store keeps the contract\<close>

definition entry_of :: "APIKey \<Rightarrow> Entry" where
  "entry_of k = \<lparr>eID = KeyID k, eTenant = KeyTenantID k, eScopes = slice (Scopes k), eRevoked = RevokedAt k \<noteq> None\<rparr>"

definition mem_dir :: "MemoryStore \<Rightarrow> Directory" where
  "mem_dir m = (\<lambda>h. map_option entry_of (mKeys m h))"

text \<open>Every key belongs to a tenant, tenants are filed under their identifiers, key identifiers are unique.\<close>

definition mem_ok :: "MemoryStore \<Rightarrow> bool" where
  "mem_ok m \<longleftrightarrow> (\<forall>h k. mKeys m h = Some k \<longrightarrow> mTenants m (KeyTenantID k) \<noteq> None)
     \<and> (\<forall>i t. mTenants m i = Some t \<longrightarrow> TntID t = i)
     \<and> (\<forall>h h' k k'. mKeys m h = Some k \<longrightarrow> mKeys m h' = Some k' \<longrightarrow> KeyID k = KeyID k' \<longrightarrow> h = h')"

text \<open>
  The random draws of a call do not repeat an identifier or a key that is in the store, and the map
  order it sees lists the keys of the map.
\<close>

definition mem_fair :: "Draw \<Rightarrow> MemoryStore \<Rightarrow> bool" where
  "mem_fair e m \<longleftrightarrow> set (dOrder e) = dom (mKeys m)
     \<and> (\<forall>h k. mKeys m h = Some k \<longrightarrow> KeyID k \<noteq> newID (dID e))
     \<and> (case dRand e of Inl err \<Rightarrow> True | Inr buf \<Rightarrow> mKeys m (hashKey (keyPrefix @ EncodeToString buf)) = None)"

lemma mem_ok_New: "mem_ok NewMemoryStore"
  by (simp add: mem_ok_def NewMemoryStore_def)

lemma mem_ok_tenant:
  assumes "mem_ok m" and "mKeys m h = Some k"
  obtains t where "mTenants m (KeyTenantID k) = Some t" "TntID t = KeyTenantID k"
  using assms unfolding mem_ok_def by blast

lemma mem_ok_unique: "mem_ok m \<Longrightarrow> mKeys m h = Some k \<Longrightarrow> mKeys m h' = Some k' \<Longrightarrow> KeyID k = KeyID k' \<Longrightarrow> h = h'"
  unfolding mem_ok_def by blast

lemma mem_ok_put:
  assumes m: "mem_ok m" and t: "mTenants m (KeyTenantID k) = Some t"
    and u: "\<And>h' k'. mKeys m h' = Some k' \<Longrightarrow> KeyID k' = KeyID k \<Longrightarrow> h' = h"
  shows "mem_ok (m\<lparr>mKeys := (mKeys m)(h \<mapsto> k)\<rparr>)"
  using m t unfolding mem_ok_def by (auto split: if_splits dest: u u [OF _ sym])

lemma mem_enrol:
  assumes "mem_ok m" and "mem_CreateTenant idb now n sl m = (r, m')"
  shows "mem_ok m' \<and> mem_dir m' = mem_dir m"
  using assms by (auto simp: mem_CreateTenant_def mem_ok_def mem_dir_def Let_def split: if_splits)

lemma mem_issue:
  assumes m: "mem_ok m" and f: "mem_fair e m" and c: "mem_CreateAPIKey (dRand e) (dID e) (dNow e) t sc m = (Inr (pt, k), m')"
  shows "mem_ok m' \<and> mem_dir m (hashKey pt) = None
    \<and> mem_dir m' = (mem_dir m)(hashKey pt \<mapsto> \<lparr>eID = KeyID k, eTenant = t, eScopes = slice sc, eRevoked = False\<rparr>)"
  using c
proof (cases rule: CreateAPIKey_cases)
  case (made buf tn pt' k')
  then have new: "mKeys m (hashKey pt) = None" and i: "\<And>h x. mKeys m h = Some x \<Longrightarrow> KeyID x \<noteq> KeyID k"
    using f by (auto simp: mem_fair_def)
  have "mem_ok m'" unfolding made(5) using made(2,3,6) i by (intro mem_ok_put [OF m, of _ tn]) auto
  moreover have "mem_dir m' = (mem_dir m)(hashKey pt \<mapsto> \<lparr>eID = KeyID k, eTenant = t, eScopes = slice sc, eRevoked = False\<rparr>)"
    using made by (auto simp: mem_dir_def entry_of_def)
  ultimately show ?thesis using new by (simp add: mem_dir_def)
qed simp

lemma mem_auth:
  assumes m: "mem_ok m" and a: "mem_Authenticate now pt m = (r, m')"
  shows "mem_ok m' \<and> mem_dir m' = mem_dir m \<and> answers (mem_dir m (hashKey pt)) r"
proof (cases "mKeys m (hashKey pt)")
  case (Some k)
  show ?thesis
  proof (cases "RevokedAt k")
    case None
    obtain t where t: "mTenants m (KeyTenantID k) = Some t" "TntID t = KeyTenantID k"
      by (rule mem_ok_tenant [OF m Some])
    have e: "r = Inr (t, k\<lparr>LastUsedAt := Some now\<rparr>)" "m' = m\<lparr>mKeys := (mKeys m)(hashKey pt \<mapsto> k\<lparr>LastUsedAt := Some now\<rparr>)\<rparr>"
      using a Some None t by (simp_all add: mem_Authenticate_def auth_touch_def Let_def)
    have "mem_dir m' = mem_dir m" using Some by (auto simp: e mem_dir_def entry_of_def)
    moreover have "mem_ok m'" unfolding e using t Some by (intro mem_ok_put [OF m, of _ t]) (auto dest: mem_ok_unique [OF m])
    ultimately show ?thesis using Some None t by (simp add: e answers_def mem_dir_def entry_of_def)
  qed (use a m Some in \<open>auto simp: mem_Authenticate_def Let_def answers_def mem_dir_def entry_of_def\<close>)
qed (use a m in \<open>auto simp: mem_Authenticate_def Let_def answers_def mem_dir_def\<close>)

lemma revoke_scan_finds:
  "h \<in> set order \<Longrightarrow> mKeys m h = Some k \<Longrightarrow> KeyID k = i \<Longrightarrow> fst (revoke_scan now i order m) = None"
  by (induction order) (auto split: option.splits)

lemma mem_revoke:
  assumes m: "mem_ok m" and f: "mem_fair e m" and r: "mem_RevokeAPIKey now (dOrder e) i m = (x, m')"
  shows "mem_ok m' \<and> mem_dir m' = retire i (mem_dir m)"
proof -
  from revoke_scan_effect r [unfolded mem_RevokeAPIKey_def]
  consider "m' = m" "x = Some StoreNotFound"
    | h k where "mKeys m h = Some k" "KeyID k = i" "m' = m\<lparr>mKeys := (mKeys m)(h \<mapsto> k\<lparr>RevokedAt := Some now\<rparr>)\<rparr>"
    by blast
  then show ?thesis
  proof cases
    case 1
    have "KeyID k \<noteq> i" if "mKeys m h = Some k" for h k
    proof
      assume "KeyID k = i"
      then have "fst (revoke_scan now i (dOrder e) m) = None"
        using that f by (intro revoke_scan_finds) (auto simp: mem_fair_def)
      with r 1 show False by (simp add: mem_RevokeAPIKey_def)
    qed
    then have "mem_dir m = retire i (mem_dir m)"
      by (auto simp: fun_eq_iff mem_dir_def retire_def entry_of_def option.map_comp o_def intro!: option.map_cong)
    with 1 m show ?thesis by simp
  next
    case (2 h k)
    have other: "KeyID k' \<noteq> i" if "mKeys m h' = Some k'" "h' \<noteq> h" for h' k'
      using that 2 mem_ok_unique [OF m] by metis
    have "mem_dir m' h' = retire i (mem_dir m) h'" for h'
      using 2 other [of h'] by (cases "mKeys m h'") (auto simp: mem_dir_def retire_def entry_of_def)
    moreover obtain t where "mTenants m (KeyTenantID k) = Some t" by (rule mem_ok_tenant [OF m 2(1)])
    then have "mem_ok m'" unfolding 2(3) using 2(1,2) other by (intro mem_ok_put [OF m, of _ t]) auto
    ultimately show ?thesis by auto
  qed
qed

lemma mem_no_issue:
  "mem_CreateAPIKey rand idb now t sc m = (Inl err, m') \<Longrightarrow> m' = m"
  by (erule CreateAPIKey_cases) auto

lemma memory_api_sel [simp]:
  "CreateTenant memory_api e = mem_CreateTenant (dID e) (dNow e)"
  "GetTenant memory_api e i m = (mem_GetTenant i m, m)"
  "CreateAPIKey memory_api e = mem_CreateAPIKey (dRand e) (dID e) (dNow e)"
  "Authenticate memory_api e = mem_Authenticate (dNow e)"
  "RevokeAPIKey memory_api e = mem_RevokeAPIKey (dNow e) (dOrder e)"
  by (simp_all add: memory_api_def)

interpretation mem: key_store memory_api mem_ok mem_dir mem_fair "\<lambda>i. i"
proof (unfold_locales, goal_cases)
  case (1 s e n sl r s')
  then show ?case using mem_enrol by simp
next
  case (3 s e t sc pt k s')
  then show ?case using mem_issue by simp
next
  case (4 s e t sc err s')
  then show ?case using mem_no_issue by fastforce
next
  case (5 s e pt a s')
  then show ?case using mem_auth by simp
next
  case (6 s e i x s')
  then show ?case using mem_revoke by simp
qed simp

text \<open>The in-memory store has no backend that can fail.\<close>

lemma mem_Authenticate_errors:
  "fst (mem_Authenticate now pt m) = Inl err \<Longrightarrow> err = StoreNotFound \<or> err = StoreRevoked"
  by (auto simp: mem_Authenticate_def auth_touch_def Let_def split: option.splits if_splits)

section \<open>A small example\<close>

definition demo_tenant :: Tenant where
  "demo_tenant = \<lparr>TntID = newID (replicate 16 (CHR ''a'')), TntName = ''Demo'', Slug = ''demo'', TntStatus = ''active'', TntCreatedAt = 5\<rparr>"

definition demo_draw :: "string list \<Rightarrow> Draw" where
  "demo_draw order = \<lparr>dRand = Inr (replicate 32 (CHR ''b'')), dID = replicate 16 (CHR ''b''), dNow = 7, dOrder = order\<rparr>"

definition demo_plain :: string where
  "demo_plain = keyPrefix @ EncodeToString (replicate 32 (CHR ''b''))"

definition demo_key :: APIKey where
  "demo_key = \<lparr>KeyID = newID (replicate 16 (CHR ''b'')), KeyTenantID = TntID demo_tenant, KeyPrefix = take 16 demo_plain,
     KeyHash = hashKey demo_plain, Scopes = Some [''proxy:write''], KeyCreatedAt = 7, LastUsedAt = None, RevokedAt = None\<rparr>"

definition demo_enrol :: "(Draw \<times> StoreOp) list" where
  "demo_enrol = [(\<lparr>dRand = Inl [], dID = replicate 16 (CHR ''a''), dNow = 5, dOrder = []\<rparr>, OpCreateTenant ''Demo'' ''demo'')]"

definition demo_store :: "APIKey option \<Rightarrow> MemoryStore" where
  "demo_store ko = \<lparr>mTenants = [TntID demo_tenant \<mapsto> demo_tenant], mSlugs = [''demo'' \<mapsto> TntID demo_tenant],
     mKeys = (case ko of None \<Rightarrow> Map.empty | Some k \<Rightarrow> [hashKey demo_plain \<mapsto> k])\<rparr>"

lemma demo_enrolled:
  "mem_CreateTenant (replicate 16 (CHR ''a'')) 5 ''Demo'' ''demo'' NewMemoryStore = (Inr demo_tenant, demo_store None)"
  by (simp add: mem_CreateTenant_def NewMemoryStore_def demo_store_def demo_tenant_def Let_def)

lemma demo_enrol_run: "store_run memory_api demo_enrol NewMemoryStore = demo_store None"
  and demo_enrol_fair: "fair_run mem_fair memory_api demo_enrol NewMemoryStore"
  using demo_enrolled by (simp_all add: demo_enrol_def mem_fair_def NewMemoryStore_def)

lemma demo_issued:
  "mem_CreateAPIKey (Inr (replicate 32 (CHR ''b''))) (replicate 16 (CHR ''b'')) 7 (TntID demo_tenant) (Some [''proxy:write'']) (demo_store None)
   = (Inr (demo_plain, demo_key), demo_store (Some demo_key))"
proof -
  have "length keyPrefix + 8 = 16" by (simp add: keyPrefix_def)
  then show ?thesis
    by (simp add: mem_CreateAPIKey_def demo_store_def generatePlaintextKey_def Let_def demo_key_def hashKey_def demo_plain_def
        del: EncodeToString_inject)
qed

lemma demo_draw_fair: "mem_fair (demo_draw []) (demo_store None)"
  by (simp add: mem_fair_def demo_draw_def demo_store_def)

section \<open>Properties\<close>

text \<open>
  C11: authentication is authentic, in every interleaving of goroutines over the in-memory store. If
  \<open>Authenticate\<close> accepts a plaintext, then this plaintext was handed out by \<open>CreateAPIKey\<close>, and the
  tenant, the key identifier and the scopes it reports are those of that call; the hypothesis is that
  SHA-256 has no collision among the keys handed out and the plaintext presented.
\<close>

theorem authentication_is_authentic:
  assumes "plane L m P" and "P i = Some (AuthDone pt (Inr (t, k)))" and "inj_on Sum256 (insert pt (fst ` set L))"
  shows "\<exists>k0. (pt, k0) \<in> set L \<and> TntID t = KeyTenantID k0 \<and> KeyID k = KeyID k0 \<and> Scopes k = Scopes k0"
proof -
  from traced_pc [OF plane_traced [OF assms(1)] assms(2)]
  have "issued L (hashKey pt) k" and t: "TntID t = KeyTenantID k" by simp_all
  then obtain pt' k0 where k0: "(pt', k0) \<in> set L" "hashKey pt' = hashKey pt" "same_key k0 k"
    by (auto simp: issued_def)
  then have "Sum256 pt' = Sum256 pt" by (simp add: hashKey_def)
  moreover have "pt' \<in> fst ` set L" using k0(1) by force
  ultimately have "pt' = pt" using inj_onD [OF assms(3)] by blast
  with k0 t show ?thesis by (auto simp: same_key_def)
qed

theorem authentication_is_authentic_witness:
  "\<exists>k0. (demo_plain, k0) \<in> set [(demo_plain, demo_key)] \<and> TntID demo_tenant = KeyTenantID k0"
proof -
  let ?m = "demo_store (Some demo_key)"
  have "plane [] (demo_store None) (\<lambda>_. None)"
    by (rule plane_tenant [OF plane_start _ demo_enrolled]) simp
  from plane_call [OF plane_issue [OF this _ _ demo_issued], of 0 demo_plain]
  have "plane [(demo_plain, demo_key)] ?m [0 \<mapsto> AuthStart demo_plain]" by simp
  from plane_step [OF this, of 0 _ 8 "AuthKey demo_plain (hashKey demo_plain) demo_key" ?m]
  have "plane [(demo_plain, demo_key)] ?m [0 \<mapsto> AuthKey demo_plain (hashKey demo_plain) demo_key]"
    by (simp add: auth_lookup_def demo_store_def demo_key_def Let_def)
  from plane_step [OF this, of 0 _ 8 "AuthTenant demo_plain (hashKey demo_plain) demo_key demo_tenant" ?m]
  have "plane [(demo_plain, demo_key)] ?m [0 \<mapsto> AuthTenant demo_plain (hashKey demo_plain) demo_key demo_tenant]"
    by (simp add: auth_tenant_def demo_store_def demo_key_def)
  from plane_step [OF this, of 0 _ 8 "AuthDone demo_plain (Inr (demo_tenant, demo_key\<lparr>LastUsedAt := Some 8\<rparr>))"
      "demo_store (Some (demo_key\<lparr>LastUsedAt := Some 8\<rparr>))"]
  have "plane [(demo_plain, demo_key)] (demo_store (Some (demo_key\<lparr>LastUsedAt := Some 8\<rparr>)))
      [0 \<mapsto> AuthDone demo_plain (Inr (demo_tenant, demo_key\<lparr>LastUsedAt := Some 8\<rparr>))]"
    by (simp add: auth_touch_def demo_store_def Let_def)
  from authentication_is_authentic [OF this, of 0 demo_plain demo_tenant "demo_key\<lparr>LastUsedAt := Some 8\<rparr>"]
  show ?thesis by auto
qed

text \<open>
  C37: the format of a key. From 32 bytes of entropy the plaintext is \<open>vg_live_\<close> followed by 64 lower-case
  hexadecimal digits, different entropy gives different keys, the stored hash is the 64 hexadecimal digits of
  the SHA-256 digest of the whole plaintext, and what is displayed is its first 16 characters, so 56 of the 64
  secret digits are not shown.
\<close>

theorem key_format:
  assumes "length buf = 32" and "generatePlaintextKey (Inr buf) = Inr (pt, hash, shown)"
  shows "HasPrefix pt ''vg_live_'' \<and> length pt = 72 \<and> set (drop 8 pt) \<subseteq> set ''0123456789abcdef''
    \<and> hash = hashKey pt \<and> length hash = 64 \<and> set hash \<subseteq> set ''0123456789abcdef'' \<and> shown = take 16 pt
    \<and> (generatePlaintextKey (Inr buf') = Inr (pt, hash', shown') \<longrightarrow> buf' = buf)"
proof -
  have pt: "pt = keyPrefix @ EncodeToString buf" and h: "hash = hashKey pt" and sh: "shown = take 16 pt"
    using assms(2) by (auto simp: generatePlaintextKey_def hashKey_def keyPrefix_def Let_def)
  have k: "keyPrefix = ''vg_live_''" by (simp add: keyPrefix_def)
  have "HasPrefix pt ''vg_live_''" unfolding pt k by (rule HasPrefix_append)
  moreover have "drop 8 pt = EncodeToString buf" "length pt = 72" "hash = EncodeToString (Sum256 pt)"
    using assms(1) by (simp_all add: pt k h hashKey_def)
  moreover have "set (EncodeToString bs) \<subseteq> set ''0123456789abcdef''" for bs by (rule EncodeToString_digits)
  moreover have "length hash = 64" by (simp add: h hashKey_def)
  moreover have "buf' = buf" if "generatePlaintextKey (Inr buf') = Inr (pt, hash', shown')"
    using that by (auto simp: generatePlaintextKey_def pt Let_def)
  ultimately show ?thesis using h sh by metis
qed

theorem key_format_witness: "HasPrefix demo_plain ''vg_live_'' \<and> length demo_plain = 72"
proof -
  have "generatePlaintextKey (Inr (replicate 32 (CHR ''b''))) = Inr (demo_plain, hashKey demo_plain, take 16 demo_plain)"
    by (simp add: generatePlaintextKey_def demo_plain_def Let_def hashKey_def keyPrefix_def del: EncodeToString_inject)
  from key_format [OF _ this] show ?thesis by simp
qed

text \<open>
  A plaintext key is never stored: whatever the goroutines do, no field of a stored key equals a
  key that was handed out, and the record is filed under the digest of the key.
\<close>

theorem plaintext_never_stored:
  assumes "plane L m P" and "(pt, k0) \<in> set L" and "mKeys m h = Some k"
  shows "pt \<notin> {h, KeyID k, KeyTenantID k, KeyPrefix k, KeyHash k} \<and> KeyHash k = h \<and> length pt = 72 \<and> length (KeyPrefix k) = 16"
proof -
  note tr = plane_traced [OF assms(1)]
  have pt: "length pt = 72" using key_shape_length [OF traced_shape [OF tr assms(2)]] .
  obtain pt1 k1 where k1: "(pt1, k1) \<in> set L" "hashKey pt1 = h" "same_key k1 k"
    using traced_key [OF tr assms(3)] by (auto simp: issued_def)
  from traced_shape [OF tr k1(1)] have s: "key_shape pt1 k1" .
  then have "length pt1 = 72" by (rule key_shape_length)
  with s k1 have "length (KeyPrefix k) = 16" "length (KeyID k) = 32" "length (KeyTenantID k) = 32" "KeyHash k = h" "length h = 64"
    by (auto simp: key_shape_def same_key_def hashKey_def)
  with pt show ?thesis by auto
qed

theorem plaintext_never_stored_witness: "demo_plain \<noteq> KeyPrefix demo_key"
proof -
  have "plane [] (demo_store None) (\<lambda>_. None)"
    by (rule plane_tenant [OF plane_start _ demo_enrolled]) simp
  from plane_issue [OF this _ _ demo_issued] have "plane [(demo_plain, demo_key)] (demo_store (Some demo_key)) (\<lambda>_. None)" by simp
  from plaintext_never_stored [OF this, of demo_plain demo_key "hashKey demo_plain" demo_key]
  show ?thesis by (simp add: demo_store_def)
qed

text \<open>
  C19: an issued key works until it is revoked: after any history, a key from \<open>CreateAPIKey\<close> is accepted
  after any further calls that do not revoke it, for its tenant and with its scopes.
\<close>

theorem issued_key_authenticates:
  assumes "fair_run mem_fair memory_api hist NewMemoryStore" and "s = store_run memory_api hist NewMemoryStore"
    and "mem_fair e s" and "CreateAPIKey memory_api e t sc s = (Inr (pt, k), s')"
    and "fair_run mem_fair memory_api ops s'" and "\<And>e'. (e', OpRevokeAPIKey (KeyID k)) \<notin> set ops"
  shows "\<exists>tn k'. fst (Authenticate memory_api e2 pt (store_run memory_api ops s')) = Inr (tn, k')
    \<and> TntID tn = t \<and> KeyID k' = KeyID k \<and> slice (Scopes k') = slice sc"
proof -
  have "mem_ok s" using mem.run_ok [OF mem_ok_New assms(1)] by (simp add: assms(2))
  obtain r s2 where r: "Authenticate memory_api e2 pt (store_run memory_api ops s') = (r, s2)" by fastforce
  have "i \<noteq> KeyID k" if "(e', OpRevokeAPIKey i) \<in> set ops" for e' i using assms(6) that by blast
  from mem.issued_key_works [OF \<open>mem_ok s\<close> assms(3-5) this r] have "answers (Some \<lparr>eID = KeyID k, eTenant = t, eScopes = slice sc, eRevoked = False\<rparr>) r" .
  then show ?thesis using mem_Authenticate_errors [of "dNow e2" pt "store_run memory_api ops s'"] r
    by (auto simp: answers_def split: sum.splits prod.splits)
qed

theorem issued_key_authenticates_witness:
  "\<exists>tn k'. fst (Authenticate memory_api (demo_draw []) demo_plain (demo_store (Some demo_key))) = Inr (tn, k') \<and> TntID tn = TntID demo_tenant"
proof -
  have "CreateAPIKey memory_api (demo_draw []) (TntID demo_tenant) (Some [''proxy:write'']) (demo_store None)
      = (Inr (demo_plain, demo_key), demo_store (Some demo_key))"
    using demo_issued by (simp add: demo_draw_def)
  from issued_key_authenticates [OF demo_enrol_fair demo_enrol_run [symmetric] demo_draw_fair this, of "[]" "demo_draw []"]
  show ?thesis by auto
qed

text \<open>
  C18: a revoked key is dead: after a call of \<open>RevokeAPIKey\<close> that returned nil, every later call of
  \<open>Authenticate\<close> with the key is answered \<open>ErrRevoked\<close>, whatever whole calls come in between.
\<close>

theorem revoked_key_rejected:
  assumes "fair_run mem_fair memory_api hist NewMemoryStore" and "s = store_run memory_api hist NewMemoryStore"
    and "mem_fair e s" and "mKeys s (hashKey pt) = Some k" and "RevokeAPIKey memory_api e (KeyID k) s = (None, s')"
    and "fair_run mem_fair memory_api ops s'"
  shows "fst (Authenticate memory_api e2 pt (store_run memory_api ops s')) = Inl StoreRevoked"
proof -
  have "mem_ok s" using mem.run_ok [OF mem_ok_New assms(1)] by (simp add: assms(2))
  obtain r s2 where r: "Authenticate memory_api e2 pt (store_run memory_api ops s') = (r, s2)" by fastforce
  have "mem_dir s (hashKey pt) = Some (entry_of k)" using assms(4) by (simp add: mem_dir_def)
  from mem.revoked_key_dead [OF \<open>mem_ok s\<close> assms(3,5) this _ assms(6) r]
  have "answers (Some ((entry_of k)\<lparr>eRevoked := True\<rparr>)) r" by (simp add: entry_of_def)
  then show ?thesis using mem_Authenticate_errors [of "dNow e2" pt "store_run memory_api ops s'"] r
    by (auto simp: answers_def split: sum.splits prod.splits)
qed

theorem revoked_key_rejected_witness:
  "fst (Authenticate memory_api (demo_draw []) demo_plain
     (demo_store (Some (demo_key\<lparr>RevokedAt := Some 9\<rparr>)))) = Inl StoreRevoked"
proof -
  let ?h = "demo_enrol @ [(demo_draw [], OpCreateAPIKey (TntID demo_tenant) (Some [''proxy:write'']))]"
  let ?e = "\<lparr>dRand = Inl [], dID = replicate 16 (CHR ''c''), dNow = 9, dOrder = [hashKey demo_plain]\<rparr>"
  have 1: "store_run memory_api ?h NewMemoryStore = demo_store (Some demo_key)" "fair_run mem_fair memory_api ?h NewMemoryStore"
    using demo_enrolled demo_issued demo_draw_fair
    by (simp_all add: demo_enrol_def demo_draw_def) (simp add: mem_fair_def NewMemoryStore_def)
  have 2: "mem_fair ?e (demo_store (Some demo_key))"
    by (auto simp: mem_fair_def demo_store_def demo_key_def newID_def split: if_splits)
  have 3: "RevokeAPIKey memory_api ?e (KeyID demo_key) (demo_store (Some demo_key))
      = (None, demo_store (Some (demo_key\<lparr>RevokedAt := Some 9\<rparr>)))"
    by (simp add: mem_RevokeAPIKey_def demo_store_def)
  from revoked_key_rejected [OF 1(2) 1(1) [symmetric] 2 _ 3, of demo_plain "[]" "demo_draw []"] show ?thesis
    by (simp add: demo_store_def)
qed

text \<open>
  C40: a revocation can be lost. A goroutine that is inside \<open>Authenticate\<close>, past its check of the key,
  writes its copy of the key back after a concurrent \<open>RevokeAPIKey\<close> has returned nil, and the revoked
  key is accepted again from then on.
\<close>

theorem revocation_can_be_lost:
  assumes "mKeys m (hashKey pt) = Some k" and "RevokedAt k = None" and "mTenants m (KeyTenantID k) = Some t"
    and "auth_step a (AuthStart pt) m = (pc1, m1)" and "auth_step b pc1 m1 = (pc2, m2)"
    and "mem_RevokeAPIKey c [hashKey pt] (KeyID k) m2 = (err, m3)" and "auth_step d pc2 m3 = (pc3, m4)"
  shows "err = None \<and> fst (mem_Authenticate c pt m3) = Inl StoreRevoked
    \<and> (\<exists>k'. fst (mem_Authenticate x pt m4) = Inr (t, k') \<and> KeyID k' = KeyID k)"
  using assms
  by (auto simp: auth_lookup_def auth_tenant_def auth_touch_def mem_RevokeAPIKey_def mem_Authenticate_def Let_def)

theorem revocation_can_be_lost_witness:
  "\<exists>k'. fst (mem_Authenticate 11 demo_plain (demo_store (Some (demo_key\<lparr>LastUsedAt := Some 10\<rparr>)))) = Inr (demo_tenant, k')"
proof -
  let ?m = "demo_store (Some demo_key)" and ?m3 = "demo_store (Some (demo_key\<lparr>RevokedAt := Some 9\<rparr>))"
  have 1: "auth_step 8 (AuthStart demo_plain) ?m = (AuthKey demo_plain (hashKey demo_plain) demo_key, ?m)"
    by (simp add: auth_lookup_def demo_store_def demo_key_def Let_def)
  have 2: "auth_step 8 (AuthKey demo_plain (hashKey demo_plain) demo_key) ?m
      = (AuthTenant demo_plain (hashKey demo_plain) demo_key demo_tenant, ?m)"
    by (simp add: auth_tenant_def demo_store_def demo_key_def)
  have 3: "mem_RevokeAPIKey 9 [hashKey demo_plain] (KeyID demo_key) ?m = (None, ?m3)"
    by (simp add: mem_RevokeAPIKey_def demo_store_def)
  have 4: "auth_step 10 (AuthTenant demo_plain (hashKey demo_plain) demo_key demo_tenant) ?m3
      = (AuthDone demo_plain (Inr (demo_tenant, demo_key\<lparr>LastUsedAt := Some 10\<rparr>)), demo_store (Some (demo_key\<lparr>LastUsedAt := Some 10\<rparr>)))"
    by (simp add: auth_touch_def demo_store_def Let_def)
  from revocation_can_be_lost [OF _ _ _ 1 2 3 4, of demo_tenant 11] show ?thesis
    by (auto simp: demo_store_def demo_key_def)
qed

end
