(* ===== verification/Store_Postgres.thy ===== *)
theory Store_Postgres
  imports Store
begin

text \<open>
  The durable control plane (\<open>internal/store/postgres.go\<close>). The database and its driver are a
  parameter: a function that runs one of the six statements of the file and returns a row, the result
  of an \<open>Exec\<close>, or an error. What is assumed of it, in the locale \<open>postgres_db\<close>, is that it does what the
  statements say on the tables of \<open>migrations/0001_control_plane_init.sql\<close>, or fails with an error that
  leaves open whether the statement took effect.
\<close>

section \<open>Statements, rows and errors\<close>

datatype Stmt =
    InsertTenant string string
  | SelectTenant string
  | InsertKey string string string "string list option"
  | SelectKey string
  | TouchKey string
  | RevokeKey string

text \<open>\<open>sql.ErrNoRows\<close>, an error of the server with its SQLSTATE, and everything else.\<close>

datatype DbError = NoRows | Pq string string | DbFault string

primrec DbError_String :: "DbError \<Rightarrow> string" where
  "DbError_String NoRows = ''sql: no rows in result set''"
| "DbError_String (Pq code msg) = ''pq: '' @ msg"
| "DbError_String (DbFault msg) = msg"

text \<open>What \<open>Scan\<close> reads from the row of each statement, and \<open>RowsAffected\<close> of an \<open>Exec\<close>.\<close>

datatype Row = TenantRow Tenant | KeyRow APIKey | JoinRow APIKey Tenant | Affected "string + nat"

type_synonym 'db Db = "Stmt \<Rightarrow> 'db \<Rightarrow> (DbError + Row) \<times> 'db"

definition isUniqueViolation :: "DbError \<Rightarrow> bool" where
  "isUniqueViolation err = (case err of Pq code msg \<Rightarrow> code = ''23505'' | _ \<Rightarrow> False)"

definition isInvalidText :: "DbError \<Rightarrow> bool" where
  "isInvalidText err = (case err of Pq code msg \<Rightarrow> code = ''22P02'' | _ \<Rightarrow> False)"

definition scan_error :: string where
  "scan_error = ''sql: Scan error''"

section \<open>Operations\<close>

text \<open>\<open>sql.Open\<close> and \<open>PingContext\<close> are parameters; the settings of the pool do not show in the model.\<close>

definition OpenPostgresStore :: "(string \<Rightarrow> string + 'db) \<Rightarrow> ('db \<Rightarrow> string option) \<Rightarrow> string \<Rightarrow> StoreError + 'db" where
  "OpenPostgresStore sql_open ping dsn =
     (case sql_open dsn of
        Inl err \<Rightarrow> Inl (StoreQuery ''opening postgres connection'' err)
      | Inr db \<Rightarrow> (case ping db of Some err \<Rightarrow> Inl (StoreQuery ''connecting to postgres'' err) | None \<Rightarrow> Inr db))"

definition pg_CreateTenant :: "'db Db \<Rightarrow> string \<Rightarrow> string \<Rightarrow> 'db \<Rightarrow> (StoreError + Tenant) \<times> 'db" where
  "pg_CreateTenant q name slug db =
     (case q (InsertTenant name slug) db of
        (Inl err, db) \<Rightarrow>
          if isUniqueViolation err then (Inl StoreDuplicateSlug, db)
          else (Inl (StoreQuery ''inserting tenant'' (DbError_String err)), db)
      | (Inr (TenantRow t), db) \<Rightarrow> (Inr t, db)
      | (Inr _, db) \<Rightarrow> (Inl (StoreQuery ''inserting tenant'' scan_error), db))"

definition pg_GetTenant :: "'db Db \<Rightarrow> string \<Rightarrow> 'db \<Rightarrow> (StoreError + Tenant) \<times> 'db" where
  "pg_GetTenant q i db =
     (case q (SelectTenant i) db of
        (Inl err, db) \<Rightarrow>
          if err = NoRows then (Inl StoreNotFound, db)
          else if isInvalidText err then (Inl StoreNotFound, db)
          else (Inl (StoreQuery ''querying tenant'' (DbError_String err)), db)
      | (Inr (TenantRow t), db) \<Rightarrow> (Inr t, db)
      | (Inr _, db) \<Rightarrow> (Inl (StoreQuery ''querying tenant'' scan_error), db))"

definition pg_CreateAPIKey ::
  "'db Db \<Rightarrow> string + string \<Rightarrow> string \<Rightarrow> string list option \<Rightarrow> 'db \<Rightarrow> (StoreError + string \<times> APIKey) \<times> 'db" where
  "pg_CreateAPIKey q rand tenantID scopes db =
     (case pg_GetTenant q tenantID db of
        (Inl err, db) \<Rightarrow> (Inl err, db)
      | (Inr _, db) \<Rightarrow>
          (case generatePlaintextKey rand of
             Inl err \<Rightarrow> (Inl err, db)
           | Inr (plaintext, hash, pre) \<Rightarrow>
               let scopes = (if scopes = None then Some [] else scopes)
               in case q (InsertKey tenantID pre hash scopes) db of
                    (Inl err, db) \<Rightarrow> (Inl (StoreQuery ''inserting api key'' (DbError_String err)), db)
                  | (Inr (KeyRow k), db) \<Rightarrow> (Inr (plaintext, k\<lparr>LastUsedAt := None, RevokedAt := None\<rparr>), db)
                  | (Inr _, db) \<Rightarrow> (Inl (StoreQuery ''inserting api key'' scan_error), db)))"

definition pg_Authenticate :: "'db Db \<Rightarrow> string \<Rightarrow> 'db \<Rightarrow> (StoreError + Tenant \<times> APIKey) \<times> 'db" where
  "pg_Authenticate q plaintext db =
     (let hash = hashKey plaintext
      in case q (SelectKey hash) db of
           (Inl err, db) \<Rightarrow>
             if err = NoRows then (Inl StoreNotFound, db)
             else (Inl (StoreQuery ''querying api key'' (DbError_String err)), db)
         | (Inr (JoinRow k t), db) \<Rightarrow>
             if RevokedAt k \<noteq> None then (Inl StoreRevoked, db)
             else (case q (TouchKey (KeyID k)) db of (_, db) \<Rightarrow> (Inr (t, k), db))
         | (Inr _, db) \<Rightarrow> (Inl (StoreQuery ''querying api key'' scan_error), db))"

definition pg_RevokeAPIKey :: "'db Db \<Rightarrow> string \<Rightarrow> 'db \<Rightarrow> StoreError option \<times> 'db" where
  "pg_RevokeAPIKey q keyID db =
     (case q (RevokeKey keyID) db of
        (Inl err, db) \<Rightarrow>
          if isInvalidText err then (Some StoreNotFound, db)
          else (Some (StoreQuery ''revoking api key'' (DbError_String err)), db)
      | (Inr (Affected res), db) \<Rightarrow>
          (case res of
             Inl err \<Rightarrow> (Some (StoreQuery ''checking revoke result'' err), db)
           | Inr n \<Rightarrow> if n = 0 then (Some StoreNotFound, db) else (None, db))
      | (Inr _, db) \<Rightarrow> (Some (StoreQuery ''revoking api key'' scan_error), db))"

definition postgres_api :: "'db Db \<Rightarrow> (string + string, 'db) StoreAPI" where
  "postgres_api q =
     \<lparr>CreateTenant = (\<lambda>e. pg_CreateTenant q),
      GetTenant = (\<lambda>e. pg_GetTenant q),
      CreateAPIKey = (\<lambda>e. pg_CreateAPIKey q e),
      Authenticate = (\<lambda>e. pg_Authenticate q),
      RevokeAPIKey = (\<lambda>e. pg_RevokeAPIKey q)\<rparr>"

section \<open>The tables\<close>

text \<open>
  A reference for the schema: the columns the statements touch, the primary keys, the unique columns,
  the foreign key and the NOT NULL of the scopes. A UUID is read as the server reads it: with or without
  braces and hyphens, in either case, and printed in the canonical form.
\<close>

record Tables =
  rTenants :: "Tenant list"
  rKeys :: "APIKey list"

fun uuid_digits :: "nat \<Rightarrow> string \<Rightarrow> string option" where
  "uuid_digits 0 s = (if s = [] then Some [] else None)"
| "uuid_digits (Suc n) (a # b # s) =
     (case (hex_value a, hex_value b) of
        (Some x, Some y) \<Rightarrow>
          (let s = (if even n \<and> 0 < n \<and> s \<noteq> [] \<and> hd s = CHR ''-'' then tl s else s)
           in map_option (\<lambda>r. hex_digit x # hex_digit y # r) (uuid_digits n s))
      | _ \<Rightarrow> None)"
| "uuid_digits (Suc n) s = None"

definition hyphenate :: "string \<Rightarrow> string" where
  "hyphenate d = take 8 d @ ''-'' @ take 4 (drop 8 d) @ ''-'' @ take 4 (drop 12 d) @ ''-''
     @ take 4 (drop 16 d) @ ''-'' @ drop 20 d"

definition uuid_canon :: "string \<Rightarrow> string option" where
  "uuid_canon s =
     (let s = (if s \<noteq> [] \<and> hd s = CHR 0x7B \<and> last s = CHR 0x7D then butlast (tl s) else s)
      in map_option hyphenate (uuid_digits 16 s))"

definition norm_uuid :: "string \<Rightarrow> string" where
  "norm_uuid i = (case uuid_canon i of None \<Rightarrow> i | Some c \<Rightarrow> c)"

definition invalid_uuid :: DbError where
  "invalid_uuid = Pq ''22P02'' ''invalid input syntax for type uuid''"

definition unique_violation :: DbError where
  "unique_violation = Pq ''23505'' ''duplicate key value violates unique constraint''"

definition on_uuid :: "string \<Rightarrow> (string \<Rightarrow> (DbError + Row) \<times> Tables) \<Rightarrow> Tables \<Rightarrow> (DbError + Row) \<times> Tables" where
  "on_uuid i f db = (case uuid_canon i of None \<Rightarrow> (Inl invalid_uuid, db) | Some c \<Rightarrow> f c)"

primrec sql :: "string \<Rightarrow> time \<Rightarrow> Stmt \<Rightarrow> Tables \<Rightarrow> (DbError + Row) \<times> Tables" where
  "sql uuid now (InsertTenant name slug) db =
     (if \<exists>t \<in> set (rTenants db). Slug t = slug \<or> TntID t = uuid then (Inl unique_violation, db)
      else let t = \<lparr>TntID = uuid, TntName = name, Slug = slug, TntStatus = ''active'', TntCreatedAt = now\<rparr>
           in (Inr (TenantRow t), db\<lparr>rTenants := rTenants db @ [t]\<rparr>))"
| "sql uuid now (SelectTenant i) db =
     on_uuid i (\<lambda>c. (case find (\<lambda>t. TntID t = c) (rTenants db) of None \<Rightarrow> Inl NoRows | Some t \<Rightarrow> Inr (TenantRow t), db)) db"
| "sql uuid now (InsertKey t pre hash scopes) db =
     on_uuid t (\<lambda>c.
       if scopes = None then (Inl (Pq ''23502'' ''null value violates not-null constraint''), db)
       else if \<exists>k \<in> set (rKeys db). KeyHash k = hash \<or> KeyID k = uuid then (Inl unique_violation, db)
       else if \<forall>t \<in> set (rTenants db). TntID t \<noteq> c then (Inl (Pq ''23503'' ''insert violates foreign key constraint''), db)
       else let k = \<lparr>KeyID = uuid, KeyTenantID = c, KeyPrefix = pre, KeyHash = hash, Scopes = scopes,
                     KeyCreatedAt = now, LastUsedAt = None, RevokedAt = None\<rparr>
            in (Inr (KeyRow k), db\<lparr>rKeys := rKeys db @ [k]\<rparr>)) db"
| "sql uuid now (SelectKey hash) db =
     (case find (\<lambda>k. KeyHash k = hash \<and> (\<exists>t \<in> set (rTenants db). TntID t = KeyTenantID k)) (rKeys db) of
        None \<Rightarrow> Inl NoRows
      | Some k \<Rightarrow> (case find (\<lambda>t. TntID t = KeyTenantID k) (rTenants db) of None \<Rightarrow> Inl NoRows | Some t \<Rightarrow> Inr (JoinRow k t)),
      db)"
| "sql uuid now (TouchKey i) db =
     on_uuid i (\<lambda>c. (Inr (Affected (Inr (length (filter (\<lambda>k. KeyID k = c) (rKeys db))))),
       db\<lparr>rKeys := map (\<lambda>k. if KeyID k = c then k\<lparr>LastUsedAt := Some now\<rparr> else k) (rKeys db)\<rparr>)) db"
| "sql uuid now (RevokeKey i) db =
     on_uuid i (\<lambda>c. (Inr (Affected (Inr (length (filter (\<lambda>k. KeyID k = c \<and> RevokedAt k = None) (rKeys db))))),
       db\<lparr>rKeys := map (\<lambda>k. if KeyID k = c \<and> RevokedAt k = None then k\<lparr>RevokedAt := Some now\<rparr> else k) (rKeys db)\<rparr>)) db"

section \<open>The database as a parameter\<close>

text \<open>
  A database whose content is \<open>view\<close>: each statement runs on the tables with a canonical UUID and a clock
  reading of the server's choice, or fails in a way that leaves open whether it ran. A failure is any
  error but the three that the operations interpret. Of an error of the server only the SQLSTATE code is
  fixed: the text may carry constraint names and values.
\<close>

fun same_answer :: "DbError + Row \<Rightarrow> DbError + Row \<Rightarrow> bool" where
  "same_answer (Inl (Pq code msg)) (Inl (Pq code' msg')) \<longleftrightarrow> code = code'"
| "same_answer r r' \<longleftrightarrow> r = r'"

lemma same_answer_refl [simp]: "same_answer r r"
  by (cases "(r, r)" rule: same_answer.cases) auto

lemma same_answer_cases:
  "same_answer r r' \<Longrightarrow> (\<exists>x. r = Inr x \<and> r' = Inr x) \<or> (\<exists>err err'. r = Inl err \<and> r' = Inl err')"
  by (cases "(r, r')" rule: same_answer.cases) auto

lemma same_answer_row [simp]: "same_answer r (Inr x) \<longleftrightarrow> r = Inr x" "same_answer (Inr x) r \<longleftrightarrow> r = Inr x"
  "same_answer r (Inl NoRows) \<longleftrightarrow> r = Inl NoRows" "same_answer (Inl NoRows) r \<longleftrightarrow> r = Inl NoRows"
  by (induction r r rule: same_answer.induct) auto

definition failure :: "DbError \<Rightarrow> bool" where
  "failure err \<longleftrightarrow> err \<noteq> NoRows \<and> \<not> isUniqueViolation err \<and> \<not> isInvalidText err"

definition runs_sql :: "'db Db \<Rightarrow> ('db \<Rightarrow> Tables) \<Rightarrow> bool" where
  "runs_sql q view \<longleftrightarrow> (\<forall>st db r db'. q st db = (r, db') \<longrightarrow>
     (\<exists>uuid now. uuid_canon uuid = Some uuid
        \<and> (same_answer r (fst (sql uuid now st (view db))) \<and> view db' = snd (sql uuid now st (view db))
           \<or> (\<exists>err. r = Inl err \<and> failure err) \<and> view db' \<in> {view db, snd (sql uuid now st (view db))})))"

section \<open>What the statements do to the key directory\<close>

lemma find_map_same: "(\<And>x. P (g x) \<longleftrightarrow> P x) \<Longrightarrow> find P (map g xs) = map_option g (find P xs)"
  by (induction xs) auto

lemma find_append: "find P (xs @ ys) = (case find P xs of None \<Rightarrow> find P ys | Some x \<Rightarrow> Some x)"
  by (induction xs) auto

lemma find_distinct: "distinct (map f xs) \<Longrightarrow> x \<in> set xs \<Longrightarrow> find (\<lambda>y. f y = f x) xs = Some x"
  by (induction xs) (auto simp: image_iff)

definition tbl_dir :: "Tables \<Rightarrow> Directory" where
  "tbl_dir T = (\<lambda>h. map_option entry_of (find (\<lambda>k. KeyHash k = h) (rKeys T)))"

text \<open>The constraints of the schema, and that key identifiers are canonical.\<close>

definition tbl_ok :: "Tables \<Rightarrow> bool" where
  "tbl_ok T \<longleftrightarrow> distinct (map TntID (rTenants T)) \<and> distinct (map Slug (rTenants T))
     \<and> distinct (map KeyID (rKeys T)) \<and> distinct (map KeyHash (rKeys T))
     \<and> (\<forall>k \<in> set (rKeys T). (\<exists>t \<in> set (rTenants T). TntID t = KeyTenantID k) \<and> uuid_canon (KeyID k) = Some (KeyID k))"

lemma map_keys_same:
  assumes "\<And>k. KeyID (g k) = KeyID k \<and> KeyHash (g k) = KeyHash k \<and> KeyTenantID (g k) = KeyTenantID k"
  shows "tbl_ok (T\<lparr>rKeys := map g (rKeys T)\<rparr>) \<longleftrightarrow> tbl_ok T"
proof -
  have "KeyID \<circ> g = KeyID" "KeyHash \<circ> g = KeyHash" using assms by auto
  then show ?thesis using assms by (simp add: tbl_ok_def)
qed

lemma sql_ok: "tbl_ok T \<Longrightarrow> uuid_canon uuid = Some uuid \<Longrightarrow> tbl_ok (snd (sql uuid now st T))"
proof (cases st)
  case (InsertKey t pre hash scopes)
  assume "tbl_ok T" "uuid_canon uuid = Some uuid"
  then show ?thesis unfolding InsertKey
    by (auto simp: tbl_ok_def on_uuid_def Let_def split: option.splits if_splits)
next
  case (TouchKey i)
  assume "tbl_ok T"
  then show ?thesis unfolding TouchKey by (auto simp: on_uuid_def map_keys_same split: option.splits)
next
  case (RevokeKey i)
  assume "tbl_ok T"
  then show ?thesis unfolding RevokeKey by (auto simp: on_uuid_def map_keys_same split: option.splits)
qed (auto simp: tbl_ok_def on_uuid_def Let_def split: option.splits)

lemma dir_map:
  assumes "\<And>k. KeyHash (g k) = KeyHash k"
  shows "tbl_dir (T\<lparr>rKeys := map g (rKeys T)\<rparr>) = (\<lambda>h. map_option (\<lambda>k. entry_of (g k)) (find (\<lambda>k. KeyHash k = h) (rKeys T)))"
  using assms by (auto simp: tbl_dir_def find_map_same option.map_comp o_def)

lemma tbl_dir_cong: "rKeys T' = rKeys T \<Longrightarrow> tbl_dir T' = tbl_dir T"
  by (simp add: tbl_dir_def)

lemma dir_touch: "tbl_dir (snd (sql uuid now (TouchKey i) T)) = tbl_dir T"
proof (cases "uuid_canon i")
  case (Some c)
  have "entry_of (if KeyID k = c then k\<lparr>LastUsedAt := Some now\<rparr> else k) = entry_of k" for k
    by (simp add: entry_of_def)
  then show ?thesis by (simp add: on_uuid_def Some dir_map) (simp add: tbl_dir_def)
qed (simp add: on_uuid_def)

lemma dir_revoke: "tbl_dir (snd (sql uuid now (RevokeKey i) T)) = (case uuid_canon i of None \<Rightarrow> tbl_dir T | Some c \<Rightarrow> retire c (tbl_dir T))"
proof (cases "uuid_canon i")
  case (Some c)
  have "entry_of (if KeyID k = c \<and> RevokedAt k = None then k\<lparr>RevokedAt := Some now\<rparr> else k)
      = (if eID (entry_of k) = c then (entry_of k)\<lparr>eRevoked := True\<rparr> else entry_of k)" for k
    by (simp add: entry_of_def)
  then show ?thesis by (simp add: on_uuid_def Some dir_map) (simp add: tbl_dir_def retire_def option.map_comp o_def)
qed (simp add: on_uuid_def)

lemma dir_other:
  "tbl_dir (snd (sql uuid now (InsertTenant n sl) T)) = tbl_dir T"
  "tbl_dir (snd (sql uuid now (SelectTenant i) T)) = tbl_dir T"
  "tbl_dir (snd (sql uuid now (SelectKey h) T)) = tbl_dir T"
  by (auto simp: on_uuid_def Let_def split: option.splits intro: tbl_dir_cong)

lemma dir_insert:
  assumes "sql uuid now (InsertKey t pre hash sc) T = (r, T')"
  obtains (refused) err where "r = Inl err" "T' = T"
  | (inserted) c k where "r = Inr (KeyRow k)" "uuid_canon t = Some c" "tbl_dir T hash = None"
      "tbl_dir T' = (tbl_dir T)(hash \<mapsto> entry_of k)" "KeyID k = uuid" "KeyTenantID k = c" "Scopes k = sc"
      "RevokedAt k = None" "LastUsedAt k = None"
proof (cases "\<exists>err. r = Inl err")
  case True
  then show thesis using assms
    by (intro refused [of "projl r"]) (auto simp: on_uuid_def Let_def split: option.splits if_splits)
next
  case False
  then obtain c where c: "uuid_canon t = Some c" using assms by (auto simp: on_uuid_def split: option.splits)
  define k where "k = \<lparr>KeyID = uuid, KeyTenantID = c, KeyPrefix = pre, KeyHash = hash, Scopes = sc,
                     KeyCreatedAt = now, LastUsedAt = None, RevokedAt = None\<rparr>"
  have r: "r = Inr (KeyRow k)" "T' = T\<lparr>rKeys := rKeys T @ [k]\<rparr>" "\<forall>k \<in> set (rKeys T). KeyHash k \<noteq> hash"
    using False assms c by (auto simp: on_uuid_def Let_def k_def split: if_splits)
  have "find (\<lambda>k. KeyHash k = hash) (rKeys T) = None" using r(3) by (simp add: find_None_iff)
  then have "tbl_dir T hash = None" "tbl_dir T' = (tbl_dir T)(hash \<mapsto> entry_of k)"
    by (auto simp: tbl_dir_def r(2) find_append fun_eq_iff k_def split: option.splits)
  then show thesis using r(1) c by (intro inserted [of k c]) (auto simp: k_def)
qed

lemma select_key:
  assumes T: "tbl_ok T" and s: "sql uuid now (SelectKey hash) T = (r, T')"
  shows "(case r of
      Inr row \<Rightarrow> (\<exists>k t. row = JoinRow k t \<and> tbl_dir T hash = Some (entry_of k) \<and> TntID t = KeyTenantID k \<and> uuid_canon (KeyID k) = Some (KeyID k))
    | Inl err \<Rightarrow> err = NoRows \<and> tbl_dir T hash = None)"
proof (cases "find (\<lambda>k. KeyHash k = hash) (rKeys T)")
  case None
  then have "find (\<lambda>k. KeyHash k = hash \<and> (\<exists>t \<in> set (rTenants T). TntID t = KeyTenantID k)) (rKeys T) = None"
    by (auto simp: find_None_iff)
  with None s show ?thesis by (auto simp: tbl_dir_def)
next
  case (Some k)
  then have k: "k \<in> set (rKeys T)" "KeyHash k = hash" by (auto simp: find_Some_iff)
  then obtain t where t: "t \<in> set (rTenants T)" "TntID t = KeyTenantID k" and c: "uuid_canon (KeyID k) = Some (KeyID k)"
    using T by (auto simp: tbl_ok_def)
  have 1: "find (\<lambda>t. TntID t = KeyTenantID k) (rTenants T) = Some t"
    using find_distinct [of TntID "rTenants T" t] T t by (simp add: tbl_ok_def)
  have "find (\<lambda>x. KeyHash x = hash \<and> (\<exists>t \<in> set (rTenants T). TntID t = KeyTenantID x)) (rKeys T)
      = find (\<lambda>x. KeyHash x = hash) (rKeys T)"
    using T by (intro find_cong) (auto simp: tbl_ok_def)
  with Some 1 s t c show ?thesis by (auto simp: tbl_dir_def)
qed

locale postgres_db =
  fixes q :: "'db Db" and view :: "'db \<Rightarrow> Tables"
  assumes sql_law: "runs_sql q view"
begin

lemma q_cases:
  assumes "q st db = (r, db')"
  obtains (ran) uuid now r' where "uuid_canon uuid = Some uuid" "sql uuid now st (view db) = (r', view db')" "same_answer r r'"
  | (failed) uuid now err where "uuid_canon uuid = Some uuid" "r = Inl err" "failure err"
      "view db' = view db \<or> view db' = snd (sql uuid now st (view db))"
  using sql_law assms unfolding runs_sql_def by (metis insertE singletonD prod.collapse)

lemma q_ok: "q st db = (r, db') \<Longrightarrow> tbl_ok (view db) \<Longrightarrow> tbl_ok (view db')"
  by (erule q_cases) (metis sql_ok snd_conv)+

lemma q_keeps:
  assumes "q st db = (r, db')" and "\<And>uuid now T. tbl_dir (snd (sql uuid now st T)) = tbl_dir T"
  shows "tbl_dir (view db') = tbl_dir (view db)"
  using assms(1) by (rule q_cases) (metis assms(2) snd_conv)+

lemma get_keeps:
  assumes "pg_GetTenant q i db = (r, db')" and "tbl_ok (view db)"
  shows "tbl_ok (view db') \<and> tbl_dir (view db') = tbl_dir (view db)"
proof -
  obtain x db1 where x: "q (SelectTenant i) db = (x, db1)" by fastforce
  then have "db' = db1" using assms(1) by (auto simp: pg_GetTenant_def split: sum.splits Row.splits if_splits)
  then show ?thesis using q_ok [OF x assms(2)] q_keeps [OF x dir_other(2)] by simp
qed

lemma enrol_keeps:
  assumes "pg_CreateTenant q n sl db = (r, db')" and "tbl_ok (view db)"
  shows "tbl_ok (view db') \<and> tbl_dir (view db') = tbl_dir (view db)"
proof -
  obtain x db1 where x: "q (InsertTenant n sl) db = (x, db1)" by fastforce
  then have "db' = db1" using assms(1) by (auto simp: pg_CreateTenant_def split: sum.splits Row.splits if_splits)
  then show ?thesis using q_ok [OF x assms(2)] q_keeps [OF x dir_other(1)] by simp
qed

lemma auth_answers:
  assumes a: "pg_Authenticate q pt db = (r, db')" and ok: "tbl_ok (view db)"
  shows "tbl_ok (view db') \<and> tbl_dir (view db') = tbl_dir (view db) \<and> answers (tbl_dir (view db) (hashKey pt)) r"
proof -
  obtain x db1 where x: "q (SelectKey (hashKey pt)) db = (x, db1)" by fastforce
  note k1 = q_ok [OF x ok] q_keeps [OF x dir_other(3)]
  show ?thesis
  proof (cases "\<exists>k t. x = Inr (JoinRow k t) \<and> RevokedAt k = None")
    case True
    then obtain k t where kt: "x = Inr (JoinRow k t)" "RevokedAt k = None" by blast
    obtain y db2 where y: "q (TouchKey (KeyID k)) db1 = (y, db2)" by fastforce
    have r: "r = Inr (t, k)" "db' = db2" using a x kt y by (auto simp: pg_Authenticate_def Let_def)
    have "tbl_dir (view db) (hashKey pt) = Some (entry_of k) \<and> TntID t = KeyTenantID k"
      using x
    proof (cases rule: q_cases)
      case (ran uuid now r')
      have "r' = Inr (JoinRow k t)" using ran(3) kt(1) by auto
      then show ?thesis using select_key [OF ok ran(2)] by simp
    qed (simp add: kt)
    then show ?thesis using q_ok [OF y k1(1)] q_keeps [OF y dir_touch] k1(2) kt
      by (simp add: r answers_def entry_of_def)
  next
    case False
    then have db: "db' = db1" using a x by (auto simp: pg_Authenticate_def Let_def split: sum.splits Row.splits if_splits)
    from x have "answers (tbl_dir (view db) (hashKey pt)) r"
    proof (cases rule: q_cases)
      case (ran uuid now)
      then show ?thesis using select_key [OF ok ran(2)] a x False
        by (auto simp: pg_Authenticate_def Let_def answers_def entry_of_def split: sum.splits)
    next
      case (failed uuid now err)
      then show ?thesis using a x by (auto simp: pg_Authenticate_def Let_def answers_def failure_def)
    qed
    then show ?thesis using k1 by (simp add: db)
  qed
qed

lemma issue_effect:
  assumes c: "pg_CreateAPIKey q rand t sc db = (r, db')" and ok: "tbl_ok (view db)"
  shows "tbl_ok (view db') \<and> (case r of
      Inl err \<Rightarrow> tbl_dir (view db) \<subseteq>\<^sub>m tbl_dir (view db')
    | Inr (pt, k) \<Rightarrow> tbl_dir (view db) (hashKey pt) = None
        \<and> tbl_dir (view db') = (tbl_dir (view db))(hashKey pt \<mapsto> \<lparr>eID = KeyID k, eTenant = norm_uuid t, eScopes = slice sc, eRevoked = False\<rparr>))"
proof -
  obtain x db1 where x: "pg_GetTenant q t db = (x, db1)" by fastforce
  note k1 = get_keeps [OF x ok]
  show ?thesis
  proof (cases "\<exists>tn buf. x = Inr tn \<and> rand = Inr buf")
    case False
    then have "db' = db1" "\<exists>err. r = Inl err"
      using c x by (auto simp: pg_CreateAPIKey_def generatePlaintextKey_def split: sum.splits)
    then show ?thesis using k1 by auto
  next
    case True
    then obtain tn buf where tn: "x = Inr tn" "rand = Inr buf" by blast
    define pt where "pt = keyPrefix @ EncodeToString buf"
    define sc' where "sc' = (if sc = None then Some [] else sc)"
    have g: "generatePlaintextKey rand = Inr (pt, hashKey pt, take (length keyPrefix + 8) pt)"
      by (simp add: generatePlaintextKey_def tn pt_def Let_def hashKey_def)
    obtain y db2 where y: "q (InsertKey t (take (length keyPrefix + 8) pt) (hashKey pt) sc') db1 = (y, db2)" by fastforce
    have c': "(r, db') = (case y of Inr (KeyRow k) \<Rightarrow> (Inr (pt, k\<lparr>LastUsedAt := None, RevokedAt := None\<rparr>), db2)
        | Inr _ \<Rightarrow> (Inl (StoreQuery ''inserting api key'' scan_error), db2)
        | Inl err \<Rightarrow> (Inl (StoreQuery ''inserting api key'' (DbError_String err)), db2))"
      using c x tn g y unfolding pg_CreateAPIKey_def sc'_def by (simp split: sum.splits Row.splits)
    then have db: "db' = db2" by (auto split: sum.splits Row.splits)
    have sc: "slice sc' = slice sc" by (simp add: sc'_def slice_def split: option.splits)
    have ok2: "tbl_ok (view db')" using q_ok [OF y] k1 by (simp add: db)
    from y show ?thesis
    proof (cases rule: q_cases)
      case (ran uuid now)
      from ran(2) show ?thesis
      proof (cases rule: dir_insert)
        case (refused err)
        then obtain err' where "y = Inl err'" using same_answer_cases [OF ran(3)] by auto
        then show ?thesis using refused c' ok2 k1 db by simp
      next
        case (inserted cc k)
        then show ?thesis using ran(3) c' ok2 k1 db sc by (simp add: entry_of_def norm_uuid_def)
      qed
    next
      case (failed uuid now err)
      obtain z T' where z: "sql uuid now (InsertKey t (take (length keyPrefix + 8) pt) (hashKey pt) sc') (view db1) = (z, T')"
        by fastforce
      then have "tbl_dir (view db1) \<subseteq>\<^sub>m tbl_dir T'" by (cases rule: dir_insert) (auto simp: map_le_def)
      then show ?thesis using failed z c' ok2 k1 db by auto
    qed
  qed
qed

lemma revoke_effect:
  assumes c: "pg_RevokeAPIKey q i db = (x, db')" and ok: "tbl_ok (view db)"
  shows "tbl_ok (view db') \<and> (tbl_dir (view db') = retire (norm_uuid i) (tbl_dir (view db)) \<or> x \<noteq> None \<and> tbl_dir (view db') = tbl_dir (view db))"
proof -
  obtain y db1 where y: "q (RevokeKey i) db = (y, db1)" by fastforce
  have err: "x \<noteq> None" if "\<exists>err. y = Inl err"
    using that c y by (auto simp: pg_RevokeAPIKey_def split: sum.splits Row.splits if_splits)
  have db: "db' = db1" using c y by (auto simp: pg_RevokeAPIKey_def split: sum.splits Row.splits if_splits)
  have d: "tbl_dir (snd (sql uuid now (RevokeKey i) T)) = retire (norm_uuid i) (tbl_dir T) \<or> uuid_canon i = None
      \<and> sql uuid now (RevokeKey i) T = (Inl invalid_uuid, T)" for uuid now T
    using dir_revoke [of uuid now i T] by (cases "uuid_canon i") (simp_all add: norm_uuid_def on_uuid_def)
  from y show ?thesis
  proof (cases rule: q_cases)
    case (ran uuid now)
    then show ?thesis using d [of uuid now "view db"] q_ok [OF y ok] err same_answer_cases [OF ran(3)] by (auto simp: db)
  next
    case (failed uuid now e)
    then show ?thesis using d [of uuid now "view db"] q_ok [OF y ok] err by (auto simp: db)
  qed
qed

end

lemma postgres_api_sel [simp]:
  "CreateTenant (postgres_api q) e = pg_CreateTenant q" "GetTenant (postgres_api q) e = pg_GetTenant q"
  "CreateAPIKey (postgres_api q) e = pg_CreateAPIKey q e" "Authenticate (postgres_api q) e = pg_Authenticate q"
  "RevokeAPIKey (postgres_api q) e = pg_RevokeAPIKey q"
  by (simp_all add: postgres_api_def)

text \<open>The Postgres store keeps the contract of the interface over every such database.\<close>

sublocale postgres_db \<subseteq> pg: key_store "postgres_api q" "\<lambda>db. tbl_ok (view db)" "\<lambda>db. tbl_dir (view db)" "\<lambda>e db. True" norm_uuid
proof (unfold_locales, goal_cases)
  case (3 s e t sc pt k s')
  then show ?case using issue_effect [of e t sc s "Inr (pt, k)" s'] by simp
next
  case (4 s e t sc err s')
  then show ?case using issue_effect [of e t sc s "Inl err" s'] by simp
qed (auto dest: enrol_keeps get_keeps auth_answers revoke_effect)

lemma fair_run_any: "fair_run (\<lambda>e s. True) api ops s"
  by (induction ops arbitrary: s) auto

context postgres_db
begin

lemma hist_ok: "tbl_ok (view db) \<Longrightarrow> tbl_ok (view (store_run (postgres_api q) ops db))"
  by (rule pg.run_ok) (simp_all only: fair_run_any)

lemma keys_work:
  assumes "tbl_ok (view db)" "CreateAPIKey (postgres_api q) e t sc db = (Inr (pt, k), db')"
    and "\<And>e' i. (e', OpRevokeAPIKey i) \<in> set ops \<Longrightarrow> norm_uuid i \<noteq> KeyID k"
    and "Authenticate (postgres_api q) e2 pt (store_run (postgres_api q) ops db') = (r, db2)"
  shows "answers (Some \<lparr>eID = KeyID k, eTenant = norm_uuid t, eScopes = slice sc, eRevoked = False\<rparr>) r"
  by (rule pg.issued_key_works [OF assms(1) TrueI assms(2) fair_run_any assms(3,4)])

lemma keys_dead:
  assumes "tbl_ok (view db)" "RevokeAPIKey (postgres_api q) e i db = (None, db')"
    and "tbl_dir (view db) (hashKey pt) = Some en" "eID en = norm_uuid i"
    and "Authenticate (postgres_api q) e2 pt (store_run (postgres_api q) ops db') = (r, db2)"
  shows "answers (Some (en\<lparr>eRevoked := True\<rparr>)) r"
  by (rule pg.revoked_key_dead [OF assms(1) TrueI assms(2-4) fair_run_any assms(5)])

end

text \<open>The rows a revocation would change, and that it leaves none.\<close>

definition live :: "string \<Rightarrow> Tables \<Rightarrow> APIKey list" where
  "live i T = (case uuid_canon i of None \<Rightarrow> [] | Some c \<Rightarrow> filter (\<lambda>k. KeyID k = c \<and> RevokedAt k = None) (rKeys T))"

lemma revoke_leaves_none:
  assumes "sql uuid now (RevokeKey i) T = (Inr row, T')"
  shows "live i T' = []"
proof (cases "uuid_canon i")
  case (Some c)
  from arg_cong [OF assms, of "\<lambda>x. rKeys (snd x)"]
  have r: "rKeys T' = map (\<lambda>k. if KeyID k = c \<and> RevokedAt k = None then k\<lparr>RevokedAt := Some now\<rparr> else k) (rKeys T)"
    by (simp add: on_uuid_def Some)
  show ?thesis by (simp add: live_def Some r filter_map o_def)
qed (simp add: live_def)

lemma revoke_none:
  assumes "live i T = []" and "sql uuid now (RevokeKey i) T = (r, T')"
  shows "r = Inr (Affected (Inr 0)) \<or> (\<exists>err. r = Inl err)"
  using assms(1) arg_cong [OF assms(2), of fst]
  by (cases "uuid_canon i") (auto simp add: on_uuid_def live_def)

section \<open>A database with faults\<close>

text \<open>
  The tables run by a server that follows a plan: for each statement the UUID and the time it uses,
  and whether the statement runs, is lost before it runs, or runs and its reply is lost.
\<close>

datatype Fault = Runs | LostRequest | LostReply

record RefDb =
  refTables :: Tables
  refPlan :: "(string \<times> time \<times> Fault) list"

definition fixed_uuid :: string where
  "fixed_uuid = ''00000000-0000-4000-8000-000000000000''"

lemma fixed_canon: "uuid_canon fixed_uuid = Some fixed_uuid"
  by code_simp

definition ref_q :: "RefDb Db" where
  "ref_q st db =
     (let (u, now, fault) = (case refPlan db of [] \<Rightarrow> (fixed_uuid, 0, Runs) | p # ps \<Rightarrow> p);
          uuid = (if uuid_canon u = Some u then u else fixed_uuid);
          (r, T) = sql uuid now st (refTables db);
          db = db\<lparr>refPlan := drop 1 (refPlan db)\<rparr>
      in case fault of
           Runs \<Rightarrow> (r, db\<lparr>refTables := T\<rparr>)
         | LostRequest \<Rightarrow> (Inl (DbFault ''connection refused''), db)
         | LostReply \<Rightarrow> (Inl (DbFault ''connection reset''), db\<lparr>refTables := T\<rparr>))"

lemma ref_runs_sql: "runs_sql ref_q refTables"
  unfolding runs_sql_def
proof (intro allI impI)
  fix st db r db'
  assume q: "ref_q st db = (r, db')"
  obtain u now fault where p: "(case refPlan db of [] \<Rightarrow> (fixed_uuid, 0, Runs) | p # ps \<Rightarrow> p) = (u, now, fault)"
    by (metis prod_cases3)
  define uuid where "uuid = (if uuid_canon u = Some u then u else fixed_uuid)"
  have "uuid_canon uuid = Some uuid" by (simp add: uuid_def fixed_canon)
  moreover obtain x T where "sql uuid now st (refTables db) = (x, T)" by fastforce
  moreover from this q p have "case fault of Runs \<Rightarrow> r = x \<and> refTables db' = T
      | LostRequest \<Rightarrow> r = Inl (DbFault ''connection refused'') \<and> refTables db' = refTables db
      | LostReply \<Rightarrow> r = Inl (DbFault ''connection reset'') \<and> refTables db' = T"
    by (auto simp: ref_q_def Let_def uuid_def [symmetric] split: Fault.splits)
  moreover have "failure (DbFault m)" for m by (simp add: failure_def isUniqueViolation_def isInvalidText_def)
  ultimately show "\<exists>uuid now. uuid_canon uuid = Some uuid
        \<and> (same_answer r (fst (sql uuid now st (refTables db))) \<and> refTables db' = snd (sql uuid now st (refTables db))
           \<or> (\<exists>err. r = Inl err \<and> failure err) \<and> refTables db' \<in> {refTables db, snd (sql uuid now st (refTables db))})"
    by (intro exI [of _ uuid] exI [of _ now]) (cases fault; auto)
qed

interpretation ref: postgres_db ref_q refTables
  by unfold_locales (rule ref_runs_sql)

definition empty_tables :: Tables where
  "empty_tables = \<lparr>rTenants = [], rKeys = []\<rparr>"

lemma tbl_ok_empty: "tbl_ok empty_tables"
  by (simp add: tbl_ok_def empty_tables_def)

section \<open>Properties\<close>

text \<open>
  C20: the Postgres store keeps the promise of the interface over every database that runs the
  statements, with any faults: a key that \<open>CreateAPIKey\<close> returned is never answered \<open>ErrNotFound\<close> or
  \<open>ErrRevoked\<close> before a call revokes it; \<open>Authenticate\<close> reports its tenant and scopes or a failure of
  the database.
\<close>

theorem pg_issued_key_works:
  assumes "runs_sql q view" and "view db0 = empty_tables" and "db = store_run (postgres_api q) hist db0"
    and "CreateAPIKey (postgres_api q) rand t sc db = (Inr (pt, k), db')"
    and "\<And>e i. (e, OpRevokeAPIKey i) \<in> set ops \<Longrightarrow> norm_uuid i \<noteq> KeyID k"
    and "fst (Authenticate (postgres_api q) e2 pt (store_run (postgres_api q) ops db')) = r"
  shows "r \<noteq> Inl StoreNotFound \<and> r \<noteq> Inl StoreRevoked
    \<and> (\<forall>tn k'. r = Inr (tn, k') \<longrightarrow> TntID tn = norm_uuid t \<and> KeyID k' = KeyID k \<and> slice (Scopes k') = slice sc)"
proof -
  have loc: "postgres_db q view" using assms(1) by (rule postgres_db.intro)
  have "tbl_ok (view db)"
    using postgres_db.hist_ok [OF loc, of db0 hist] assms(2) by (simp add: assms(3) tbl_ok_empty)
  obtain db2 where r: "Authenticate (postgres_api q) e2 pt (store_run (postgres_api q) ops db') = (r, db2)"
    using assms(6) by (metis prod.collapse)
  from postgres_db.keys_work [OF loc \<open>tbl_ok (view db)\<close> assms(4,5) r]
  show ?thesis by (auto simp: answers_def)
qed

definition demo_uuid :: "char \<Rightarrow> string" where
  "demo_uuid c = hyphenate (replicate 32 c)"

lemma demo_uuid_canon: "uuid_canon (demo_uuid (CHR ''a'')) = Some (demo_uuid (CHR ''a''))" "uuid_canon (demo_uuid (CHR ''b'')) = Some (demo_uuid (CHR ''b''))"
  by code_simp+

definition demo_tenant_row :: Tenant where
  "demo_tenant_row = \<lparr>TntID = demo_uuid (CHR ''a''), TntName = ''Demo'', Slug = ''demo'', TntStatus = ''active'', TntCreatedAt = 5\<rparr>"

definition demo_key_row :: APIKey where
  "demo_key_row = \<lparr>KeyID = demo_uuid (CHR ''b''), KeyTenantID = demo_uuid (CHR ''a''), KeyPrefix = take 16 demo_plain,
     KeyHash = hashKey demo_plain, Scopes = Some [], KeyCreatedAt = 7, LastUsedAt = None, RevokedAt = None\<rparr>"

definition demo_db :: "Tenant list \<Rightarrow> APIKey list \<Rightarrow> (string \<times> time \<times> Fault) list \<Rightarrow> RefDb" where
  "demo_db ts ks plan = \<lparr>refTables = \<lparr>rTenants = ts, rKeys = ks\<rparr>, refPlan = plan\<rparr>"

lemma demo_pg_enrolled:
  "pg_CreateTenant ref_q ''Demo'' ''demo'' (demo_db [] [] ((demo_uuid (CHR ''a''), 5, Runs) # plan)) = (Inr demo_tenant_row, demo_db [demo_tenant_row] [] plan)"
  by (simp add: pg_CreateTenant_def ref_q_def demo_db_def demo_uuid_canon Let_def demo_tenant_row_def)

lemma demo_pg_issued:
  "pg_CreateAPIKey ref_q (Inr (replicate 32 (CHR ''b''))) (demo_uuid (CHR ''a'')) None
     (demo_db [demo_tenant_row] [] ((demo_uuid (CHR ''b''), 7, Runs) # (demo_uuid (CHR ''b''), 7, Runs) # plan))
   = (Inr (demo_plain, demo_key_row), demo_db [demo_tenant_row] [demo_key_row] plan)"
proof -
  have g: "generatePlaintextKey (Inr (replicate 32 (CHR ''b''))) = Inr (demo_plain, hashKey demo_plain, take 16 demo_plain)"
    by (simp add: generatePlaintextKey_def demo_plain_def Let_def hashKey_def keyPrefix_def del: EncodeToString_inject)
  show ?thesis unfolding pg_CreateAPIKey_def g
    by (simp add: pg_GetTenant_def ref_q_def demo_db_def demo_uuid_canon Let_def demo_tenant_row_def on_uuid_def demo_key_row_def)
qed

theorem pg_issued_key_works_witness:
  "fst (Authenticate (postgres_api ref_q) (Inl []) demo_plain (demo_db [demo_tenant_row] [demo_key_row] [])) \<noteq> Inl StoreNotFound"
proof -
  let ?plan = "[(demo_uuid (CHR ''a''), 5, Runs), (demo_uuid (CHR ''b''), 7, Runs), (demo_uuid (CHR ''b''), 7, Runs)]"
  have 1: "refTables (demo_db [] [] ?plan) = empty_tables" by (simp add: demo_db_def empty_tables_def)
  have 2: "demo_db [demo_tenant_row] [] (tl ?plan) = store_run (postgres_api ref_q) [(Inl [], OpCreateTenant ''Demo'' ''demo'')] (demo_db [] [] ?plan)"
    by (simp add: demo_pg_enrolled)
  have 3: "CreateAPIKey (postgres_api ref_q) (Inr (replicate 32 (CHR ''b''))) (demo_uuid (CHR ''a'')) None (demo_db [demo_tenant_row] [] (tl ?plan))
      = (Inr (demo_plain, demo_key_row), demo_db [demo_tenant_row] [demo_key_row] [])"
    by (simp add: demo_pg_issued)
  from pg_issued_key_works [OF ref_runs_sql 1 2 3, of "[]" "Inl []"] show ?thesis by simp
qed

text \<open>
  C21: a revocation in Postgres holds: once \<open>RevokeAPIKey\<close> has returned nil for the identifier of a key,
  in whatever spelling of the UUID, no later \<open>Authenticate\<close> accepts the key, whatever faults happen
  before or after.
\<close>

theorem pg_revoked_key_dead:
  assumes "runs_sql q view" and "view db0 = empty_tables" and "db = store_run (postgres_api q) hist db0"
    and "k \<in> set (rKeys (view db))" "KeyHash k = hashKey pt" "norm_uuid i = KeyID k"
    and "RevokeAPIKey (postgres_api q) e i db = (None, db')"
  shows "fst (Authenticate (postgres_api q) e2 pt (store_run (postgres_api q) ops db')) \<noteq> Inr (tn, k')"
proof -
  have loc: "postgres_db q view" using assms(1) by (rule postgres_db.intro)
  have ok: "tbl_ok (view db)"
    using postgres_db.hist_ok [OF loc, of db0 hist] assms(2) by (simp add: assms(3) tbl_ok_empty)
  then have d: "tbl_dir (view db) (hashKey pt) = Some (entry_of k)"
    using find_distinct [of KeyHash "rKeys (view db)" k] assms(4,5) by (simp add: tbl_dir_def tbl_ok_def)
  have i: "eID (entry_of k) = norm_uuid i" by (simp add: entry_of_def assms(6))
  obtain r db2 where r: "Authenticate (postgres_api q) e2 pt (store_run (postgres_api q) ops db') = (r, db2)" by fastforce
  from postgres_db.keys_dead [OF loc ok assms(7) d i r]
  show ?thesis using r by (cases r) (auto simp: answers_def)
qed

theorem pg_revoked_key_dead_witness:
  "\<forall>tn k. fst (Authenticate (postgres_api ref_q) (Inl []) demo_plain
     (demo_db [demo_tenant_row] [demo_key_row\<lparr>RevokedAt := Some 9\<rparr>] [])) \<noteq> Inr (tn, k)"
proof (intro allI)
  fix tn k
  let ?u = "(demo_uuid (CHR ''b''), 7, Runs)"
  let ?plan = "[(demo_uuid (CHR ''a''), 5, Runs), ?u, ?u, (demo_uuid (CHR ''a''), 9, Runs)]"
  let ?hist = "[(Inl [], OpCreateTenant ''Demo'' ''demo''), (Inr (replicate 32 (CHR ''b'')), OpCreateAPIKey (demo_uuid (CHR ''a'')) None)]"
  let ?db = "demo_db [demo_tenant_row] [demo_key_row] [(demo_uuid (CHR ''a''), 9, Runs)]"
  have 1: "refTables (demo_db [] [] ?plan) = empty_tables" by (simp add: demo_db_def empty_tables_def)
  have 2: "?db = store_run (postgres_api ref_q) ?hist (demo_db [] [] ?plan)"
    by (simp add: demo_pg_enrolled demo_pg_issued)
  have 3: "norm_uuid (demo_uuid (CHR ''b'')) = KeyID demo_key_row"
    by (simp add: norm_uuid_def demo_uuid_canon demo_key_row_def)
  have 4: "RevokeAPIKey (postgres_api ref_q) (Inl []) (demo_uuid (CHR ''b'')) ?db
      = (None, demo_db [demo_tenant_row] [demo_key_row\<lparr>RevokedAt := Some 9\<rparr>] [])"
    by (simp add: pg_RevokeAPIKey_def ref_q_def demo_db_def demo_uuid_canon Let_def on_uuid_def demo_key_row_def)
  from pg_revoked_key_dead [OF ref_runs_sql 1 2 _ _ 3 4, of demo_plain "Inl []" "[]" tn k]
  show "fst (Authenticate (postgres_api ref_q) (Inl []) demo_plain
     (demo_db [demo_tenant_row] [demo_key_row\<lparr>RevokedAt := Some 9\<rparr>] [])) \<noteq> Inr (tn, k)"
    by (simp add: demo_db_def demo_key_row_def)
qed

text \<open>
  The two stores differ on a key that is already revoked: revoking it again succeeds in memory
  and is never reported as done by the Postgres store, which answers \<open>ErrNotFound\<close> unless the database fails.
\<close>

theorem second_revoke_differs:
  assumes "mem_RevokeAPIKey now order i m = (None, m')"
    and "runs_sql q view" and "pg_RevokeAPIKey q i db = (None, db')"
  shows "fst (mem_RevokeAPIKey now' order i m') = None \<and> fst (pg_RevokeAPIKey q i db') \<noteq> None"
proof
  from revoke_scan_effect assms(1) [unfolded mem_RevokeAPIKey_def]
  obtain h k where h: "h \<in> set order" "mKeys m h = Some k" "KeyID k = i"
    "m' = m\<lparr>mKeys := (mKeys m)(h \<mapsto> k\<lparr>RevokedAt := Some now\<rparr>)\<rparr>" by blast
  then show "fst (mem_RevokeAPIKey now' order i m') = None"
    unfolding mem_RevokeAPIKey_def by (intro revoke_scan_finds [of h _ _ "k\<lparr>RevokedAt := Some now\<rparr>"]) auto
  have loc: "postgres_db q view" using assms(2) by (rule postgres_db.intro)
  obtain y where y: "q (RevokeKey i) db = (y, db')" and n: "\<exists>n. y = Inr (Affected (Inr n))"
    using assms(3) by (cases "q (RevokeKey i) db") (auto simp: pg_RevokeAPIKey_def split: sum.splits Row.splits if_splits)
  from y have l: "live i (view db') = []"
    by (rule postgres_db.q_cases [OF loc]) (use n revoke_leaves_none in \<open>force dest: same_answer_cases\<close>)+
  obtain z db2 where z: "q (RevokeKey i) db' = (z, db2)" by fastforce
  then have "z = Inr (Affected (Inr 0)) \<or> (\<exists>err. z = Inl err)"
    by (rule postgres_db.q_cases [OF loc]) (use revoke_none [OF l] in \<open>blast dest: same_answer_cases\<close>)+
  then show "fst (pg_RevokeAPIKey q i db') \<noteq> None" using z by (auto simp: pg_RevokeAPIKey_def)
qed

theorem second_revoke_differs_witness:
  "fst (pg_RevokeAPIKey ref_q (demo_uuid (CHR ''b'')) (demo_db [demo_tenant_row] [demo_key_row\<lparr>RevokedAt := Some 9\<rparr>] [])) \<noteq> None"
proof -
  let ?i = "demo_uuid (CHR ''b'')"
  let ?m = "\<lambda>k. \<lparr>mTenants = Map.empty, mSlugs = Map.empty, mKeys = [hashKey demo_plain \<mapsto> k]\<rparr>"
  let ?db = "demo_db [demo_tenant_row] [demo_key_row] [(demo_uuid (CHR ''a''), 9, Runs)]"
  have 1: "mem_RevokeAPIKey 9 [hashKey demo_plain] ?i (?m demo_key_row) = (None, ?m (demo_key_row\<lparr>RevokedAt := Some 9\<rparr>))"
    by (simp add: mem_RevokeAPIKey_def demo_key_row_def)
  have 2: "pg_RevokeAPIKey ref_q ?i ?db = (None, demo_db [demo_tenant_row] [demo_key_row\<lparr>RevokedAt := Some 9\<rparr>] [])"
    by (simp add: pg_RevokeAPIKey_def ref_q_def demo_db_def demo_uuid_canon Let_def on_uuid_def demo_key_row_def)
  from second_revoke_differs [OF 1 ref_runs_sql 2] show ?thesis by simp
qed

end
