(* ===== verification/Config.thy ===== *)
theory Config
  imports GoStrings GoTime Provider
begin

text \<open>
  Package \<open>config\<close> (\<open>internal/config/config.go\<close>): \<open>Load\<close> and \<open>Validate\<close>. The environment is a function
  from names to values, with the empty string for a variable that is not set, as \<open>os.Getenv\<close> has it. The
  parser of floating-point numbers, the Unicode part of \<open>ToLower\<close> and the order in which Go visits the two
  maps are arguments. Error values are a datatype, with their texts.
\<close>

section \<open>Integers\<close>

datatype NumError = ErrSyntax | ErrRange

text \<open>The digit loop of \<open>strconv.ParseUint\<close> in base 10 for 64 bits.\<close>

fun parse_uint :: "nat \<Rightarrow> string \<Rightarrow> NumError + nat" where
  "parse_uint n [] = Inr n"
| "parse_uint n (c # cs) =
     (if \<not> is_digit c then Inl ErrSyntax
      else if (2 ^ 64 - 1) div 10 + 1 \<le> n then Inl ErrRange
      else let n1 = n * 10 + (of_char c - 48) in if 2 ^ 64 \<le> n1 then Inl ErrRange else parse_uint n1 cs)"

definition ParseUint :: "string \<Rightarrow> NumError + nat" where
  "ParseUint s = (if s = [] then Inl ErrSyntax else parse_uint 0 s)"

definition ParseInt :: "string \<Rightarrow> NumError + int64" where
  "ParseInt s =
     (if s = [] then Inl ErrSyntax
      else let neg = (hd s = CHR ''-'');
               s = (if hd s = CHR ''+'' \<or> hd s = CHR ''-'' then tl s else s)
           in case ParseUint s of
                Inl err \<Rightarrow> Inl err
              | Inr un \<Rightarrow>
                  if \<not> neg \<and> 2 ^ 63 \<le> un then Inl ErrRange
                  else if neg \<and> 2 ^ 63 < un then Inl ErrRange
                  else Inr (if neg then - word_of_nat un else word_of_nat un))"

section \<open>The configuration\<close>

abbreviation StoreModeMemory :: string where "StoreModeMemory \<equiv> ''memory''"
abbreviation StoreModePostgres :: string where "StoreModePostgres \<equiv> ''postgres''"

record Config =
  Addr :: string
  StoreMode :: string
  PostgresDSN :: string
  DemoTenantSlug :: string
  DemoBudgetMinor :: int64
  CfgOperatorToken :: string
  UpstreamURL :: string
  RateLimitIPPerSec :: float64
  RateLimitIPBurst :: float64
  RateLimitTenantPerSec :: float64
  RateLimitTenantBurst :: float64
  ReadHeaderTimeout :: duration
  ReadTimeout :: duration
  WriteTimeout :: duration
  IdleTimeout :: duration

datatype RateVar = IPRPS | IPBurst | TenantRPS | TenantBurst

primrec rate_env :: "RateVar \<Rightarrow> string" where
  "rate_env IPRPS = ''VG_RATE_LIMIT_IP_RPS''"
| "rate_env IPBurst = ''VG_RATE_LIMIT_IP_BURST''"
| "rate_env TenantRPS = ''VG_RATE_LIMIT_TENANT_RPS''"
| "rate_env TenantBurst = ''VG_RATE_LIMIT_TENANT_BURST''"

primrec rate_of :: "RateVar \<Rightarrow> Config \<Rightarrow> float64" where
  "rate_of IPRPS c = RateLimitIPPerSec c"
| "rate_of IPBurst c = RateLimitIPBurst c"
| "rate_of TenantRPS c = RateLimitTenantPerSec c"
| "rate_of TenantBurst c = RateLimitTenantBurst c"

primrec set_rate :: "RateVar \<Rightarrow> float64 \<Rightarrow> Config \<Rightarrow> Config" where
  "set_rate IPRPS x c = c\<lparr>RateLimitIPPerSec := x\<rparr>"
| "set_rate IPBurst x c = c\<lparr>RateLimitIPBurst := x\<rparr>"
| "set_rate TenantRPS x c = c\<lparr>RateLimitTenantPerSec := x\<rparr>"
| "set_rate TenantBurst x c = c\<lparr>RateLimitTenantBurst := x\<rparr>"

record Environment =
  Getenv :: "string \<Rightarrow> string"
  ParseFloat :: "string \<Rightarrow> string + float64"
  UnicodeLower :: "string \<Rightarrow> string"
  LoadOrder :: "RateVar list"
  CheckOrder :: "RateVar list"

definition getEnvDefault :: "Environment \<Rightarrow> string \<Rightarrow> string \<Rightarrow> string" where
  "getEnvDefault env key def = (if Getenv env key \<noteq> [] then Getenv env key else def)"

datatype ConfigError =
    ErrBudgetNumber NumError
  | ErrRateNumber RateVar string
  | ErrAddrEmpty
  | ErrDSNMissing
  | ErrStoreModeUnknown string
  | ErrBudgetNegative
  | ErrTokenRequired
  | ErrTokenShort
  | ErrRateNegative RateVar

section \<open>Validate\<close>

definition validate_mode :: "Config \<Rightarrow> ConfigError option" where
  "validate_mode c =
     (if StoreMode c = StoreModeMemory then None
      else if StoreMode c = StoreModePostgres then
        (if TrimSpace (PostgresDSN c) = [] then Some ErrDSNMissing else None)
      else Some (ErrStoreModeUnknown (StoreMode c)))"

fun validate_rates :: "RateVar list \<Rightarrow> Config \<Rightarrow> ConfigError option" where
  "validate_rates [] c = None"
| "validate_rates (v # vs) c = (if f_lt (rate_of v c) (Fin 0) then Some (ErrRateNegative v) else validate_rates vs c)"

definition Validate :: "RateVar list \<Rightarrow> Config \<Rightarrow> ConfigError option" where
  "Validate order c =
     (if Addr c = [] then Some ErrAddrEmpty
      else case validate_mode c of
             Some err \<Rightarrow> Some err
           | None \<Rightarrow>
               if DemoBudgetMinor c <s 0 then Some ErrBudgetNegative
               else if StoreMode c = StoreModePostgres \<and> length (CfgOperatorToken c) < 32 then Some ErrTokenRequired
               else if CfgOperatorToken c \<noteq> [] \<and> length (CfgOperatorToken c) < 32 then Some ErrTokenShort
               else validate_rates order c)"

section \<open>Load\<close>

definition initial_config :: "Environment \<Rightarrow> Config" where
  "initial_config env =
     \<lparr>Addr = getEnvDefault env ''VG_ADDR'' '':8080'',
      StoreMode = ToLower (UnicodeLower env) (getEnvDefault env ''VG_STORE_MODE'' ''memory''),
      PostgresDSN = Getenv env ''VG_POSTGRES_DSN'',
      DemoTenantSlug = getEnvDefault env ''VG_DEMO_TENANT_SLUG'' ''demo-corp'',
      DemoBudgetMinor = 1000,
      CfgOperatorToken = Getenv env ''VG_OPERATOR_TOKEN'',
      UpstreamURL = Getenv env ''VG_UPSTREAM_URL'',
      RateLimitIPPerSec = Fin 20, RateLimitIPBurst = Fin 40, RateLimitTenantPerSec = Fin 10, RateLimitTenantBurst = Fin 20,
      ReadHeaderTimeout = 5 * Second, ReadTimeout = 30 * Second, WriteTimeout = 35 * Second, IdleTimeout = 120 * Second\<rparr>"

definition load_budget :: "Environment \<Rightarrow> Config \<Rightarrow> ConfigError + Config" where
  "load_budget env c =
     (let v = Getenv env ''VG_DEMO_BUDGET_MINOR''
      in if v = [] then Inr c
         else case ParseInt v of Inl err \<Rightarrow> Inl (ErrBudgetNumber err) | Inr n \<Rightarrow> Inr (c\<lparr>DemoBudgetMinor := n\<rparr>))"

fun load_rates :: "Environment \<Rightarrow> RateVar list \<Rightarrow> Config \<Rightarrow> ConfigError + Config" where
  "load_rates env [] c = Inr c"
| "load_rates env (v # vs) c =
     (let s = Getenv env (rate_env v)
      in if s = [] then load_rates env vs c
         else case ParseFloat env s of Inl err \<Rightarrow> Inl (ErrRateNumber v err) | Inr n \<Rightarrow> load_rates env vs (set_rate v n c))"

definition Load :: "Environment \<Rightarrow> ConfigError + Config" where
  "Load env =
     (case load_budget env (initial_config env) of
        Inl err \<Rightarrow> Inl err
      | Inr c \<Rightarrow>
          (case load_rates env (LoadOrder env) c of
             Inl err \<Rightarrow> Inl err
           | Inr c \<Rightarrow> (case Validate (CheckOrder env) c of Some err \<Rightarrow> Inl err | None \<Rightarrow> Inr c)))"

section \<open>Messages\<close>

primrec NumError_String :: "NumError \<Rightarrow> string" where
  "NumError_String ErrSyntax = ''invalid syntax''"
| "NumError_String ErrRange = ''value out of range''"

text \<open>The text of an error; \<open>v\<close> is the value of \<open>VG_DEMO_BUDGET_MINOR\<close>, which \<open>strconv\<close> repeats.\<close>

primrec ConfigError_String :: "string \<Rightarrow> ConfigError \<Rightarrow> string" where
  "ConfigError_String v (ErrBudgetNumber err) =
     ''VG_DEMO_BUDGET_MINOR: invalid integer: strconv.ParseInt: parsing '' @ quote v @ '': '' @ NumError_String err"
| "ConfigError_String v (ErrRateNumber r err) = rate_env r @ '': invalid number: '' @ err"
| "ConfigError_String v ErrAddrEmpty = ''VG_ADDR must not be empty''"
| "ConfigError_String v ErrDSNMissing = ''VG_STORE_MODE=postgres requires VG_POSTGRES_DSN to be set''"
| "ConfigError_String v (ErrStoreModeUnknown m) =
     ''VG_STORE_MODE must be '' @ quote StoreModeMemory @ '' or '' @ quote StoreModePostgres @ '', got '' @ quote m"
| "ConfigError_String v ErrBudgetNegative = ''VG_DEMO_BUDGET_MINOR must be >= 0''"
| "ConfigError_String v ErrTokenRequired =
     ''VG_STORE_MODE=postgres requires VG_OPERATOR_TOKEN to be set and at least 32 characters''"
| "ConfigError_String v ErrTokenShort = ''VG_OPERATOR_TOKEN must be at least 32 characters''"
| "ConfigError_String v (ErrRateNegative r) = rate_env r @ '' must be >= 0 (0 disables that limiter)''"

section \<open>What Load computes\<close>

definition with_rates :: "(RateVar \<Rightarrow> float64) \<Rightarrow> Config \<Rightarrow> Config" where
  "with_rates r c = c\<lparr>RateLimitIPPerSec := r IPRPS, RateLimitIPBurst := r IPBurst,
     RateLimitTenantPerSec := r TenantRPS, RateLimitTenantBurst := r TenantBurst\<rparr>"

lemma rate_of_set [simp]: "rate_of w (set_rate v x c) = (if w = v then x else rate_of w c)"
  by (cases v; cases w) simp_all

lemma rate_of_with [simp]: "rate_of v (with_rates r c) = r v"
  by (cases v) (simp_all add: with_rates_def)

lemma with_rates_set [simp]: "with_rates r (set_rate v x c) = with_rates r c"
  by (cases v) (simp_all add: with_rates_def)

lemma with_rates_same [simp]: "with_rates (\<lambda>v. rate_of v c) c = c"
  by (simp add: with_rates_def)

lemma with_rates_fields [simp]:
  "Addr (with_rates r c) = Addr c" "StoreMode (with_rates r c) = StoreMode c" "PostgresDSN (with_rates r c) = PostgresDSN c"
  "DemoBudgetMinor (with_rates r c) = DemoBudgetMinor c" "CfgOperatorToken (with_rates r c) = CfgOperatorToken c"
  by (simp_all add: with_rates_def)

text \<open>The value of a rate after \<open>Load\<close>, if its variable is empty or parses.\<close>

definition rate_value :: "Environment \<Rightarrow> Config \<Rightarrow> RateVar \<Rightarrow> float64 option" where
  "rate_value env c v =
     (if Getenv env (rate_env v) = [] then Some (rate_of v c)
      else case ParseFloat env (Getenv env (rate_env v)) of Inl err \<Rightarrow> None | Inr n \<Rightarrow> Some n)"

lemma rate_value_set: "w \<noteq> v \<Longrightarrow> rate_value env (set_rate v x c) w = rate_value env c w"
  by (simp add: rate_value_def)

lemma load_rates_eq:
  "load_rates env vs c = Inr c' \<longleftrightarrow>
     (\<forall>v \<in> set vs. rate_value env c v \<noteq> None)
     \<and> c' = with_rates (\<lambda>v. if v \<in> set vs then the (rate_value env c v) else rate_of v c) c"
proof (induction vs arbitrary: c)
  case Nil
  show ?case by auto
next
  case (Cons v vs)
  show ?case
  proof (cases "Getenv env (rate_env v) = []")
    case True
    then have "rate_value env c v = Some (rate_of v c)" by (simp add: rate_value_def)
    then have "(if w \<in> set vs then the (rate_value env c w) else rate_of w c)
        = (if w \<in> set (v # vs) then the (rate_value env c w) else rate_of w c)" for w by auto
    with True Cons.IH [of c] \<open>rate_value env c v = Some (rate_of v c)\<close> show ?thesis by simp
  next
    case False
    show ?thesis
    proof (cases "ParseFloat env (Getenv env (rate_env v))")
      case (Inl err)
      with False show ?thesis by (simp add: rate_value_def)
    next
      case (Inr n)
      let ?c = "set_rate v n c"
      have v: "rate_value env d v = Some n" for d using False Inr by (simp add: rate_value_def)
      have "rate_value env ?c w = rate_value env c w" if "w \<noteq> v" for w using that by (rule rate_value_set)
      then have 1: "(\<forall>w \<in> set vs. rate_value env ?c w \<noteq> None) \<longleftrightarrow> (\<forall>w \<in> set (v # vs). rate_value env c w \<noteq> None)"
        using v by (metis list.set_intros(2) option.distinct(1) set_ConsD)
      have 2: "(if w \<in> set vs then the (rate_value env ?c w) else rate_of w ?c)
          = (if w \<in> set (v # vs) then the (rate_value env c w) else rate_of w c)" for w
        using v rate_value_set [of w v env n c] by (cases "w = v") auto
      show ?thesis using Cons.IH [of ?c] False Inr unfolding 1 2 by simp
    qed
  qed
qed

lemma validate_rates_None: "validate_rates vs c = None \<longleftrightarrow> (\<forall>v \<in> set vs. \<not> f_lt (rate_of v c) (Fin 0))"
  by (induction vs) auto

text \<open>What a configuration must satisfy, in the words of the documentation of \<open>Config\<close>.\<close>

definition well_configured :: "Config \<Rightarrow> bool" where
  "well_configured c \<longleftrightarrow> Addr c \<noteq> []
     \<and> (StoreMode c = StoreModeMemory
        \<or> StoreMode c = StoreModePostgres \<and> TrimSpace (PostgresDSN c) \<noteq> [] \<and> 32 \<le> length (CfgOperatorToken c))
     \<and> 0 \<le> sint (DemoBudgetMinor c) \<and> (CfgOperatorToken c = [] \<or> 32 \<le> length (CfgOperatorToken c))
     \<and> (\<forall>v. \<not> f_lt (rate_of v c) (Fin 0))"

lemma UNIV_RateVar: "UNIV = {IPRPS, IPBurst, TenantRPS, TenantBurst}"
  using RateVar.exhaust by auto

lemma Validate_None: "set order = UNIV \<Longrightarrow> Validate order c = None \<longleftrightarrow> well_configured c"
  by (auto simp: Validate_def validate_mode_def well_configured_def validate_rates_None go_simps not_less
      split: option.splits if_splits)

section \<open>Properties\<close>

definition budget_value :: "Environment \<Rightarrow> int64 option" where
  "budget_value env =
     (if Getenv env ''VG_DEMO_BUDGET_MINOR'' = [] then Some 1000
      else case ParseInt (Getenv env ''VG_DEMO_BUDGET_MINOR'') of Inl err \<Rightarrow> None | Inr n \<Rightarrow> Some n)"

text \<open>
  C23: \<open>Load\<close> succeeds exactly when every variable that is set parses and the configuration is
  acceptable: an address, a known store mode, for Postgres a connection string and an operator token of at
  least 32 characters, a budget that is not negative, no short operator token, no negative rate limit. The
  result is the defaults with the variables put in; in every other case it is an error and no configuration,
  and neither depends on the order in which Go visits the maps of variables.
\<close>

theorem Load_exact:
  assumes "set (LoadOrder env) = UNIV" and "set (CheckOrder env) = UNIV"
  shows "Load env = Inr c \<longleftrightarrow>
     (\<exists>b r. budget_value env = Some b \<and> (\<forall>v. rate_value env (initial_config env) v = Some (r v))
        \<and> c = with_rates r ((initial_config env)\<lparr>DemoBudgetMinor := b\<rparr>) \<and> well_configured c)"
proof -
  let ?i = "initial_config env"
  have rv: "rate_value env (?i\<lparr>DemoBudgetMinor := b\<rparr>) v = rate_value env ?i v" for b v
    by (cases v) (simp_all add: rate_value_def)
  have lb: "load_budget env ?i = (case budget_value env of Some b \<Rightarrow> Inr (?i\<lparr>DemoBudgetMinor := b\<rparr>)
      | None \<Rightarrow> Inl (ErrBudgetNumber (projl (ParseInt (Getenv env ''VG_DEMO_BUDGET_MINOR'')))))"
    by (simp add: load_budget_def budget_value_def Let_def initial_config_def split: sum.splits)
  have "Load env = Inr c \<longleftrightarrow> (\<exists>b. budget_value env = Some b
      \<and> load_rates env (LoadOrder env) (?i\<lparr>DemoBudgetMinor := b\<rparr>) = Inr c \<and> well_configured c)"
    unfolding Load_def lb Validate_None [OF assms(2), symmetric]
    by (auto split: option.splits sum.splits)
  also have "\<dots> \<longleftrightarrow> (\<exists>b r. budget_value env = Some b \<and> (\<forall>v. rate_value env ?i v = Some (r v))
        \<and> c = with_rates r (?i\<lparr>DemoBudgetMinor := b\<rparr>) \<and> well_configured c)"
    unfolding load_rates_eq assms(1) rv
    by (auto simp: not_None_eq fun_eq_iff) (metis option.sel)+
  finally show ?thesis .
qed

definition bare_env :: Environment where
  "bare_env = \<lparr>Getenv = (\<lambda>k. []), ParseFloat = (\<lambda>s. Inl s), UnicodeLower = (\<lambda>s. s),
     LoadOrder = [IPRPS, IPBurst, TenantRPS, TenantBurst], CheckOrder = [TenantBurst, TenantRPS, IPBurst, IPRPS]\<rparr>"

lemma ToLower_memory [simp]: "ToLower u ''memory'' = ''memory''"
proof -
  have "list_all is_ascii ''memory''" "map to_lower ''memory'' = ''memory''" by code_simp+
  then show ?thesis by (simp add: ToLower_def)
qed

text \<open>An environment that sets nothing but the upstream and the rates starts in memory mode.\<close>

definition quiet :: "Environment \<Rightarrow> bool" where
  "quiet env \<longleftrightarrow> set (LoadOrder env) = UNIV \<and> set (CheckOrder env) = UNIV
     \<and> (\<forall>k. k \<noteq> ''VG_UPSTREAM_URL'' \<and> k \<notin> range rate_env \<longrightarrow> Getenv env k = [])"

lemma range_rate_env:
  "range rate_env = {''VG_RATE_LIMIT_IP_RPS'', ''VG_RATE_LIMIT_IP_BURST'', ''VG_RATE_LIMIT_TENANT_RPS'', ''VG_RATE_LIMIT_TENANT_BURST''}"
  unfolding UNIV_RateVar by auto

lemma quiet_memory: "quiet env \<Longrightarrow> StoreMode (initial_config env) = StoreModeMemory"
  by (simp add: quiet_def range_rate_env initial_config_def getEnvDefault_def)

lemma quiet_load:
  assumes q: "quiet env" and r: "\<And>v. rate_value env (initial_config env) v = Some (r v)" "\<And>v. \<not> f_lt (r v) (Fin 0)"
  shows "Load env = Inr (with_rates r (initial_config env))"
proof -
  have o: "set (LoadOrder env) = UNIV" "set (CheckOrder env) = UNIV" using q by (simp_all add: quiet_def)
  have e: "Getenv env ''VG_DEMO_BUDGET_MINOR'' = []" "Getenv env ''VG_ADDR'' = []" "Getenv env ''VG_OPERATOR_TOKEN'' = []"
    using q by (simp_all add: quiet_def range_rate_env)
  have "load_rates env (LoadOrder env) (initial_config env) = Inr (with_rates r (initial_config env))"
    unfolding load_rates_eq o r by simp
  moreover have "well_configured (with_rates r (initial_config env))"
    using quiet_memory [OF q] r(2) e by (simp add: well_configured_def) (simp add: initial_config_def getEnvDefault_def e)
  then have "Validate (CheckOrder env) (with_rates r (initial_config env)) = None" using Validate_None [OF o(2)] by blast
  ultimately show ?thesis by (simp add: Load_def load_budget_def e)
qed

lemma bare_quiet: "quiet bare_env"
  unfolding quiet_def UNIV_RateVar by (auto simp: bare_env_def)

lemma rate_default: "\<not> f_lt (rate_of v (initial_config env)) (Fin 0)"
  by (cases v) (simp_all add: initial_config_def)

lemma bare_load: "Load bare_env = Inr (initial_config bare_env)"
  using quiet_load [OF bare_quiet, of "\<lambda>v. rate_of v (initial_config bare_env)"] rate_default
  by (simp add: rate_value_def bare_env_def)

lemma bare_well_configured: "well_configured (initial_config bare_env)"
  using bare_load Validate_None [of "CheckOrder bare_env"] bare_quiet
  by (auto simp: Load_def quiet_def split: sum.splits option.splits)

theorem Load_exact_witness: "Load bare_env = Inr (initial_config bare_env)"
proof -
  have o: "set (LoadOrder bare_env) = UNIV" "set (CheckOrder bare_env) = UNIV"
    unfolding UNIV_RateVar by (auto simp: bare_env_def)
  have i: "(initial_config bare_env)\<lparr>DemoBudgetMinor := 1000\<rparr> = initial_config bare_env"
    by (simp add: initial_config_def)
  show ?thesis
    unfolding Load_exact [OF o]
    by (intro exI [of _ 1000] exI [of _ "\<lambda>v. rate_of v (initial_config bare_env)"])
      (simp add: budget_value_def rate_value_def i bare_well_configured, simp add: bare_env_def)
qed

text \<open>Numerals\<close>

lemma parse_uint_snoc: "parse_uint k (s @ [c]) = (case parse_uint k s of Inl err \<Rightarrow> Inl err | Inr n \<Rightarrow> parse_uint n [c])"
  by (induction k s rule: parse_uint.induct) (auto simp: Let_def)

lemma is_digit_digit: "d < 10 \<Longrightarrow> is_digit (digit d)"
  by (simp add: is_digit_def in_range_def digit_def)

lemma parse_uint_dec: "m < 2 ^ 64 \<Longrightarrow> parse_uint 0 (dec m) = Inr m"
proof (induction m rule: dec.induct)
  case (1 m)
  show ?case
  proof (cases "m < 10")
    case True
    then show ?thesis by (simp add: dec.simps [of m] is_digit_digit of_char_digit)
  next
    case False
    then have "parse_uint 0 (dec (m div 10)) = Inr (m div 10)" using 1 by simp
    moreover have "m div 10 < (2 ^ 64 - 1) div 10 + 1" using "1.prems" by simp
    ultimately show ?thesis using False "1.prems"
      by (simp add: dec.simps [of m] parse_uint_snoc is_digit_digit of_char_digit Let_def)
  qed
qed

lemma dec_head: "dec m \<noteq> []" "hd (dec m) \<noteq> CHR ''+''" "hd (dec m) \<noteq> CHR ''-''"
proof -
  show n: "dec m \<noteq> []" by (subst dec.simps) simp
  obtain d where d: "d < 10" "hd (dec m) = digit d" using dec_digits [of "hd (dec m)" m] n by auto
  then have "of_char (hd (dec m)) = (48 + d :: nat)" by (simp add: of_char_digit)
  then show "hd (dec m) \<noteq> CHR ''+''" "hd (dec m) \<noteq> CHR ''-''" by auto
qed

text \<open>
  \<open>ParseInt\<close> reads back every 64-bit integer from its decimal numeral.
\<close>

theorem ParseInt_numeral: "ParseInt (dec_int (sint n)) = Inr n"
proof (cases "sint n < 0")
  case True
  let ?m = "nat (- sint n)"
  have m: "?m \<le> 2 ^ 63" using sint_ge_int64 [of n] by simp
  have w: "- word_of_nat ?m = n"
  proof -
    have "(word_of_nat ?m :: int64) = word_of_int (int ?m)" by simp
    also have "\<dots> = word_of_int (- sint n)" using True by simp
    also have "\<dots> = - n" by (simp only: of_int_minus of_int_sint scast_id)
    finally show ?thesis by (simp only: minus_minus)
  qed
  have "ParseUint (dec ?m) = Inr ?m" using m dec_head(1) [of ?m] parse_uint_dec [of ?m] by (simp add: ParseUint_def)
  then show ?thesis using True m w by (simp add: dec_int_def ParseInt_def Let_def not_less del: of_nat_nat)
next
  case False
  let ?m = "nat (sint n)"
  have m: "?m < 2 ^ 63" using sint_less_int64 [of n] by simp
  have w: "word_of_nat ?m = n"
  proof -
    have "(word_of_nat ?m :: int64) = word_of_int (int ?m)" by simp
    also have "\<dots> = word_of_int (sint n)" using False by simp
    finally show ?thesis by (simp only: of_int_sint scast_id)
  qed
  have "ParseUint (dec ?m) = Inr ?m" using m dec_head(1) [of ?m] parse_uint_dec [of ?m] by (simp add: ParseUint_def)
  then show ?thesis using False m w dec_head [of ?m] by (simp add: dec_int_def ParseInt_def Let_def not_le del: of_nat_nat)
qed

end
