(* ===== verification/Httpapi.thy ===== *)
theory Httpapi
  imports Gateway Ratelimit Store
begin

text \<open>
  Package \<open>httpapi\<close> (\<open>internal/httpapi/httpapi.go\<close>): the server, its middleware and its handlers. The
  fields \<open>Reserv\<close>, \<open>Risk\<close> and \<open>Ledger\<close> of the server point to the objects the gateway holds, as
  \<open>main\<close> wires them, so the server's state has the gateway once. The store is the interface
  \<open>StoreAPI\<close> with its state; the JSON decoder of the kill switch's body, the network and the clock are
  arguments, collected in a record. A reply is its status and its body before rendering: plain text,
  a JSON object as the list of its members, or the events.
\<close>

section \<open>Requests and replies\<close>

text \<open>
  The parts of \<open>http.Request\<close> the program reads. \<open>InEscaped\<close> is \<open>URL.EscapedPath()\<close>, which the mux
  matches, \<open>InPath\<close> is the decoded \<open>URL.Path\<close>, which the proxy forwards.
\<close>

record InRequest =
  InMethod :: string
  InEscaped :: string
  InPath :: string
  InRawQuery :: string
  InHeader :: Header
  InBody :: bytes
  InBodyErr :: "string option"
  RemoteAddr :: string

datatype JValue = JString string | JFloat float64 | JInt int64 | JBool bool

datatype ReplyBody = Plain string | JsonObj "(string \<times> JValue) list" | JsonEvents "Event list" | RedirectTo string

record Reply =
  RStatus :: nat
  RBody :: ReplyBody

definition http_Error :: "string \<Rightarrow> nat \<Rightarrow> Reply" where
  "http_Error msg code = \<lparr>RStatus = code, RBody = Plain (msg @ [CHR 0x0A])\<rparr>"

definition http_NotFound :: Reply where
  "http_NotFound = http_Error ''404 page not found'' 404"

definition writeJSON :: "nat \<Rightarrow> (string \<times> JValue) list \<Rightarrow> Reply" where
  "writeJSON status v = \<lparr>RStatus = status, RBody = JsonObj v\<rparr>"

section \<open>The mux\<close>

text \<open>
  \<open>http.ServeMux\<close> of Go 1.22 for the five patterns of \<open>routes\<close>: \<open>*\<close> is refused, the path is cleaned, a path that
  changes is redirected, \<open>/proxy\<close> is redirected to \<open>/proxy/\<close>, and segments are compared after
  unescaping.
\<close>

fun split_on :: "char \<Rightarrow> string \<Rightarrow> string list" where
  "split_on c [] = [[]]"
| "split_on c (x # xs) =
     (if x = c then [] # split_on c xs
      else case split_on c xs of [] \<Rightarrow> [[x]] | s # ss \<Rightarrow> (x # s) # ss)"

fun join_with :: "char \<Rightarrow> string list \<Rightarrow> string" where
  "join_with c [] = []"
| "join_with c [s] = s"
| "join_with c (s # ss) = s @ c # join_with c ss"

definition clean_step :: "string list \<Rightarrow> string \<Rightarrow> string list" where
  "clean_step out s =
     (if s = [] \<or> s = ''.'' then out else if s = ''..'' then butlast out else out @ [s])"

definition cleanPath :: "string \<Rightarrow> string" where
  "cleanPath p =
     (if p = [] then ''/''
      else let p = (if hd p \<noteq> CHR ''/'' then CHR ''/'' # p else p);
               np = CHR ''/'' # join_with (CHR ''/'') (foldl clean_step [] (split_on (CHR ''/'') (tl p)))
           in if last p = CHR ''/'' \<and> np \<noteq> ''/'' then np @ ''/'' else np)"

fun unescape :: "string \<Rightarrow> string option" where
  "unescape [] = Some []"
| "unescape (c # cs) =
     (if c \<noteq> CHR ''%'' then map_option (\<lambda>r. c # r) (unescape cs)
      else case cs of
             a # b # rest \<Rightarrow>
               (case (hex_value a, hex_value b) of
                  (Some x, Some y) \<Rightarrow> map_option (\<lambda>r. char_of (16 * x + y) # r) (unescape rest)
                | _ \<Rightarrow> None)
           | _ \<Rightarrow> None)"

definition pathUnescape :: "string \<Rightarrow> string" where
  "pathUnescape s = (case unescape s of None \<Rightarrow> s | Some t \<Rightarrow> t)"

datatype Route = RHealth | RExposure | REvents | RKillSwitch | RProxy

definition segments :: "string \<Rightarrow> string list" where
  "segments path = map pathUnescape (split_on (CHR ''/'') (tl path))"

definition match_route :: "string \<Rightarrow> Route option" where
  "match_route path =
     (let segs = segments path
      in if segs = [''health''] then Some RHealth
         else if segs = [''v1'', ''exposure''] then Some RExposure
         else if segs = [''v1'', ''events''] then Some REvents
         else if segs = [''v1'', ''kill-switch''] then Some RKillSwitch
         else if 2 \<le> length segs \<and> hd segs = ''proxy'' then Some RProxy
         else None)"

definition with_query :: "string \<Rightarrow> string \<Rightarrow> string" where
  "with_query path q = (if q = [] then path else path @ ''?'' @ q)"

definition mux_find :: "InRequest \<Rightarrow> Reply + Route" where
  "mux_find r =
     (let path = (if InMethod r = ''CONNECT'' then InEscaped r else cleanPath (InEscaped r))
      in if InEscaped r = ''*'' then Inl \<lparr>RStatus = 400, RBody = Plain []\<rparr>
         else if segments path = [''proxy''] \<and> path \<noteq> [] then
           Inl \<lparr>RStatus = 301, RBody = RedirectTo (with_query (cleanPath (InPath r) @ ''/'') (InRawQuery r))\<rparr>
         else if path \<noteq> InEscaped r then
           Inl \<lparr>RStatus = 301, RBody = RedirectTo (with_query path (InRawQuery r))\<rparr>
         else case match_route path of None \<Rightarrow> Inl http_NotFound | Some route \<Rightarrow> Inr route)"

section \<open>The server\<close>

definition ScopeProxyWrite :: string where "ScopeProxyWrite = ''proxy:write''"
definition ScopeReadExposure :: string where "ScopeReadExposure = ''read:exposure''"
definition ScopeReadEvents :: string where "ScopeReadEvents = ''read:events''"

record 's Server =
  GW :: Gateway
  StoreSt :: 's
  SRoute :: RouteConfig
  OperatorToken :: string
  ipLimiter :: "limiter option"
  tenantLimiter :: "limiter option"

definition NewServer :: "Gateway \<Rightarrow> 's \<Rightarrow> RouteConfig \<Rightarrow> string \<Rightarrow> 's Server" where
  "NewServer gw st route token =
     \<lparr>GW = gw, StoreSt = st, SRoute = route, OperatorToken = token, ipLimiter = None, tenantLimiter = None\<rparr>"

definition SetRateLimits :: "float64 \<Rightarrow> float64 \<Rightarrow> float64 \<Rightarrow> float64 \<Rightarrow> 's Server \<Rightarrow> 's Server" where
  "SetRateLimits ipRPS ipBurst tenantRPS tenantBurst s =
     (let s = (if f_lt (Fin 0) ipRPS \<and> f_lt (Fin 0) ipBurst then s\<lparr>ipLimiter := Some (newLimiter ipRPS ipBurst)\<rparr> else s)
      in if f_lt (Fin 0) tenantRPS \<and> f_lt (Fin 0) tenantBurst
         then s\<lparr>tenantLimiter := Some (newLimiter tenantRPS tenantBurst)\<rparr> else s)"

record KillBody =
  KScope :: string
  KValue :: string
  KOn :: bool

text \<open>What one request takes from its surroundings; the clock readings are numbered over the whole request.\<close>

record ('e, 's) World =
  api :: "('e, 's) StoreAPI"
  draw :: 'e
  wnet :: Net
  wclock :: clock
  decodeKill :: "bytes \<Rightarrow> string option \<Rightarrow> string + KillBody"

definition hasScope :: "string list \<Rightarrow> string \<Rightarrow> bool" where
  "hasScope scopes want \<longleftrightarrow> list_ex (\<lambda>s. s = want) scopes"

definition bearer :: string where "bearer = ''Bearer ''"

text \<open>
  \<open>requireAuth\<close> as the part before the call of \<open>next\<close>: a refusal, or the tenant that the handler finds
  in the context.
\<close>

definition requireAuth :: "('e, 's) World \<Rightarrow> string \<Rightarrow> InRequest \<Rightarrow> 's Server \<Rightarrow> (Reply + string) \<times> 's Server" where
  "requireAuth w requiredScope r s =
     (let authHeader = Header_Get (InHeader r) ''Authorization''
      in if \<not> HasPrefix authHeader bearer \<or> length authHeader \<le> length bearer
         then (Inl (http_Error ''missing or malformed Authorization: Bearer <key> header'' 401), s)
         else
           case Authenticate (api w) (draw w) (TrimPrefix authHeader bearer) (StoreSt s) of
             (Inl StoreNotFound, st) \<Rightarrow> (Inl (http_Error ''invalid API key'' 401), s\<lparr>StoreSt := st\<rparr>)
           | (Inl StoreRevoked, st) \<Rightarrow> (Inl (http_Error ''API key has been revoked'' 403), s\<lparr>StoreSt := st\<rparr>)
           | (Inl err, st) \<Rightarrow> (Inl (http_Error ''authentication failed'' 500), s\<lparr>StoreSt := st\<rparr>)
           | (Inr (tenant, key), st) \<Rightarrow>
               (let s = s\<lparr>StoreSt := st\<rparr>
                in if requiredScope \<noteq> [] \<and> 0 < length (slice (Scopes key)) \<and> \<not> hasScope (slice (Scopes key)) requiredScope
                   then (Inl (http_Error (''API key is missing required scope: '' @ requiredScope) 403), s)
                   else
                     let s = (if requiredScope \<noteq> [] \<and> length (slice (Scopes key)) = 0
                              then s\<lparr>GW := emit (wclock w 1) ((event0 LegacyUnscopedKeyUsed (TntID tenant) [])
                                     \<lparr>Metadata := [''scope'' \<mapsto> requiredScope, ''path'' \<mapsto> InPath r]\<rparr>) (GW s)\<rparr>
                              else s);
                         (ok, l) = allow (wclock w 2) (TntID tenant) (tenantLimiter s);
                         s = s\<lparr>tenantLimiter := l\<rparr>
                     in if \<not> ok then (Inl (http_Error ''tenant rate limit exceeded, try again shortly'' 429), s)
                        else (Inr (TntID tenant), s)))"

text \<open>
  \<open>subtle.ConstantTimeCompare\<close> returns 1 exactly for equal contents; the code calls it for equal
  lengths only.
\<close>

definition ConstantTimeCompare :: "string \<Rightarrow> string \<Rightarrow> nat" where
  "ConstantTimeCompare x y = (if length x = length y \<and> list_all2 (=) x y then 1 else 0)"

definition requireOperator :: "InRequest \<Rightarrow> 's Server \<Rightarrow> Reply option" where
  "requireOperator r s =
     (if OperatorToken s = [] then Some http_NotFound
      else let authHeader = Header_Get (InHeader r) ''Authorization''
           in if \<not> HasPrefix authHeader bearer
              then Some (http_Error ''missing Authorization: Bearer <operator token> header'' 401)
              else let supplied = TrimPrefix authHeader bearer;
                       ok = (length supplied = length (OperatorToken s) \<and> ConstantTimeCompare supplied (OperatorToken s) = 1)
                   in if \<not> ok then Some (http_Error ''invalid operator token'' 401) else None)"

section \<open>Handlers\<close>

definition handleHealth :: Reply where
  "handleHealth = writeJSON 200 [(''status'', JString ''ok'')]"

definition handleExposure :: "string \<Rightarrow> 's Server \<Rightarrow> Reply \<times> 's Server" where
  "handleExposure tenant s =
     (let (e, m) = Exposure_of tenant (GReserv (GW s))
      in (writeJSON 200 [(''tenant_id'', JString tenant), (''limit'', JFloat (Float (ExpLimit e))),
            (''reserved'', JFloat (Float (ExpReserved e))), (''settled'', JFloat (Float (ExpSettled e))),
            (''available'', JFloat (Float (ExpAvailable e)))],
          s\<lparr>GW := (GW s)\<lparr>GReserv := m\<rparr>\<rparr>))"

definition handleEvents :: "string \<Rightarrow> 's Server \<Rightarrow> Reply" where
  "handleEvents tenant s = \<lparr>RStatus = 200, RBody = JsonEvents (ForTenant tenant (GLedger (GW s)))\<rparr>"

definition kill :: "KillBody \<Rightarrow> Engine \<Rightarrow> Engine option" where
  "kill b e =
     (if KScope b = ''global'' then Some (KillAll (KOn b) e)
      else if KScope b = ''tenant'' then Some (KillTenant (KValue b) (KOn b) e)
      else if KScope b = ''provider'' then Some (KillProvider (KValue b) (KOn b) e)
      else None)"

definition handleKillSwitch :: "('e, 's) World \<Rightarrow> InRequest \<Rightarrow> 's Server \<Rightarrow> Reply \<times> 's Server" where
  "handleKillSwitch w r s =
     (if InMethod r \<noteq> ''POST'' then (http_Error ''POST only'' 405, s)
      else case decodeKill w (InBody r) (InBodyErr r) of
             Inl err \<Rightarrow> (http_Error err 400, s)
           | Inr b \<Rightarrow>
               (case kill b (GRisk (GW s)) of
                  None \<Rightarrow> (http_Error ''scope must be global|tenant|provider'' 400, s)
                | Some e \<Rightarrow>
                    (writeJSON 200 [(''scope'', JString (KScope b)), (''value'', JString (KValue b)), (''on'', JBool (KOn b))],
                     s\<lparr>GW := emit (wclock w 3)
                         ((event0 (if KOn b then KillSwitchOn else KillSwitchOff) (KValue b) [])
                           \<lparr>Metadata := [''scope'' \<mapsto> KScope b, ''value'' \<mapsto> KValue b]\<rparr>)
                         ((GW s)\<lparr>GRisk := e\<rparr>)\<rparr>)))"

primrec Action_String :: "Action \<Rightarrow> string" where
  "Action_String ActionAllow = ''ALLOW''"
| "Action_String ActionAllowWithLimit = ''ALLOW_WITH_LIMIT''"
| "Action_String ActionThrottle = ''THROTTLE''"
| "Action_String ActionBlock = ''BLOCK''"
| "Action_String ActionKillSwitch = ''KILL_SWITCH''"

primrec Level_String :: "Level \<Rightarrow> string" where
  "Level_String LevelNone = []"
| "Level_String LevelLow = ''LOW''"
| "Level_String LevelMedium = ''MEDIUM''"
| "Level_String LevelHigh = ''HIGH''"
| "Level_String LevelCritical = ''CRITICAL''"

primrec BState_String :: "BState \<Rightarrow> string" where
  "BState_String Closed = ''CLOSED''"
| "BState_String Open = ''OPEN''"
| "BState_String HalfOpen = ''HALF_OPEN''"
| "BState_String HalfOpenTesting = ''HALF_OPEN_TESTING''"

text \<open>Reading the body through \<open>MaxBytesReader\<close>.\<close>

definition read_body :: "InRequest \<Rightarrow> bytes option" where
  "read_body r = (if MaxUpstreamRequestBytes < length (InBody r) \<or> InBodyErr r \<noteq> None then None else Some (InBody r))"

definition proxy_id :: "('e, 's) World \<Rightarrow> InRequest \<Rightarrow> string" where
  "proxy_id w r =
     (let requestID = Header_Get (InHeader r) ''X-Request-ID''
      in if requestID = [] then format_rfc3339nano (wclock w 4) else requestID)"

definition proxy_path :: "InRequest \<Rightarrow> string" where
  "proxy_path r =
     (let upstreamPath = TrimPrefix (InPath r) ''/proxy'';
          upstreamPath = (if upstreamPath = [] then ''/'' else upstreamPath)
      in if InRawQuery r \<noteq> [] then upstreamPath @ ''?'' @ InRawQuery r else upstreamPath)"

definition proxy_request :: "('e, 's) World \<Rightarrow> InRequest \<Rightarrow> bytes \<Rightarrow> ExecRequest" where
  "proxy_request w r body =
     (let fwdHeaders = FilterHopByHopHeaders (InHeader r);
          fwdHeaders = Header_Del ''Authorization'' fwdHeaders;
          fwdHeaders = Header_Set ''X-Request-ID'' (proxy_id w r) fwdHeaders
      in \<lparr>ReqMethod = InMethod r, ReqURL = [], ReqPath = proxy_path r, ReqHeaders = fwdHeaders, ReqBody = body\<rparr>)"

definition proxy_status :: "RequestResult \<Rightarrow> nat" where
  "proxy_status result =
     (let status = (case ResultDecision result of
            None \<Rightarrow> 200
          | Some d \<Rightarrow> (case DAction d of ActionBlock \<Rightarrow> 402 | ActionKillSwitch \<Rightarrow> 402 | ActionThrottle \<Rightarrow> 429 | _ \<Rightarrow> 200))
      in if ResultErr result \<noteq> None \<and> status = 200 then 502 else status)"

text \<open>The members of the reply; a \<open>None\<close> decision is Go's zero \<open>Decision\<close>.\<close>

definition proxy_body :: "RequestResult \<Rightarrow> (string \<times> JValue) list" where
  "proxy_body result =
     (let d = ResultDecision result;
          str = (\<lambda>f. JString (case d of None \<Rightarrow> [] | Some x \<Rightarrow> f x))
      in [(''request_id'', JString (ResultID result)),
          (''action'', str (\<lambda>x. Action_String (DAction x))),
          (''risk_score'', JInt (case d of None \<Rightarrow> 0 | Some x \<Rightarrow> DRiskScore x)),
          (''risk_level'', str (\<lambda>x. Level_String (DRiskLevel x))),
          (''reason'', str DReason),
          (''circuit_state'', str (\<lambda>x. BState_String (DCircuitState x))),
          (''estimated_cost'', JFloat (Float (case d of None \<Rightarrow> 0 | Some x \<Rightarrow> DEstimatedCost x))),
          (''actual_cost'', JFloat (Float (ResultCost result))),
          (''executed'', JBool (Executed result))])"

definition handleProxy :: "('e, 's) World \<Rightarrow> string \<Rightarrow> InRequest \<Rightarrow> 's Server \<Rightarrow> Reply \<times> 's Server" where
  "handleProxy w tenant r s =
     (case read_body r of
        None \<Rightarrow> (http_Error ''request body too large or unreadable'' 413, s)
      | Some body \<Rightarrow>
          (let c = \<lparr>CallID = proxy_id w r, CallTenant = tenant, CallRoute = SRoute s\<rparr>;
               (result, g) = HandleRequest (wnet w) (clock_from 5 (wclock w)) c (proxy_request w r body) 100 100 1 (GW s)
           in (writeJSON (proxy_status result) (proxy_body result), s\<lparr>GW := g\<rparr>)))"

section \<open>Serving\<close>

definition with_auth ::
  "('e, 's) World \<Rightarrow> string \<Rightarrow> (string \<Rightarrow> 's Server \<Rightarrow> Reply \<times> 's Server) \<Rightarrow> InRequest \<Rightarrow> 's Server \<Rightarrow> Reply \<times> 's Server" where
  "with_auth w scope next r s =
     (case requireAuth w scope r s of (Inl reply, s) \<Rightarrow> (reply, s) | (Inr tenant, s) \<Rightarrow> next tenant s)"

primrec routes :: "('e, 's) World \<Rightarrow> Route \<Rightarrow> InRequest \<Rightarrow> 's Server \<Rightarrow> Reply \<times> 's Server" where
  "routes w RHealth r s = (handleHealth, s)"
| "routes w RExposure r s = with_auth w ScopeReadExposure handleExposure r s"
| "routes w REvents r s = with_auth w ScopeReadEvents (\<lambda>tenant s. (handleEvents tenant s, s)) r s"
| "routes w RKillSwitch r s =
     (case requireOperator r s of Some reply \<Rightarrow> (reply, s) | None \<Rightarrow> handleKillSwitch w r s)"
| "routes w RProxy r s = with_auth w ScopeProxyWrite (\<lambda>tenant. handleProxy w tenant r) r s"

definition ServeHTTP :: "('e, 's) World \<Rightarrow> InRequest \<Rightarrow> 's Server \<Rightarrow> Reply \<times> 's Server" where
  "ServeHTTP w r s =
     (let (ok, l) = allow (wclock w 0) (clientIP (InHeader r) (RemoteAddr r)) (ipLimiter s);
          s = s\<lparr>ipLimiter := l\<rparr>
      in if \<not> ok then (http_Error ''rate limit exceeded, try again shortly'' 429, s)
         else case mux_find r of Inl reply \<Rightarrow> (reply, s) | Inr route \<Rightarrow> routes w route r s)"

section \<open>Authentication\<close>

definition legacy_event :: "string \<Rightarrow> InRequest \<Rightarrow> Tenant \<Rightarrow> Event" where
  "legacy_event scope r tn = (event0 LegacyUnscopedKeyUsed (TntID tn) [])\<lparr>Metadata := [''scope'' \<mapsto> scope, ''path'' \<mapsto> InPath r]\<rparr>"

text \<open>The key that a request presents, and what the store says of it.\<close>

definition presents :: "('e, 's) World \<Rightarrow> InRequest \<Rightarrow> 's \<Rightarrow> string \<Rightarrow> Tenant \<Rightarrow> APIKey \<Rightarrow> 's \<Rightarrow> bool" where
  "presents w r st pt tn k st' \<longleftrightarrow>
     Header_Get (InHeader r) ''Authorization'' = ''Bearer '' @ pt \<and> pt \<noteq> []
     \<and> Authenticate (api w) (draw w) pt st = (Inr (tn, k), st')"

definition covers :: "APIKey \<Rightarrow> string \<Rightarrow> bool" where
  "covers k scope \<longleftrightarrow> slice (Scopes k) = [] \<or> scope \<in> set (slice (Scopes k))"

definition audited :: "('e, 's) World \<Rightarrow> string \<Rightarrow> InRequest \<Rightarrow> Tenant \<Rightarrow> APIKey \<Rightarrow> Gateway \<Rightarrow> Gateway" where
  "audited w scope r tn k g = (if slice (Scopes k) = [] then emit (wclock w 1) (legacy_event scope r tn) g else g)"

lemma hasScope_iff [simp]: "hasScope scopes want \<longleftrightarrow> want \<in> set scopes"
  by (auto simp: hasScope_def list_ex_iff)

lemma presents_unique:
  "presents w r st pt tn k st1 \<Longrightarrow> presents w r st pt' tn' k' st2 \<Longrightarrow> pt = pt' \<and> tn = tn' \<and> k = k' \<and> st1 = st2"
  by (auto simp: presents_def)

lemma requireAuth_covered:
  assumes "presents w r (StoreSt s) pt tn k st" and "covers k scope" and "scope \<noteq> []"
    and "allow (wclock w 2) (TntID tn) (tenantLimiter s) = (ok, l)"
  shows "requireAuth w scope r s =
    (if ok then Inr (TntID tn) else Inl (http_Error ''tenant rate limit exceeded, try again shortly'' 429),
     s\<lparr>StoreSt := st, GW := audited w scope r tn k (GW s), tenantLimiter := l\<rparr>)"
proof -
  have "Header_Get (InHeader r) ''Authorization'' = bearer @ pt" "pt \<noteq> []" "Authenticate (api w) (draw w) pt (StoreSt s) = (Inr (tn, k), st)"
    using assms(1) by (simp_all add: presents_def bearer_def)
  then show ?thesis using assms(2-4)
    by (auto simp: requireAuth_def covers_def Let_def audited_def legacy_event_def)
qed

lemma requireAuth_cases:
  assumes a: "requireAuth w scope r s = (x, s')" and scope: "scope \<noteq> []"
  obtains (refused) reply where "x = Inl reply" "RStatus reply \<in> {401, 403, 500}" "\<exists>msg. RBody reply = Plain msg" "GW s' = GW s"
      "\<And>pt tn k st. presents w r (StoreSt s) pt tn k st \<Longrightarrow> \<not> covers k scope"
  | (limited) pt tn k where "presents w r (StoreSt s) pt tn k (StoreSt s')" "covers k scope"
      "x = Inl (http_Error ''tenant rate limit exceeded, try again shortly'' 429)" "GW s' = audited w scope r tn k (GW s)"
  | (granted) pt tn k l where "presents w r (StoreSt s) pt tn k (StoreSt s')" "covers k scope" "x = Inr (TntID tn)"
      "s' = s\<lparr>StoreSt := StoreSt s', GW := audited w scope r tn k (GW s), tenantLimiter := l\<rparr>"
proof (cases "HasPrefix (Header_Get (InHeader r) ''Authorization'') bearer \<and> length bearer < length (Header_Get (InHeader r) ''Authorization'')")
  case False
  then have "\<not> presents w r (StoreSt s) pt tn k st" for pt tn k st
    by (auto simp: presents_def bearer_def [symmetric])
  then show thesis using False a by (intro refused [of "projl x"]) (auto simp: requireAuth_def http_Error_def)
next
  case True
  then obtain pt where pt: "Header_Get (InHeader r) ''Authorization'' = bearer @ pt" "pt \<noteq> []" by (auto simp: HasPrefix_iff)
  have hp: "\<not> (\<not> HasPrefix (bearer @ pt) bearer \<or> length (bearer @ pt) \<le> length bearer)" using pt(2) by simp
  obtain au st where au: "Authenticate (api w) (draw w) pt (StoreSt s) = (au, st)" by fastforce
  show thesis
  proof (cases au)
    case (Inl err)
    then have "\<not> presents w r (StoreSt s) pt' tn k st'" for pt' tn k st'
      using pt au by (auto simp: presents_def bearer_def)
    then show thesis using a au pt Inl
      by (intro refused [of "projl x"]) (auto simp: requireAuth_def http_Error_def hp [simplified] split: StoreError.splits)
  next
    case (Inr tk)
    obtain tn k where tk: "tk = (tn, k)" by fastforce
    have pr: "presents w r (StoreSt s) pt tn k st" using pt au Inr tk by (simp add: presents_def bearer_def)
    show thesis
    proof (cases "covers k scope")
      case False
      then have "\<not> covers k' scope" if "presents w r (StoreSt s) pt' tn' k' st'" for pt' tn' k' st'
        using presents_unique [OF that pr] by simp
      then show thesis using a au pt Inr tk scope False
        by (intro refused [of "projl x"]) (auto simp: requireAuth_def http_Error_def covers_def Let_def)
    next
      case True
      obtain ok l where al: "allow (wclock w 2) (TntID tn) (tenantLimiter s) = (ok, l)" by fastforce
      note rq = requireAuth_covered [OF pr True scope al] a
      show thesis
      proof (cases ok)
        case ok: True
        then show thesis using granted [of pt tn k l] pr \<open>covers k scope\<close> rq by auto
      next
        case False
        then show thesis using limited [of pt tn k] pr \<open>covers k scope\<close> rq by auto
      qed
    qed
  qed
qed

primrec scope_of :: "Route \<Rightarrow> string option" where
  "scope_of RHealth = None"
| "scope_of RExposure = Some ScopeReadExposure"
| "scope_of REvents = Some ScopeReadEvents"
| "scope_of RKillSwitch = None"
| "scope_of RProxy = Some ScopeProxyWrite"

text \<open>The handler behind the authentication of a route.\<close>

primrec handler :: "('e, 's) World \<Rightarrow> Route \<Rightarrow> InRequest \<Rightarrow> string \<Rightarrow> 's Server \<Rightarrow> Reply \<times> 's Server" where
  "handler w RHealth r t s = (handleHealth, s)"
| "handler w RExposure r t s = handleExposure t s"
| "handler w REvents r t s = (handleEvents t s, s)"
| "handler w RKillSwitch r t s = handleKillSwitch w r s"
| "handler w RProxy r t s = handleProxy w t r s"

lemma scope_nonempty: "scope_of route = Some scope \<Longrightarrow> scope \<noteq> []"
  by (cases route) (auto simp: ScopeReadExposure_def ScopeReadEvents_def ScopeProxyWrite_def)

lemma protected_routes: "scope_of route = Some scope \<Longrightarrow> routes w route r s = with_auth w scope (handler w route r) r s"
  by (cases route) (auto simp: with_auth_def split: prod.splits sum.splits)

lemma protected_cases:
  assumes "routes w route r s = (reply, s')" and "scope_of route = Some scope"
  obtains (refused) "RStatus reply \<in> {401, 403, 500}" "\<exists>msg. RBody reply = Plain msg" "GW s' = GW s"
      "\<And>pt tn k st. presents w r (StoreSt s) pt tn k st \<Longrightarrow> \<not> covers k scope"
  | (limited) pt tn k where "presents w r (StoreSt s) pt tn k (StoreSt s')" "covers k scope" "RStatus reply = 429" "\<exists>msg. RBody reply = Plain msg"
      "GW s' = audited w scope r tn k (GW s)"
  | (served) pt tn k st l where "presents w r (StoreSt s) pt tn k st" "covers k scope"
      "handler w route r (TntID tn) (s\<lparr>StoreSt := st, GW := audited w scope r tn k (GW s), tenantLimiter := l\<rparr>) = (reply, s')"
proof -
  obtain x s1 where x: "requireAuth w scope r s = (x, s1)" by fastforce
  note w = assms(1) [unfolded protected_routes [OF assms(2)] with_auth_def x]
  from x scope_nonempty [OF assms(2)] show thesis
  proof (cases rule: requireAuth_cases)
    case (refused rep)
    then show thesis using w that(1) by simp
  next
    case (limited pt tn k)
    then show thesis using w that(2) [of pt tn k] by (auto simp: http_Error_def)
  next
    case (granted pt tn k l)
    then have "handler w route r (TntID tn) s1 = (reply, s')" using w by simp
    then show thesis using that(3) [OF granted(1,2)] granted(4) by metis
  qed
qed

section \<open>The kill switches\<close>

definition switches :: "Engine \<Rightarrow> bool \<times> (string \<Rightarrow> bool) \<times> (string \<Rightarrow> bool)" where
  "switches e = (killAll e, killTenant e, killProvider e)"

lemma switches_keep [simp]:
  "switches (put_tenant t ts e) = switches e" "switches (snd (stateFor now t e)) = switches e"
  by (auto simp: switches_def op_defs Let_def split: option.splits)

lemma switches_Evaluate: "Evaluate clk req e m = (d, e', m') \<Longrightarrow> switches e' = switches e"
  by (erule Evaluate_cases) simp_all

lemma switches_RecordUsage [simp]: "switches (RecordUsage clk t c e) = switches e"
  by (simp add: RecordUsage_def case_prod_unfold Let_def)

lemma switches_reconcile: "reconcile_stage clk c rate d resp usage g = (res, g') \<Longrightarrow> switches (GRisk g') = switches (GRisk g)"
  by (auto simp: reconcile_stage_def Let_def split: prod.splits sum.splits)

lemma switches_execute: "execute_stage net clk c x rate d g = (res, g') \<Longrightarrow> switches (GRisk g') = switches (GRisk g)"
  by (auto simp: execute_stage_def Let_def give_back_def split: sum.splits dest!: switches_reconcile)

lemma switches_dispatch: "dispatch net clk c x rate est d g = (res, g') \<Longrightarrow> switches (GRisk g') = switches (GRisk g)"
  by (auto simp: dispatch_def split: if_splits dest!: switches_execute)

lemma switches_HandleRequest:
  assumes "HandleRequest net clk c x ni no n g = (res, g')"
  shows "switches (GRisk g') = switches (GRisk g)"
  using assms
proof (cases rule: HandleRequest_cases)
  case (decided rate d e m g1)
  then show ?thesis using switches_dispatch [OF decided(6)] switches_Evaluate [OF decided(2)] by simp
qed simp

lemma audited_sel [simp]: "GRisk (audited w scope r tn k g) = GRisk g" "GReserv (audited w scope r tn k g) = GReserv g"
  by (simp_all add: audited_def)

lemmas tenant_handlers = handleExposure_def handleEvents_def handleProxy_def Let_def

lemma switches_handler:
  assumes "handler w route r t s = (reply, s')" and "scope_of route = Some scope"
  shows "switches (GRisk (GW s')) = switches (GRisk (GW s))"
  using assms
  by (cases route)
    (auto simp: tenant_handlers split: prod.splits option.splits dest!: switches_HandleRequest)

lemma switches_protected:
  assumes "routes w route r s = (reply, s')" and "scope_of route = Some scope"
  shows "switches (GRisk (GW s')) = switches (GRisk (GW s))"
  using assms
proof (cases rule: protected_cases)
  case (served pt tn k st l)
  then show ?thesis using switches_handler [OF served(3) assms(2)] by simp
qed simp_all

lemma ServeHTTP_cases:
  assumes "ServeHTTP w r s = (reply, s')"
  obtains (turned) l where "s' = s\<lparr>ipLimiter := l\<rparr>" "RStatus reply \<in> {301, 400, 404, 429}"
      "\<And>es. RBody reply \<noteq> JsonEvents es" "\<And>v. RBody reply \<noteq> JsonObj v"
  | (routed) l route where "mux_find r = Inr route" "routes w route r (s\<lparr>ipLimiter := l\<rparr>) = (reply, s')"
proof -
  obtain ok l where a: "allow (wclock w 0) (clientIP (InHeader r) (RemoteAddr r)) (ipLimiter s) = (ok, l)" by fastforce
  let ?s = "s\<lparr>ipLimiter := l\<rparr>"
  have e: "(reply, s') = (if \<not> ok then (http_Error ''rate limit exceeded, try again shortly'' 429, ?s)
      else case mux_find r of Inl reply \<Rightarrow> (reply, ?s) | Inr route \<Rightarrow> routes w route r ?s)"
    using assms by (simp add: ServeHTTP_def a Let_def)
  consider "\<not> ok" | m where "ok" "mux_find r = Inl m" | route where "ok" "mux_find r = Inr route"
    by (cases ok; cases "mux_find r") auto
  then show thesis
  proof cases
    case 1
    then have "reply = http_Error ''rate limit exceeded, try again shortly'' 429" "s' = ?s" using e by simp_all
    then show thesis by (intro turned [of l]) (simp_all add: http_Error_def)
  next
    case (2 m)
    then have "reply = m" "s' = ?s" using e by simp_all
    moreover have "RStatus m \<in> {301, 400, 404} \<and> (\<forall>es. RBody m \<noteq> JsonEvents es) \<and> (\<forall>v. RBody m \<noteq> JsonObj v)"
      using 2(2) by (auto simp: mux_find_def Let_def http_NotFound_def http_Error_def split: if_splits option.splits)
    ultimately show thesis by (intro turned [of l]) auto
  next
    case (3 route)
    then show thesis using e by (intro routed [of route l]) simp_all
  qed
qed

lemma requireOperator_None:
  "requireOperator r s = None \<longleftrightarrow>
     OperatorToken s \<noteq> [] \<and> Header_Get (InHeader r) ''Authorization'' = bearer @ OperatorToken s"
proof (cases "HasPrefix (Header_Get (InHeader r) ''Authorization'') bearer")
  case True
  then obtain t where t: "Header_Get (InHeader r) ''Authorization'' = bearer @ t" by (auto simp: HasPrefix_iff)
  show ?thesis by (simp add: requireOperator_def t ConstantTimeCompare_def list.rel_eq Let_def)
next
  case False
  then have "Header_Get (InHeader r) ''Authorization'' \<noteq> bearer @ OperatorToken s" by (metis HasPrefix_append)
  with False show ?thesis by (simp add: requireOperator_def Let_def)
qed

text \<open>Only the operator's requests change a kill switch.\<close>

lemma switches_operator:
  assumes "ServeHTTP w r s = (reply, s')" and ch: "switches (GRisk (GW s')) \<noteq> switches (GRisk (GW s))"
  shows "OperatorToken s \<noteq> [] \<and> Header_Get (InHeader r) ''Authorization'' = ''Bearer '' @ OperatorToken s
    \<and> InMethod r = ''POST'' \<and> mux_find r = Inr RKillSwitch"
  using assms(1)
proof (cases rule: ServeHTTP_cases)
  case (turned l)
  then show ?thesis using ch by simp
next
  case (routed l route)
  have "scope_of route = None" using switches_protected [OF routed(2)] ch by (cases "scope_of route") auto
  moreover have "route \<noteq> RHealth" using routed(2) ch by auto
  ultimately have k: "route = RKillSwitch" by (cases route) auto
  let ?s = "s\<lparr>ipLimiter := l\<rparr>"
  have op: "requireOperator r ?s = None" using routed(2) ch by (cases "requireOperator r ?s") (auto simp: k)
  then have "handleKillSwitch w r ?s = (reply, s')" using routed(2) by (simp add: k)
  then have "InMethod r = ''POST''" using ch by (auto simp: handleKillSwitch_def split: if_splits)
  moreover have "OperatorToken s \<noteq> [] \<and> Header_Get (InHeader r) ''Authorization'' = bearer @ OperatorToken s"
    using op by (simp add: requireOperator_None)
  ultimately show ?thesis using routed(1) by (simp add: k bearer_def)
qed

section \<open>What the handlers leave in the ledger\<close>

lemma HandleRequest_labels:
  assumes "HandleRequest net clk c x ni no n g = (res, g')"
  shows "\<exists>tys. labels g' = labels g @ tagged c tys"
  using assms
proof (cases rule: HandleRequest_cases)
  case (decided rate d e m g1)
  then show ?thesis using dispatch_trail [OF decided(6)]
    by (intro exI [of _ "RequestEstimated # tl (expected_trail res)"]) (simp add: tagged_def)
qed blast

lemma handler_labels:
  assumes "handler w route r t s = (reply, s')" and "scope_of route = Some scope"
  shows "\<exists>more. labels (GW s') = labels (GW s) @ more"
  using assms
  by (cases route) (auto simp: tenant_handlers labels_upd split: prod.splits option.splits dest!: HandleRequest_labels)

lemma labels_audited: "slice (Scopes k) = [] \<Longrightarrow> labels (audited w scope r tn k g) = labels g @ [(LegacyUnscopedKeyUsed, TntID tn, [])]"
  by (simp add: audited_def legacy_event_def event0_def)

text \<open>Only the events endpoint replies with events.\<close>

lemma unprotected_body: "scope_of route = None \<Longrightarrow> RBody (fst (routes w route r s)) \<noteq> JsonEvents es"
  by (cases route) (auto simp: handleHealth_def writeJSON_def requireOperator_def http_NotFound_def handleKillSwitch_def
      http_Error_def Let_def split: option.splits sum.splits)

lemma handler_body: "RBody (fst (handler w route r t s)) = JsonEvents es \<Longrightarrow> route = REvents"
  by (cases route) (auto simp: handleHealth_def writeJSON_def handleExposure_def handleKillSwitch_def handleProxy_def
      http_Error_def Let_def split: prod.splits option.splits sum.splits if_splits)

section \<open>A small example\<close>

definition legacy_key :: APIKey where
  "legacy_key = demo_key\<lparr>Scopes := None\<rparr>"

definition demo_world :: "(Draw, MemoryStore) World" where
  "demo_world = \<lparr>api = memory_api, draw = demo_draw [], wnet = demo_net, wclock = (\<lambda>i. 5),
     decodeKill = (\<lambda>b err. Inr \<lparr>KScope = ''global'', KValue = [], KOn = True\<rparr>)\<rparr>"

definition demo_http :: "string \<Rightarrow> string \<Rightarrow> string \<Rightarrow> InRequest" where
  "demo_http meth path key = \<lparr>InMethod = meth, InEscaped = path, InPath = path, InRawQuery = [],
     InHeader = [''Authorization'' \<mapsto> [''Bearer '' @ key]], InBody = [], InBodyErr = None, RemoteAddr = ''1.2.3.4:5''\<rparr>"

definition demo_server :: "MemoryStore Server" where
  "demo_server = NewServer demo_gateway (demo_store (Some legacy_key)) (CallRoute demo_caller) ''operator''"

lemma canonical_keys:
  "CanonicalMIMEHeaderKey ''Authorization'' = ''Authorization''" "CanonicalMIMEHeaderKey ''X-Request-ID'' = ''X-Request-Id''"
  "CanonicalMIMEHeaderKey ''X-Forwarded-For'' = ''X-Forwarded-For''"
  by code_simp+

lemma demo_auth_header: "Header_Get (InHeader (demo_http meth path key)) ''Authorization'' = ''Bearer '' @ key"
  by (simp add: demo_http_def Header_Get_def canonical_keys)

lemma demo_authenticates:
  "mem_Authenticate 7 demo_plain (demo_store (Some legacy_key))
   = (Inr (demo_tenant, legacy_key\<lparr>LastUsedAt := Some 7\<rparr>), demo_store (Some (legacy_key\<lparr>LastUsedAt := Some 7\<rparr>)))"
  by (simp add: mem_Authenticate_def demo_store_def legacy_key_def demo_key_def auth_touch_def Let_def)

lemma demo_events:
  "\<exists>s'. routes demo_world REvents (demo_http ''GET'' ''/v1/events'' demo_plain) demo_server
     = (\<lparr>RStatus = 200, RBody = JsonEvents (ForTenant (TntID demo_tenant) (GLedger (GW s')))\<rparr>, s')"
proof -
  have "Authenticate (api demo_world) (draw demo_world) demo_plain (StoreSt demo_server)
      = (Inr (demo_tenant, legacy_key\<lparr>LastUsedAt := Some 7\<rparr>), demo_store (Some (legacy_key\<lparr>LastUsedAt := Some 7\<rparr>)))"
    using demo_authenticates by (simp add: demo_world_def demo_server_def NewServer_def demo_draw_def)
  moreover have "demo_plain \<noteq> []" by (simp add: demo_plain_def keyPrefix_def)
  moreover have "slice (Scopes (legacy_key\<lparr>LastUsedAt := Some 7\<rparr>)) = []" by (simp add: legacy_key_def slice_def)
  moreover have "tenantLimiter demo_server = None" by (simp add: demo_server_def NewServer_def)
  ultimately show ?thesis
    by (simp add: with_auth_def requireAuth_def demo_auth_header [of "''GET''", unfolded bearer_def [symmetric]] Let_def allow_def handleEvents_def)
qed

section \<open>Properties\<close>

text \<open>
  C8: identity comes only from the key. A request to a tenant endpoint is refused (401, 403, 500,
  or 429 from the tenant's limiter) and then neither budget nor engine changes, or it presented a key in its
  \<open>Authorization\<close> header that the store accepts and that carries the scope of the endpoint or is unscoped,
  and the reply and the new state are those of the handler for the tenant the store named.
\<close>

theorem protected_route_needs_key:
  assumes "routes w route r s = (reply, s')" and "scope_of route = Some scope"
  shows "RStatus reply \<in> {401, 403, 429, 500} \<and> GReserv (GW s') = GReserv (GW s) \<and> GRisk (GW s') = GRisk (GW s)
    \<or> (\<exists>pt tn k st l. Header_Get (InHeader r) ''Authorization'' = ''Bearer '' @ pt
         \<and> Authenticate (api w) (draw w) pt (StoreSt s) = (Inr (tn, k), st)
         \<and> (slice (Scopes k) = [] \<or> scope \<in> set (slice (Scopes k)))
         \<and> handler w route r (TntID tn) (s\<lparr>StoreSt := st, GW := audited w scope r tn k (GW s), tenantLimiter := l\<rparr>) = (reply, s'))"
  using assms
proof (cases rule: protected_cases)
  case (served pt tn k st l)
  then show ?thesis unfolding presents_def covers_def by blast
qed auto

theorem protected_route_needs_key_witness:
  "\<exists>tn k st. Authenticate (api demo_world) (draw demo_world) demo_plain (StoreSt demo_server) = (Inr (tn, k), st)"
proof -
  obtain s' where "routes demo_world REvents (demo_http ''GET'' ''/v1/events'' demo_plain) demo_server
     = (\<lparr>RStatus = 200, RBody = JsonEvents (ForTenant (TntID demo_tenant) (GLedger (GW s')))\<rparr>, s')"
    using demo_events by blast
  from protected_route_needs_key [OF this, of ScopeReadEvents] show ?thesis
    by (auto simp: demo_auth_header [simplified])
qed

text \<open>
  C9: the kill switch is the operator's alone. If a request changes any kill switch, then the server
  has an operator token, the request carried exactly that token and was a POST to the kill-switch
  endpoint; no API key of any scope can do it.
\<close>

theorem kill_switch_operator_only:
  assumes "ServeHTTP w r s = (reply, s')"
    and "(killAll (GRisk (GW s')), killTenant (GRisk (GW s')), killProvider (GRisk (GW s')))
      \<noteq> (killAll (GRisk (GW s)), killTenant (GRisk (GW s)), killProvider (GRisk (GW s)))"
  shows "OperatorToken s \<noteq> [] \<and> Header_Get (InHeader r) ''Authorization'' = ''Bearer '' @ OperatorToken s
    \<and> InMethod r = ''POST'' \<and> mux_find r = Inr RKillSwitch"
  using switches_operator [OF assms(1)] assms(2) by (simp add: switches_def)

theorem kill_switch_operator_only_witness:
  "killAll (GRisk (GW (snd (ServeHTTP demo_world (demo_http ''POST'' ''/v1/kill-switch'' ''operator'') demo_server))))
   \<and> OperatorToken demo_server = ''operator''"
proof -
  let ?r = "demo_http ''POST'' ''/v1/kill-switch'' ''operator''"
  have "cleanPath ''/v1/kill-switch'' = ''/v1/kill-switch''" "segments ''/v1/kill-switch'' \<noteq> [''proxy'']"
    "match_route ''/v1/kill-switch'' = Some RKillSwitch" by code_simp+
  then have m: "mux_find ?r = Inr RKillSwitch" by (simp add: mux_find_def demo_http_def Let_def)
  have off: "\<not> killAll (GRisk (GW demo_server))"
    by (simp add: demo_server_def NewServer_def demo_gateway_def gateway_New_def demo_engine_def NewEngine_def)
  have op: "requireOperator ?r demo_server = None"
    using demo_auth_header [of "''POST''"] by (simp add: requireOperator_None demo_server_def NewServer_def bearer_def)
  obtain reply s' where h: "ServeHTTP demo_world ?r demo_server = (reply, s')" by fastforce
  have ip: "demo_server\<lparr>ipLimiter := None\<rparr> = demo_server" "ipLimiter demo_server = None" by (simp_all add: demo_server_def NewServer_def)
  have on: "killAll (GRisk (GW s'))"
    using h by (simp add: ServeHTTP_def allow_def ip m op handleKillSwitch_def Let_def)
      (auto simp: demo_http_def demo_world_def kill_def KillAll_def)
  from kill_switch_operator_only [OF h] off on show ?thesis unfolding h by (auto simp: demo_auth_header [simplified])
qed

text \<open>
  C26: a tenant reads only its own events. If a reply lists events, then the request presented an
  accepted key with the scope \<open>read:events\<close> or unscoped, and the list is exactly the events of the
  tenant of that key, in the order of the ledger.
\<close>

theorem events_only_own:
  assumes "ServeHTTP w r s = (reply, s')" and "RBody reply = JsonEvents es"
  shows "\<exists>pt tn k st. Header_Get (InHeader r) ''Authorization'' = ''Bearer '' @ pt
     \<and> Authenticate (api w) (draw w) pt (StoreSt s) = (Inr (tn, k), st)
     \<and> (slice (Scopes k) = [] \<or> ''read:events'' \<in> set (slice (Scopes k)))
     \<and> es = filter (\<lambda>e. TenantID e = TntID tn) (events (GLedger (GW s')))"
  using assms(1)
proof (cases rule: ServeHTTP_cases)
  case (turned l)
  then show ?thesis using assms(2) by blast
next
  case (routed l route)
  have "route = REvents \<or> scope_of route \<noteq> None"
    using routed(2) assms(2) unprotected_body [of route w r "s\<lparr>ipLimiter := l\<rparr>" es] by (cases "scope_of route") auto
  then obtain sc where sc: "scope_of route = Some sc" by auto
  from routed(2) sc show ?thesis
  proof (cases rule: protected_cases)
    case (served pt tn k st l')
    have e: "route = REvents" using handler_body [of w route r "TntID tn"] served(3) assms(2) by (metis fst_conv)
    then have "es = ForTenant (TntID tn) (GLedger (GW s'))"
      using served(3) assms(2) by (auto simp: handleEvents_def)
    then show ?thesis using served(1,2) sc e
      by (auto simp: presents_def covers_def ScopeReadEvents_def ForTenant_def)
  qed (use assms(2) in auto)
qed

theorem events_only_own_witness:
  "\<exists>pt tn k st. Header_Get (InHeader (demo_http ''GET'' ''/v1/events'' demo_plain)) ''Authorization'' = ''Bearer '' @ pt
     \<and> Authenticate (api demo_world) (draw demo_world) pt (StoreSt demo_server) = (Inr (tn, k), st)"
proof -
  let ?r = "demo_http ''GET'' ''/v1/events'' demo_plain"
  have "cleanPath ''/v1/events'' = ''/v1/events''" "segments ''/v1/events'' \<noteq> [''proxy'']"
    "match_route ''/v1/events'' = Some REvents" by code_simp+
  then have m: "mux_find ?r = Inr REvents" by (simp add: mux_find_def demo_http_def Let_def)
  have ip: "demo_server\<lparr>ipLimiter := None\<rparr> = demo_server" "ipLimiter demo_server = None" by (simp_all add: demo_server_def NewServer_def)
  obtain s' where "routes demo_world REvents ?r demo_server
     = (\<lparr>RStatus = 200, RBody = JsonEvents (ForTenant (TntID demo_tenant) (GLedger (GW s')))\<rparr>, s')"
    using demo_events by blast
  then have "ServeHTTP demo_world ?r demo_server
     = (\<lparr>RStatus = 200, RBody = JsonEvents (ForTenant (TntID demo_tenant) (GLedger (GW s')))\<rparr>, s')"
    by (simp add: ServeHTTP_def allow_def ip m Let_def del: routes.simps)
  from events_only_own [OF this, of "ForTenant (TntID demo_tenant) (GLedger (GW s'))"] show ?thesis by auto
qed

text \<open>
  C27: the header with the API key is not forwarded: every request the generic provider puts on the wire for a
  proxied call has no \<open>Authorization\<close> header, none of the eight listed hop-by-hop headers, the
  request identifier as \<open>X-Request-Id\<close>, every other header exactly as the client sent it, and the client's method
  and body. A \<open>Trailer\<close> header, which RFC 7230 wants removed, is among the others: the list has \<open>Trailers\<close>.
\<close>

theorem proxy_never_forwards_key:
  assumes "q \<in> set (snd (http_Exchange net (NewGenericHTTP name base hosts) (proxy_request w r body)))"
  shows "HHeader q = (\<lambda>k.
      if k = ''X-Request-Id'' then Some [proxy_id w r]
      else if k \<in> {''Authorization'', ''Connection'', ''Keep-Alive'', ''Proxy-Authenticate'', ''Proxy-Authorization'',
                   ''Te'', ''Trailers'', ''Transfer-Encoding'', ''Upgrade''} then None
      else InHeader r k)
    \<and> HMethod q = InMethod r \<and> HBody q = body"
proof -
  have "k \<in> set hopByHopHeaders \<longleftrightarrow> k \<in> {''Connection'', ''Keep-Alive'', ''Proxy-Authenticate'', ''Proxy-Authorization'',
      ''Te'', ''Trailers'', ''Transfer-Encoding'', ''Upgrade''}" for k by (simp add: hopByHopHeaders_def)
  then have "FilterHopByHopHeaders (ReqHeaders (proxy_request w r body)) k =
     (if k = ''X-Request-Id'' then Some [proxy_id w r]
      else if k \<in> {''Authorization'', ''Connection'', ''Keep-Alive'', ''Proxy-Authenticate'', ''Proxy-Authorization'',
                   ''Te'', ''Trailers'', ''Transfer-Encoding'', ''Upgrade''} then None
      else InHeader r k)" for k
    by (simp add: proxy_request_def Header_Del_def Header_Set_def canonical_keys filter_hop_lookup hop_canonical Let_def)
  then show ?thesis using http_sent [OF assms] by (auto simp: proxy_request_def Let_def)
qed

theorem proxy_never_forwards_key_witness:
  "\<exists>q. snd (http_Exchange demo_net (NewGenericHTTP ''http'' ''http://up'' [''up''])
       (proxy_request demo_world (demo_http ''GET'' ''/proxy/x'' demo_plain) [])) = [q]
     \<and> Header_Get (InHeader (demo_http ''GET'' ''/proxy/x'' demo_plain)) ''Authorization'' = ''Bearer '' @ demo_plain
     \<and> HHeader q ''Authorization'' = None"
proof -
  let ?r = "demo_http ''GET'' ''/proxy/x'' demo_plain"
  have p: "proxy_path ?r = ''/x''" by (simp add: proxy_path_def demo_http_def TrimPrefix_def HasPrefix_def)
  then obtain q where q: "snd (http_Exchange demo_net (NewGenericHTTP ''http'' ''http://up'' [''up'']) (proxy_request demo_world ?r [])) = [q]"
    by (simp add: http_Exchange_def client_Do_plain NewGenericHTTP_def demo_net_def upstream_target_def trim_right_slash_def Let_def
        authority_def after_scheme_def MaxUpstreamRequestBytes_def proxy_request_def)
  then have "q \<in> set (snd (http_Exchange demo_net (NewGenericHTTP ''http'' ''http://up'' [''up'']) (proxy_request demo_world ?r [])))" by simp
  from proxy_never_forwards_key [OF this] have "HHeader q ''Authorization'' = None" by simp
  then show ?thesis using q demo_auth_header by auto
qed

text \<open>The result of a request and the status of the reply.\<close>

lemma execute_stage_status:
  assumes "execute_stage net clk c x rate d g = (res, g')"
  shows "ResultDecision res = Some d \<and> (ResultErr res = None \<longrightarrow> Executed res)"
  using assms
  by (auto simp: execute_stage_def reconcile_stage_def result0_def Let_def split: sum.splits prod.splits)

lemma HandleRequest_status:
  assumes "HandleRequest net clk c x ni no n g = (res, g')"
  shows "case ResultDecision res of
      None \<Rightarrow> ResultErr res \<noteq> None \<and> \<not> Executed res
    | Some d \<Rightarrow> (if DAction d \<in> {ActionAllow, ActionAllowWithLimit} then ResultErr res = None \<longrightarrow> Executed res
        else ResultErr res = None \<and> \<not> Executed res)"
  using assms
proof (cases rule: HandleRequest_cases)
  case (unpriced err)
  then show ?thesis by (simp add: result0_def)
next
  case (decided rate d e m g1)
  show ?thesis
  proof (cases "DAction d \<in> {ActionAllow, ActionAllowWithLimit}")
    case True
    then have "\<exists>g2. execute_stage net clk c x rate d g2 = (res, g')" using decided(6) by (auto simp: dispatch_def)
    with True show ?thesis using execute_stage_status by fastforce
  next
    case False
    then show ?thesis using decided(6) by (auto simp: dispatch_def result0_def split: if_splits)
  qed
qed

lemma status_of_result:
  assumes "HandleRequest net clk c x ni no n g = (res, g')"
  shows "(proxy_status res = 200 \<longleftrightarrow> Executed res \<and> ResultErr res = None)
    \<and> (proxy_status res = 402 \<longleftrightarrow> (\<exists>d. ResultDecision res = Some d \<and> DAction d \<in> {ActionBlock, ActionKillSwitch}))
    \<and> (proxy_status res = 429 \<longleftrightarrow> (\<exists>d. ResultDecision res = Some d \<and> DAction d = ActionThrottle))
    \<and> proxy_status res \<in> {200, 402, 429, 502} \<and> (proxy_status res \<in> {402, 429} \<longrightarrow> \<not> Executed res)"
proof (cases "ResultDecision res")
  case None
  then show ?thesis using HandleRequest_status [OF assms] by (simp add: proxy_status_def)
next
  case (Some d)
  then show ?thesis using HandleRequest_status [OF assms]
    by (cases "DAction d") (auto simp: proxy_status_def)
qed

lemma charged_iff_executed:
  assumes h: "HandleRequest net clk c x ni no n g = (res, g')" and s: "solvent (GReserv g)"
    and room: "can_reserve (GReserv g) (Estimate rate ni no)"
    and r: "RateAt (GPricing g) (RCProvider (CallRoute c)) (RCModel (CallRoute c)) (clk 0) = Inr rate"
  shows "(proxy_status res = 200 \<longleftrightarrow> Executed res)
    \<and> (proxy_status res = 200 \<longrightarrow>
        (\<exists>d v. ResultDecision res = Some d \<and> Get (DReservationID d) (GReserv g') = Inr v \<and> ResTenant v = CallTenant c
          \<and> ResAmount v = Estimate rate ni no \<and> ResStatus v = StateReconciled \<and> ActualCost v = ResultCost res))
    \<and> (\<forall>u. settled (acc_of (GReserv g') u) = settled (acc_of (GReserv g) u)
          + (if proxy_status res = 200 \<and> u = CallTenant c then ResultCost res else 0))"
proof -
  have same: "settled (acc_of (GReserv g') u) = settled (acc_of (GReserv g) u)"
    if "aSpent (view (GReserv g')) = aSpent (view (GReserv g))" for u
    using fun_cong [OF that, of u] by (simp add: signed_word_eqI)
  have ok: "proxy_status res = 200 \<longleftrightarrow> Executed res"
    and idle: "\<not> Executed res \<Longrightarrow> aSpent (view (GReserv g')) = aSpent (view (GReserv g))"
    using h s r room
    by (cases rule: HandleRequest_budget;
        use status_of_result [OF h] in \<open>auto simp: a_reserve_def simp del: view_sel split: if_splits dest!: sym [of _ "view (GReserv g')"]\<close>)+
  show ?thesis
  proof (cases "Executed res")
    case True
    then show ?thesis using executed_is_settled [OF h s r room] ok by simp
  next
    case False
    then show ?thesis using same [OF idle] ok by simp
  qed
qed

text \<open>
  C28: the status of a proxied request tells what happened and what was charged. It is 402 exactly if
  the risk engine blocked it or a kill switch is on, 429 exactly if it was throttled, 200 exactly if the
  upstream call was executed and no error came back from its settlement, and 502 in every other case. On a
  solvent manager with counter room, and for a non-negative estimate, it is 200 exactly if the call was executed;
  then the reservation of the decision stands in the manager as reconciled, for this tenant, for the estimate and
  at the reported cost, and the settled spending of the tenant has grown by that cost and of nobody else; with
  any other status nobody's settled spending has changed.
\<close>

theorem proxy_status_exact:
  assumes "HandleRequest net clk c x ni no n g = (res, g')"
  shows "(proxy_status res = 200 \<longleftrightarrow> Executed res \<and> ResultErr res = None)
    \<and> (proxy_status res = 402 \<longleftrightarrow> (\<exists>d. ResultDecision res = Some d \<and> DAction d \<in> {ActionBlock, ActionKillSwitch}))
    \<and> (proxy_status res = 429 \<longleftrightarrow> (\<exists>d. ResultDecision res = Some d \<and> DAction d = ActionThrottle))
    \<and> proxy_status res \<in> {200, 402, 429, 502} \<and> (proxy_status res \<in> {402, 429} \<longrightarrow> \<not> Executed res)
    \<and> (\<forall>rate. solvent (GReserv g) \<and> unat (idCounter (GReserv g)) < 2 ^ 64 - 1 \<and> 0 \<le> sint (Estimate rate ni no)
         \<and> RateAt (GPricing g) (RCProvider (CallRoute c)) (RCModel (CallRoute c)) (clk 0) = Inr rate \<longrightarrow>
        (proxy_status res = 200 \<longleftrightarrow> Executed res)
        \<and> (proxy_status res = 200 \<longrightarrow>
            (\<exists>d v. ResultDecision res = Some d \<and> Get (DReservationID d) (GReserv g') = Inr v \<and> ResTenant v = CallTenant c
              \<and> ResAmount v = Estimate rate ni no \<and> ResStatus v = StateReconciled \<and> ActualCost v = ResultCost res))
        \<and> (\<forall>u. settled (acc_of (GReserv g') u) = settled (acc_of (GReserv g) u)
              + (if proxy_status res = 200 \<and> u = CallTenant c then ResultCost res else 0)))"
    (is "_ \<and> _ \<and> _ \<and> _ \<and> _ \<and> ?charged")
proof -
  have ?charged by (intro allI impI charged_iff_executed [OF assms]) (simp_all add: can_reserve_def)
  with status_of_result [OF assms] show ?thesis by - (elim conjE, intro conjI; assumption)
qed

theorem proxy_status_exact_witness:
  "proxy_status (fst demo_run) = 200
   \<and> settled (acc_of (GReserv (snd demo_run)) ''t'') = settled (acc_of (GReserv demo_gateway) ''t'') + 30"
proof -
  obtain res g' where h: "demo_run = (res, g')" by fastforce
  then have h': "HandleRequest demo_net (\<lambda>i. 5) demo_caller demo_exec 40 0 1 demo_gateway = (res, g')" by (simp add: demo_run_def)
  have e: "Executed res" "ResultCost res = 30" using demo_run_executed unfolding h by auto
  have n: "0 \<le> sint (Estimate ((demo_rate 1 0)\<lparr>RateProvider := ''mock''\<rparr>) 40 0)" "unat (idCounter (GReserv demo_gateway)) < 2 ^ 64 - 1"
    using demo_run_room by (simp_all add: demo_run_estimate can_reserve_def)
  have t: "CallTenant demo_caller = ''t''" by (simp add: demo_caller_def)
  from proxy_status_exact [OF h'] demo_run_solvent demo_run_rate n e t show ?thesis by (simp only: h fst_conv snd_conv) auto
qed

text \<open>
  The compatibility path is never silent: whenever a key without scopes passes the scope check of
  an endpoint, the ledger has a new event for its tenant, even if the tenant's limiter then refuses the
  request, and everything recorded before is kept.
\<close>

theorem unscoped_key_audited:
  assumes "routes w route r s = (reply, s')" and "scope_of route = Some scope"
    and "Header_Get (InHeader r) ''Authorization'' = ''Bearer '' @ pt" and "pt \<noteq> []"
    and "Authenticate (api w) (draw w) pt (StoreSt s) = (Inr (tn, k), st)" and "slice (Scopes k) = []"
  shows "\<exists>more. map (\<lambda>e. (Type e, TenantID e, RequestID e)) (events (GLedger (GW s')))
    = map (\<lambda>e. (Type e, TenantID e, RequestID e)) (events (GLedger (GW s))) @ (LegacyUnscopedKeyUsed, TntID tn, []) # more"
proof -
  have p: "presents w r (StoreSt s) pt tn k st" and c: "covers k scope" using assms(3-6) by (simp_all add: presents_def covers_def)
  from assms(1,2) have "\<exists>more. labels (GW s') = labels (GW s) @ (LegacyUnscopedKeyUsed, TntID tn, []) # more"
  proof (cases rule: protected_cases)
    case refused
    then show ?thesis using p c by blast
  next
    case (limited pt' tn' k')
    then show ?thesis using presents_unique [OF limited(1) p] assms(6) by (simp add: labels_audited)
  next
    case (served pt' tn' k' st' l)
    have "labels (audited w scope r tn' k' (GW s)) = labels (GW s) @ [(LegacyUnscopedKeyUsed, TntID tn, [])]"
      using presents_unique [OF served(1) p] assms(6) by (simp add: labels_audited)
    then show ?thesis using handler_labels [OF served(3) assms(2)] by auto
  qed
  then show ?thesis by (simp add: labels_def)
qed

theorem unscoped_key_audited_witness:
  "\<exists>more. map (\<lambda>e. (Type e, TenantID e, RequestID e))
      (events (GLedger (GW (snd (routes demo_world REvents (demo_http ''GET'' ''/v1/events'' demo_plain) demo_server)))))
    = map (\<lambda>e. (Type e, TenantID e, RequestID e)) (events (GLedger (GW demo_server)))
      @ (LegacyUnscopedKeyUsed, TntID demo_tenant, []) # more"
proof -
  obtain s' where r: "routes demo_world REvents (demo_http ''GET'' ''/v1/events'' demo_plain) demo_server
     = (\<lparr>RStatus = 200, RBody = JsonEvents (ForTenant (TntID demo_tenant) (GLedger (GW s')))\<rparr>, s')"
    using demo_events by blast
  have a: "Authenticate (api demo_world) (draw demo_world) demo_plain (StoreSt demo_server)
      = (Inr (demo_tenant, legacy_key\<lparr>LastUsedAt := Some 7\<rparr>), demo_store (Some (legacy_key\<lparr>LastUsedAt := Some 7\<rparr>)))"
    using demo_authenticates by (simp add: demo_world_def demo_server_def NewServer_def demo_draw_def)
  have n: "demo_plain \<noteq> []" by (simp add: demo_plain_def keyPrefix_def)
  have s: "slice (Scopes (legacy_key\<lparr>LastUsedAt := Some 7\<rparr>)) = []" by (simp add: legacy_key_def slice_def)
  from unscoped_key_audited [OF r _ demo_auth_header n a s, of ScopeReadEvents] show ?thesis unfolding r by simp
qed

end
