(* ===== verification/Gateway_Main.thy ===== *)
theory Gateway_Main
  imports Httpapi Store_Postgres Config
begin

text \<open>
  The command \<open>gateway\<close> (\<open>cmd/gateway/main.go\<close>): how the configuration becomes a running server. A
  \<open>log.Fatalf\<close> is an error value; a successful start is the server, the demo key it prints, and the
  settings of the listener. \<open>sql.Open\<close>, the ping, \<open>url.Parse\<close>, the database and the random draws come from
  the host. Log lines are not modelled.
\<close>

section \<open>The store behind the interface\<close>

datatype 'db StoreState = MemorySt MemoryStore | PostgresSt 'db

text \<open>The variable \<open>st\<close> of type \<open>store.Store\<close>: a call goes to the implementation it holds.\<close>

definition on_store :: "(MemoryStore \<Rightarrow> 'r \<times> MemoryStore) \<Rightarrow> ('db \<Rightarrow> 'r \<times> 'db) \<Rightarrow> 'db StoreState \<Rightarrow> 'r \<times> 'db StoreState" where
  "on_store f g st =
     (case st of
        MemorySt m \<Rightarrow> (case f m of (r, m) \<Rightarrow> (r, MemorySt m))
      | PostgresSt db \<Rightarrow> (case g db of (r, db) \<Rightarrow> (r, PostgresSt db)))"

definition store_api :: "'db Db \<Rightarrow> (Draw, 'db StoreState) StoreAPI" where
  "store_api q =
     \<lparr>CreateTenant = (\<lambda>e n sl. on_store (CreateTenant memory_api e n sl) (CreateTenant (postgres_api q) (dRand e) n sl)),
      GetTenant = (\<lambda>e i. on_store (GetTenant memory_api e i) (GetTenant (postgres_api q) (dRand e) i)),
      CreateAPIKey = (\<lambda>e t sc. on_store (CreateAPIKey memory_api e t sc) (CreateAPIKey (postgres_api q) (dRand e) t sc)),
      Authenticate = (\<lambda>e pt. on_store (Authenticate memory_api e pt) (Authenticate (postgres_api q) (dRand e) pt)),
      RevokeAPIKey = (\<lambda>e i. on_store (RevokeAPIKey memory_api e i) (RevokeAPIKey (postgres_api q) (dRand e) i))\<rparr>"

section \<open>Starting\<close>

record 'db Host =
  hostEnv :: Environment
  hostDb :: "'db Db"
  sqlOpen :: "string \<Rightarrow> string + 'db"
  pingDb :: "'db \<Rightarrow> string option"
  urlParse :: "string \<Rightarrow> string + URL"
  tenantDraw :: Draw
  keyDraw :: Draw

datatype Fatal =
    FatalConfig ConfigError
  | FatalPostgres StoreError
  | FatalTenant StoreError
  | FatalKey StoreError
  | FatalURL string
  | FatalScheme string

record 'db Running =
  runServer :: "'db StoreState Server"
  runKey :: "string option"
  runConfig :: Config

definition open_store :: "'db Host \<Rightarrow> Config \<Rightarrow> Fatal + 'db StoreState" where
  "open_store host cfg =
     (if StoreMode cfg = StoreModePostgres then
        (case OpenPostgresStore (sqlOpen host) (pingDb host) (PostgresDSN cfg) of
           Inl err \<Rightarrow> Inl (FatalPostgres err)
         | Inr db \<Rightarrow> Inr (PostgresSt db))
      else Inr (MemorySt NewMemoryStore))"

definition demo_scopes :: "string list" where
  "demo_scopes = [''proxy:write'', ''read:exposure'']"

definition demo_budget :: "Config \<Rightarrow> micros" where
  "demo_budget cfg = FromFloat (f_div (of_int64 (DemoBudgetMinor cfg)) (Fin 100))"

text \<open>The demo tenant, its key and its budget, in every mode but Postgres.\<close>

definition bootstrap ::
  "'db Host \<Rightarrow> Config \<Rightarrow> 'db StoreState \<Rightarrow> Manager \<Rightarrow> Fatal + string option \<times> 'db StoreState \<times> Manager" where
  "bootstrap host cfg st rm =
     (if StoreMode cfg = StoreModePostgres then Inr (None, st, rm)
      else case CreateTenant (store_api (hostDb host)) (tenantDraw host) ''Demo Corp'' (DemoTenantSlug cfg) st of
             (Inl err, st) \<Rightarrow> Inl (FatalTenant err)
           | (Inr tenant, st) \<Rightarrow>
               (case CreateAPIKey (store_api (hostDb host)) (keyDraw host) (TntID tenant) (Some demo_scopes) st of
                  (Inl err, st) \<Rightarrow> Inl (FatalKey err)
                | (Inr (plaintextKey, _), st) \<Rightarrow>
                    Inr (Some plaintextKey, st, SetBudget (TntID tenant) (demo_budget cfg) rm)))"

definition boot_rate :: Rate where
  "boot_rate = \<lparr>RateProvider = ''demo-provider'', RateModel = ''demo-model'',
     InputPerUnit = FromFloat (of_rat64 (1 / 10000)), OutputPerUnit = FromFloat (of_rat64 (2 / 10000)),
     RequestFee = 0, Version = 1, EffectiveFrom = Unix 0 0, EffectiveUntil = 0\<rparr>"

definition boot_pricing :: Registry where
  "boot_pricing = AddRate boot_rate pricing_NewRegistry"

definition boot_providers :: "'db Host \<Rightarrow> Config \<Rightarrow> Fatal + ProviderRegistry" where
  "boot_providers host cfg =
     (let mock = NewMockProvider ''demo-provider'' None;
          provs = provider_NewRegistry
      in if UpstreamURL cfg \<noteq> [] then
           (case urlParse host (UpstreamURL cfg) of
              Inl err \<Rightarrow> Inl (FatalURL err)
            | Inr u \<Rightarrow>
                if Scheme u \<noteq> ''http'' \<and> Scheme u \<noteq> ''https'' then Inl (FatalScheme (Scheme u))
                else Inr (Register (Generic (NewGenericHTTP ''demo-provider'' (UpstreamURL cfg) [Host u])) provs))
         else Inr (Register (Mock mock) provs))"

definition boot_route :: RouteConfig where
  "boot_route = \<lparr>RCRoute = ''/agent/execute'', RCProvider = ''demo-provider'', RCModel = ''demo-model''\<rparr>"

definition gateway_main :: "'db Host \<Rightarrow> Fatal + 'db Running" where
  "gateway_main host =
     (case Load (hostEnv host) of
        Inl err \<Rightarrow> Inl (FatalConfig err)
      | Inr cfg \<Rightarrow>
          (case open_store host cfg of
             Inl err \<Rightarrow> Inl err
           | Inr st \<Rightarrow>
               (case bootstrap host cfg st NewManager of
                  Inl err \<Rightarrow> Inl err
                | Inr (plaintextKey, st, rm) \<Rightarrow>
                    (case boot_providers host cfg of
                       Inl err \<Rightarrow> Inl err
                     | Inr provs \<Rightarrow>
                         (let gw = gateway_New (NewEngine DefaultPolicy) rm boot_pricing provs ledger_New;
                              srv = NewServer gw st boot_route (CfgOperatorToken cfg);
                              srv = SetRateLimits (RateLimitIPPerSec cfg) (RateLimitIPBurst cfg)
                                      (RateLimitTenantPerSec cfg) (RateLimitTenantBurst cfg) srv
                          in Inr \<lparr>runServer = srv, runKey = plaintextKey, runConfig = cfg\<rparr>)))))"

section \<open>The demo price list\<close>

lemma boot_units: "InputPerUnit boot_rate = 100" "OutputPerUnit boot_rate = 200"
proof -
  have "FromFloat (of_rat64 (1 / 10000)) = 100" "FromFloat (of_rat64 (2 / 10000)) = 200" by code_simp+
  then show "InputPerUnit boot_rate = 100" "OutputPerUnit boot_rate = 200" by (simp_all add: boot_rate_def)
qed

lemma boot_estimate: "Estimate boot_rate 100 100 = 30000" "Estimate boot_rate 1 0 = 100"
  by (simp_all add: Estimate_def boot_units) (simp_all add: boot_rate_def)

lemma boot_RateAt: "RateAt boot_pricing p m t = Inr rate \<Longrightarrow> rate = boot_rate"
  by (auto simp: boot_pricing_def AddRate_def pricing_NewRegistry_def RateAt_def Let_def split: if_splits)

section \<open>What a start sets up\<close>

lemma gateway_main_cases:
  assumes "gateway_main host = Inr run"
  obtains st0 st rm provs where "Load (hostEnv host) = Inr (runConfig run)" "open_store host (runConfig run) = Inr st0"
    "bootstrap host (runConfig run) st0 NewManager = Inr (runKey run, st, rm)" "boot_providers host (runConfig run) = Inr provs"
    "runServer run = SetRateLimits (RateLimitIPPerSec (runConfig run)) (RateLimitIPBurst (runConfig run))
       (RateLimitTenantPerSec (runConfig run)) (RateLimitTenantBurst (runConfig run))
       (NewServer (gateway_New (NewEngine DefaultPolicy) rm boot_pricing provs ledger_New) st boot_route (CfgOperatorToken (runConfig run)))"
  using assms by (auto simp: gateway_main_def Let_def split: sum.splits)

lemma SetRateLimits_sel [simp]:
  "GW (SetRateLimits a b c d s) = GW s" "StoreSt (SetRateLimits a b c d s) = StoreSt s"
  "SRoute (SetRateLimits a b c d s) = SRoute s" "OperatorToken (SetRateLimits a b c d s) = OperatorToken s"
  by (simp_all add: SetRateLimits_def Let_def)

lemma NewServer_sel [simp]:
  "GW (NewServer g st rt tk) = g" "StoreSt (NewServer g st rt tk) = st" "SRoute (NewServer g st rt tk) = rt"
  "OperatorToken (NewServer g st rt tk) = tk"
  by (simp_all add: NewServer_def)

lemma gateway_New_sel [simp]:
  "GRisk (gateway_New e m pr ps l) = e" "GReserv (gateway_New e m pr ps l) = m" "GPricing (gateway_New e m pr ps l) = pr"
  "GProviders (gateway_New e m pr ps l) = ps" "GLedger (gateway_New e m pr ps l) = l"
  by (simp_all add: gateway_New_def)

text \<open>The demo tenant of memory mode: its key works at once, and its budget is the configured one.\<close>

lemma bootstrap_memory:
  assumes "bootstrap host cfg (MemorySt NewMemoryStore) NewManager = Inr (key, st, rm)" and "StoreMode cfg \<noteq> StoreModePostgres"
  shows "\<exists>pt tn. key = Some pt \<and> pt \<noteq> [] \<and> rm = SetBudget (TntID tn) (demo_budget cfg) NewManager \<and> Slug tn = DemoTenantSlug cfg
    \<and> (\<forall>e. \<exists>k. fst (Authenticate (store_api (hostDb host)) e pt st) = Inr (tn, k) \<and> Scopes k = Some demo_scopes)"
proof -
  let ?q = "hostDb host" and ?d = "tenantDraw host" and ?e = "keyDraw host"
  define tn where "tn = \<lparr>TntID = newID (dID ?d), TntName = ''Demo Corp'', Slug = DemoTenantSlug cfg, TntStatus = ''active'', TntCreatedAt = dNow ?d\<rparr>"
  define m where "m = NewMemoryStore\<lparr>mTenants := [TntID tn \<mapsto> tn], mSlugs := [DemoTenantSlug cfg \<mapsto> TntID tn]\<rparr>"
  have 1: "CreateTenant (store_api ?q) ?d ''Demo Corp'' (DemoTenantSlug cfg) (MemorySt NewMemoryStore) = (Inr tn, MemorySt m)"
    by (simp add: store_api_def on_store_def mem_CreateTenant_def NewMemoryStore_def Let_def tn_def m_def)
  obtain c st1 where c: "CreateAPIKey (store_api ?q) ?e (TntID tn) (Some demo_scopes) (MemorySt m) = (c, st1)" by fastforce
  obtain r m1 where r: "mem_CreateAPIKey (dRand ?e) (dID ?e) (dNow ?e) (TntID tn) (Some demo_scopes) m = (r, m1)" by fastforce
  then have rc: "c = r" "st1 = MemorySt m1" using c by (simp_all add: store_api_def on_store_def)
  from r show ?thesis
  proof (cases rule: CreateAPIKey_cases)
    case (fail err)
    then show ?thesis using assms c rc 1 by (simp add: bootstrap_def)
  next
    case (made buf tn' pt k)
    have "key = Some pt" "pt \<noteq> []" "rm = SetBudget (TntID tn) (demo_budget cfg) NewManager" "st = MemorySt m1"
      using assms c rc 1 made by (auto simp: bootstrap_def keyPrefix_def)
    moreover have "mTenants m1 (TntID tn) = Some tn" using made by (simp add: m_def)
    moreover have "\<exists>k'. fst (mem_Authenticate t pt m1) = Inr (tn, k') \<and> Scopes k' = Some demo_scopes" for t
      using made \<open>mTenants m1 (TntID tn) = Some tn\<close> by (simp add: mem_Authenticate_def auth_touch_def Let_def)
    ultimately show ?thesis
      by (intro exI [of _ pt] exI [of _ tn]) (auto simp: store_api_def on_store_def tn_def case_prod_unfold)
  qed
qed

lemma boot_memory:
  assumes "gateway_main host = Inr run" and "StoreMode (runConfig run) \<noteq> StoreModePostgres"
  obtains pt tn where "runKey run = Some pt" "pt \<noteq> []" "GReserv (GW (runServer run)) = SetBudget (TntID tn) (demo_budget (runConfig run)) NewManager"
    "\<And>e. \<exists>k. fst (Authenticate (store_api (hostDb host)) e pt (StoreSt (runServer run))) = Inr (tn, k) \<and> Scopes k = Some demo_scopes"
  using assms(1)
proof (cases rule: gateway_main_cases)
  case (1 st0 st rm provs)
  have "st0 = MemorySt NewMemoryStore" using 1(2) assms(2) by (simp add: open_store_def)
  from bootstrap_memory [OF 1(3) [unfolded this] assms(2)]
  obtain pt tn where "runKey run = Some pt" "pt \<noteq> []" "rm = SetBudget (TntID tn) (demo_budget (runConfig run)) NewManager"
    "\<forall>e. \<exists>k. fst (Authenticate (store_api (hostDb host)) e pt st) = Inr (tn, k) \<and> Scopes k = Some demo_scopes" by blast
  then show ?thesis using that 1(5) by simp
qed

section \<open>Properties\<close>

text \<open>
  C22: the process starts only in a sound state. If \<open>main\<close> gets to serve, the configuration was loaded
  and is acceptable. In Postgres mode no key is created or printed, no budget is set and the kill switch has
  an operator token of at least 32 characters; in memory mode the printed key authenticates at once, for the
  demo tenant and with its two scopes, and that tenant's limit is the configured budget.
\<close>

theorem start_is_sound:
  assumes "gateway_main host = Inr run" and "set (CheckOrder (hostEnv host)) = UNIV"
  shows "Load (hostEnv host) = Inr (runConfig run) \<and> well_configured (runConfig run)
    \<and> OperatorToken (runServer run) = CfgOperatorToken (runConfig run)
    \<and> (StoreMode (runConfig run) = StoreModePostgres \<longrightarrow>
        runKey run = None \<and> (\<exists>db. StoreSt (runServer run) = PostgresSt db) \<and> GReserv (GW (runServer run)) = NewManager
        \<and> 32 \<le> length (OperatorToken (runServer run)))
    \<and> (StoreMode (runConfig run) = StoreModeMemory \<longrightarrow>
        (\<exists>pt tn. runKey run = Some pt
          \<and> GReserv (GW (runServer run)) = SetBudget (TntID tn) (demo_budget (runConfig run)) NewManager
          \<and> (\<forall>e. \<exists>k. fst (Authenticate (store_api (hostDb host)) e pt (StoreSt (runServer run))) = Inr (tn, k)
               \<and> Scopes k = Some [''proxy:write'', ''read:exposure''])))"
  using assms(1)
proof (cases rule: gateway_main_cases)
  case (1 st0 st rm provs)
  have w: "well_configured (runConfig run)"
    using 1(1) Validate_None [OF assms(2)] by (auto simp: Load_def split: sum.splits option.splits)
  have srv: "GReserv (GW (runServer run)) = rm" "StoreSt (runServer run) = st" "OperatorToken (runServer run) = CfgOperatorToken (runConfig run)"
    by (simp_all add: 1(5))
  show ?thesis
  proof (cases "StoreMode (runConfig run) = StoreModePostgres")
    case True
    then obtain db where "st = PostgresSt db" using 1(2,3) by (auto simp: open_store_def bootstrap_def split: sum.splits)
    moreover have "runKey run = None" "rm = NewManager" using 1(3) True by (auto simp: bootstrap_def)
    moreover have "32 \<le> length (CfgOperatorToken (runConfig run))" using w True by (simp add: well_configured_def)
    ultimately show ?thesis using 1(1) w srv True by simp
  next
    case False
    from assms(1) this obtain pt tn where "runKey run = Some pt"
      "GReserv (GW (runServer run)) = SetBudget (TntID tn) (demo_budget (runConfig run)) NewManager"
      "\<And>e. \<exists>k. fst (Authenticate (store_api (hostDb host)) e pt (StoreSt (runServer run))) = Inr (tn, k) \<and> Scopes k = Some demo_scopes"
      by (rule boot_memory) blast
    then show ?thesis using 1(1) w srv(3) False unfolding demo_scopes_def by blast
  qed
qed

lemma running_upstream:
  assumes "gateway_main host = Inr run" and "UpstreamURL (runConfig run) \<noteq> []"
    and "provider_Get name (GProviders (GW (runServer run))) = Inr p"
  shows "\<exists>base. urlParse host (UpstreamURL (runConfig run)) = Inr base
    \<and> p = Generic (NewGenericHTTP ''demo-provider'' (UpstreamURL (runConfig run)) [Host base])"
  using assms(1)
proof (cases rule: gateway_main_cases)
  case (1 st0 st rm provs)
  obtain base where b: "urlParse host (UpstreamURL (runConfig run)) = Inr base"
    "provs = Register (Generic (NewGenericHTTP ''demo-provider'' (UpstreamURL (runConfig run)) [Host base])) provider_NewRegistry"
    using 1(4) assms(2) by (auto simp: boot_providers_def Let_def split: sum.splits if_splits)
  have "GProviders (GW (runServer run)) = provs" by (simp add: 1(5))
  then show ?thesis
    using assms(3) b by (auto simp: provider_Get_def Register_def provider_NewRegistry_def split: if_splits option.splits)
qed

definition demo_host :: "Environment \<Rightarrow> RefDb Host" where
  "demo_host env = \<lparr>hostEnv = env, hostDb = ref_q, sqlOpen = (\<lambda>dsn. Inl dsn), pingDb = (\<lambda>db. None),
     urlParse = (\<lambda>s. Inr \<lparr>Scheme = takeWhile (\<lambda>c. c \<noteq> CHR '':'') s, HasUser = False, Host = authority s\<rparr>),
     tenantDraw = \<lparr>dRand = Inl [], dID = replicate 16 (CHR ''a''), dNow = 5, dOrder = []\<rparr>, keyDraw = demo_draw []\<rparr>"

lemma bootstrap_succeeds:
  assumes "StoreMode cfg = StoreModeMemory"
  shows "\<exists>key st rm. bootstrap (demo_host env) cfg (MemorySt NewMemoryStore) NewManager = Inr (key, st, rm)"
  using assms
  by (simp add: bootstrap_def demo_host_def store_api_def on_store_def mem_CreateTenant_def NewMemoryStore_def Let_def demo_draw_def
      mem_CreateAPIKey_def generatePlaintextKey_def)

lemma demo_host_starts:
  assumes "Load env = Inr cfg" and "StoreMode cfg = StoreModeMemory" and "boot_providers (demo_host env) cfg = Inr provs"
  shows "\<exists>run. gateway_main (demo_host env) = Inr run \<and> runConfig run = cfg \<and> GProviders (GW (runServer run)) = provs"
proof -
  obtain key st rm where "bootstrap (demo_host env) cfg (MemorySt NewMemoryStore) NewManager = Inr (key, st, rm)"
    using bootstrap_succeeds [OF assms(2)] by blast
  moreover have "open_store (demo_host env) cfg = Inr (MemorySt NewMemoryStore)" using assms(2) by (simp add: open_store_def)
  moreover have "hostEnv (demo_host env) = env" by (simp add: demo_host_def)
  ultimately show ?thesis using assms by (simp add: gateway_main_def Let_def)
qed

lemma bare_providers: "boot_providers (demo_host bare_env) (initial_config bare_env) = Inr (Register (Mock (NewMockProvider ''demo-provider'' None)) provider_NewRegistry)"
  by (simp add: boot_providers_def Let_def initial_config_def bare_env_def)

theorem start_is_sound_witness:
  "\<exists>run pt tn. gateway_main (demo_host bare_env) = Inr run \<and> runKey run = Some pt
     \<and> (\<forall>e. \<exists>k. fst (Authenticate (store_api ref_q) e pt (StoreSt (runServer run))) = Inr (tn, k))"
proof -
  obtain run where run: "gateway_main (demo_host bare_env) = Inr run" "runConfig run = initial_config bare_env"
    using demo_host_starts [OF bare_load quiet_memory [OF bare_quiet] bare_providers] by blast
  have "set (CheckOrder (hostEnv (demo_host bare_env))) = UNIV" unfolding UNIV_RateVar by (auto simp: demo_host_def bare_env_def)
  from start_is_sound [OF run(1) this] obtain pt tn where "runKey run = Some pt"
    "\<And>e. \<exists>k. fst (Authenticate (store_api (hostDb (demo_host bare_env))) e pt (StoreSt (runServer run))) = Inr (tn, k)"
    using run(2) quiet_memory [OF bare_quiet] by metis
  moreover have "hostDb (demo_host bare_env) = ref_q" by (simp add: demo_host_def)
  ultimately show ?thesis using run(1) by (intro exI [of _ run] exI [of _ pt] exI [of _ tn]) simp
qed

text \<open>
  C25: real traffic reaches only the configured upstream. With \<open>VG_UPSTREAM_URL\<close> set, take any provider
  of the running registry and any request it executes, whatever method, path, query, headers or
  body the client sent, and whatever the upstream answers, redirects included. At most one request
  leaves the process. Its target is the configured URL without trailing slashes followed by the
  client's path (with a slash put before it if it has none), and that target parses to the host of
  the configured URL, over http or https and without credentials. A response the provider returns
  has the status, the body and the filtered headers of the answer to that request.
\<close>

theorem upstream_confined:
  assumes "gateway_main host = Inr run" and "UpstreamURL (runConfig run) \<noteq> []"
    and "provider_Get name (GProviders (GW (runServer run))) = Inr p"
  shows "length (provider_Sent net p x) \<le> 1
    \<and> (\<forall>q \<in> set (provider_Sent net p x).
        HTarget q = trim_right_slash (UpstreamURL (runConfig run))
          @ (if ReqPath x = [] \<or> hd (ReqPath x) = CHR ''/'' then ReqPath x else CHR ''/'' # ReqPath x)
      \<and> (\<exists>base url. urlParse host (UpstreamURL (runConfig run)) = Inr base
           \<and> parse_request net (HMethod q) (HTarget q) = Inr url
           \<and> Host url = Host base \<and> Scheme url \<in> {''http'', ''https''} \<and> \<not> HasUser url))
    \<and> (\<forall>resp u. provider_Execute net p x = Inr (resp, u) \<longrightarrow>
        (\<exists>q answer. provider_Sent net p x = [q] \<and> round_trip net (30 * Second) [] q = Inr answer
          \<and> StatusCode resp = HStatus answer \<and> Body resp = HStream answer
          \<and> Headers resp = FilterHopByHopHeaders (HRespHeader answer)))"
proof -
  obtain base where b: "urlParse host (UpstreamURL (runConfig run)) = Inr base"
    "p = Generic (NewGenericHTTP ''demo-provider'' (UpstreamURL (runConfig run)) [Host base])"
    using running_upstream [OF assms] by blast
  have p: "provider_Sent net p x
      = snd (http_Exchange net (NewGenericHTTP ''demo-provider'' (UpstreamURL (runConfig run)) [Host base]) x)"
    by (simp add: b(2))
  have "HTarget q = trim_right_slash (UpstreamURL (runConfig run))
          @ (if ReqPath x = [] \<or> hd (ReqPath x) = CHR ''/'' then ReqPath x else CHR ''/'' # ReqPath x)
      \<and> (\<exists>base url. urlParse host (UpstreamURL (runConfig run)) = Inr base
           \<and> parse_request net (HMethod q) (HTarget q) = Inr url
           \<and> Host url = Host base \<and> Scheme url \<in> {''http'', ''https''} \<and> \<not> HasUser url)"
    if q: "q \<in> set (provider_Sent net p x)" for q
    using http_sent [OF q [unfolded p]] b(1) by (auto simp: upstream_target_def Let_def)
  then show ?thesis
    using http_answered http_sent_once unfolding p unfolding b(2) provider_Execute.simps by blast
qed

definition proxy_env :: Environment where
  "proxy_env = bare_env\<lparr>Getenv := (\<lambda>k. if k = ''VG_UPSTREAM_URL'' then ''http://up'' else [])\<rparr>"

text \<open>An upstream that answers every request with a redirect to another host.\<close>

definition evil_request :: ExecRequest where
  "evil_request = \<lparr>ReqMethod = ''GET'', ReqURL = ''http://evil.example/'', ReqPath = ''/@evil.example/'', ReqHeaders = Map.empty, ReqBody = []\<rparr>"

definition bouncing_net :: Net where
  "bouncing_net = demo_net\<lparr>round_trip := (\<lambda>t via q. Inr \<lparr>HStatus = 302, HRespHeader = [''Location'' \<mapsto> [''http://evil.example/'']], HStream = [], HStreamErr = None\<rparr>),
     next_request := (\<lambda>via resp. Some (Inr \<lparr>HMethod = ''GET'', HTarget = ''http://evil.example/'', HHeader = Map.empty, HBody = []\<rparr>))\<rparr>"

theorem upstream_confined_witness:
  "\<exists>run p q url. gateway_main (demo_host proxy_env) = Inr run
     \<and> provider_Get ''demo-provider'' (GProviders (GW (runServer run))) = Inr p
     \<and> provider_Sent bouncing_net p evil_request = [q] \<and> HTarget q = ''http://up/@evil.example/''
     \<and> parse_request bouncing_net (HMethod q) (HTarget q) = Inr url \<and> Host url = ''up''"
proof -
  let ?p = "NewGenericHTTP ''demo-provider'' ''http://up'' [''up'']"
  have q: "quiet proxy_env" using bare_quiet by (auto simp: quiet_def proxy_env_def)
  have "Load proxy_env = Inr (initial_config proxy_env)"
  proof -
    have "Getenv proxy_env (rate_env v) = []" for v by (cases v) (simp_all add: proxy_env_def)
    then show ?thesis using quiet_load [OF q, of "\<lambda>v. rate_of v (initial_config proxy_env)"] rate_default
      by (simp add: rate_value_def)
  qed
  moreover have b: "authority ''http://up'' = ''up''" "takeWhile (\<lambda>c. c \<noteq> CHR '':'') ''http://up'' = ''http''" by code_simp+
  then have "boot_providers (demo_host proxy_env) (initial_config proxy_env) = Inr (Register (Generic ?p) provider_NewRegistry)"
    by (simp add: boot_providers_def Let_def initial_config_def proxy_env_def demo_host_def)
  ultimately obtain run where run: "gateway_main (demo_host proxy_env) = Inr run" "runConfig run = initial_config proxy_env"
    "GProviders (GW (runServer run)) = Register (Generic ?p) provider_NewRegistry"
    using demo_host_starts quiet_memory [OF q] by blast
  have u: "UpstreamURL (runConfig run) = ''http://up''" by (simp add: run initial_config_def proxy_env_def)
  have g: "provider_Get ''demo-provider'' (GProviders (GW (runServer run))) = Inr (Generic ?p)"
    by (simp add: run provider_Get_def Register_def NewGenericHTTP_def)
  have "\<exists>resp us. provider_Execute bouncing_net (Generic ?p) evil_request = Inr (resp, us)"
    by (simp add: http_Execute_def http_Exchange_def client_Do_def client_loop.simps NewGenericHTTP_def bouncing_net_def evil_request_def
        demo_net_def upstream_target_def trim_right_slash_def Let_def
        authority_def after_scheme_def read_limited_def MaxUpstreamRequestBytes_def MaxUpstreamResponseBytes_def)
  then obtain resp us where x: "provider_Execute bouncing_net (Generic ?p) evil_request = Inr (resp, us)" by blast
  have nz: "UpstreamURL (runConfig run) \<noteq> []" by (simp add: u)
  note confined = upstream_confined [OF run(1) nz g, of bouncing_net evil_request, unfolded u]
  from confined x obtain q where q: "provider_Sent bouncing_net (Generic ?p) evil_request = [q]" by blast
  from confined q b obtain url where "HTarget q = ''http://up'' @ ''/@evil.example/''"
    "parse_request bouncing_net (HMethod q) (HTarget q) = Inr url" "Host url = ''up''"
    by (auto simp: evil_request_def demo_host_def trim_right_slash_def)
  then show ?thesis using run(1) g q by auto
qed

text \<open>
  A rate limit that is not a number switches the limiter off. \<open>Validate\<close> only refuses limits
  below zero, and the check of \<open>SetRateLimits\<close> that both numbers are positive is then false, so a server
  configured with \<open>NaN\<close> starts and admits every request at its door.
\<close>

theorem nan_rate_disables_limiter:
  assumes "gateway_main host = Inr run" and "RateLimitIPPerSec (runConfig run) = NaN \<or> RateLimitIPBurst (runConfig run) = NaN"
  shows "ipLimiter (runServer run) = None \<and> fst (allow now key (ipLimiter (runServer run)))"
  using assms(1)
proof (cases rule: gateway_main_cases)
  case (1 st0 st rm provs)
  then have "ipLimiter (runServer run) = None" using assms(2) by (auto simp: SetRateLimits_def NewServer_def Let_def)
  then show ?thesis by (simp add: allow_def)
qed

definition nan_env :: Environment where
  "nan_env = bare_env\<lparr>Getenv := (\<lambda>k. if k = ''VG_RATE_LIMIT_IP_RPS'' then ''NaN'' else []), ParseFloat := (\<lambda>s. Inr NaN)\<rparr>"

theorem nan_rate_disables_limiter_witness:
  "\<exists>run. gateway_main (demo_host nan_env) = Inr run \<and> RateLimitIPPerSec (runConfig run) = NaN \<and> ipLimiter (runServer run) = None"
proof -
  let ?r = "\<lambda>v. if v = IPRPS then NaN else rate_of v (initial_config nan_env)"
  have q: "quiet nan_env" using bare_quiet by (auto simp: quiet_def nan_env_def range_rate_env)
  have "Load nan_env = Inr (with_rates ?r (initial_config nan_env))"
  proof (rule quiet_load [OF q])
    show "rate_value nan_env (initial_config nan_env) v = Some (?r v)" for v
      by (cases v) (simp_all add: rate_value_def nan_env_def)
    show "\<not> f_lt (?r v) (Fin 0)" for v using rate_default by simp
  qed
  moreover have "boot_providers (demo_host nan_env) (with_rates ?r (initial_config nan_env))
      = Inr (Register (Mock (NewMockProvider ''demo-provider'' None)) provider_NewRegistry)"
    by (simp add: boot_providers_def Let_def initial_config_def nan_env_def with_rates_def)
  ultimately obtain run where run: "gateway_main (demo_host nan_env) = Inr run" "runConfig run = with_rates ?r (initial_config nan_env)"
    using demo_host_starts quiet_memory [OF q] by fastforce
  then have n: "RateLimitIPPerSec (runConfig run) = NaN" by (simp add: with_rates_def)
  from nan_rate_disables_limiter [OF run(1), of 0 "''ip''"] n run(1) show ?thesis by auto
qed

end
