(* ===== verification/Deployment.thy ===== *)
theory Deployment
  imports Gateway_Main Score
begin

text \<open>
  The running process: what \<open>main\<close> has set up (\<open>Gateway_Main\<close>), served by \<open>ServeHTTP\<close> (\<open>Httpapi\<close>)
  request after request, while the sweepers of the two limiters tick and other clients of the control
  plane change the store. The prices, the provider and the budgets are those of \<open>main\<close>, so what a
  request can cost is bounded by what was reserved for it, with no assumption on the upstream.
\<close>

section \<open>What a request keeps\<close>

lemma reconcile_stage_keeps:
  "reconcile_stage clk c rate d resp usage g = (res, g') \<Longrightarrow> GPricing g' = GPricing g \<and> GProviders g' = GProviders g"
  by (auto simp: reconcile_stage_def Let_def split: prod.splits sum.splits)

lemma execute_stage_keeps:
  "execute_stage net clk c x rate d g = (res, g') \<Longrightarrow> GPricing g' = GPricing g \<and> GProviders g' = GProviders g"
  by (auto simp: execute_stage_def Let_def give_back_def split: sum.splits dest!: reconcile_stage_keeps)

lemma dispatch_keeps:
  "dispatch net clk c x rate est d g = (res, g') \<Longrightarrow> GPricing g' = GPricing g \<and> GProviders g' = GProviders g"
  by (auto simp: dispatch_def split: if_splits dest!: execute_stage_keeps)

lemma HandleRequest_keeps:
  assumes "HandleRequest net clk c x ni no n g = (res, g')"
  shows "GPricing g' = GPricing g \<and> GProviders g' = GProviders g"
  using assms by (auto simp: HandleRequest_def Let_def split: sum.splits prod.splits dest!: dispatch_keeps)

text \<open>An executed request was priced, and its cost is the price of the usage the provider reported.\<close>

definition bills :: "Net \<Rightarrow> ProviderRegistry \<Rightarrow> string \<Rightarrow> ExecRequest \<Rightarrow> Rate \<Rightarrow> micros \<Rightarrow> bool" where
  "bills net ps name x rate cost \<longleftrightarrow>
     (\<exists>p resp u. provider_Get name ps = Inr p \<and> provider_Execute net p x = Inr (resp, u)
        \<and> cost = Estimate rate (InputUnits u) (OutputUnits u))"

lemma execute_stage_bills:
  assumes "execute_stage net clk c x rate d g = (res, g')" and "Executed res"
  shows "bills net (GProviders g) (RCProvider (CallRoute c)) x rate (ResultCost res)"
proof -
  obtain p where p: "provider_Get (RCProvider (CallRoute c)) (GProviders g) = Inr p"
    using assms by (cases "provider_Get (RCProvider (CallRoute c)) (GProviders g)") (auto simp: execute_stage_def result0_def)
  obtain resp u where u: "provider_Execute net p x = Inr (resp, u)"
    using assms p by (cases "provider_Execute net p x") (auto simp: execute_stage_def result0_def)
  have "reconcile_stage clk c rate d resp u (emit (clk 32) (routed c (ev RequestExecuted c)) g) = (res, g')"
    using assms(1) p u by (simp add: execute_stage_def)
  from reconcile_stage_reserv(2) [OF this] p u show ?thesis unfolding bills_def by blast
qed

lemma dispatch_bills:
  assumes "dispatch net clk c x rate est d g = (res, g')" and "Executed res"
  shows "bills net (GProviders g) (RCProvider (CallRoute c)) x rate (ResultCost res)"
  using assms by (auto simp: dispatch_def result0_def split: if_splits dest!: execute_stage_bills)

lemma HandleRequest_bills:
  assumes "HandleRequest net clk c x ni no n g = (res, g')" and "Executed res"
    and "RateAt (GPricing g) (RCProvider (CallRoute c)) (RCModel (CallRoute c)) (clk 0) = Inr rate"
  shows "bills net (GProviders g) (RCProvider (CallRoute c)) x rate (ResultCost res)"
  using assms by (auto simp: HandleRequest_def Let_def split: prod.splits dest!: dispatch_bills)

section \<open>The demo providers stay within the estimate\<close>

definition booted :: "ProviderRegistry \<Rightarrow> bool" where
  "booted ps \<longleftrightarrow> (\<forall>name p. provider_Get name ps = Inr p \<longrightarrow>
     (\<exists>n. p = Mock (NewMockProvider n None)) \<or> (\<exists>h. p = Generic h))"

lemma boot_booted: "boot_providers host cfg = Inr ps \<Longrightarrow> booted ps"
  by (auto simp: boot_providers_def booted_def provider_Get_def Register_def provider_NewRegistry_def Let_def
      split: if_splits sum.splits option.splits)

lemma booted_usage:
  assumes "booted ps" and "provider_Get name ps = Inr p" and "provider_Execute net p x = Inr (resp, u)"
  shows "Estimate boot_rate (InputUnits u) (OutputUnits u) \<in> {100, 30000}"
proof -
  have "u = \<lparr>InputUnits = 100, OutputUnits = 100\<rparr> \<or> u = \<lparr>InputUnits = 1, OutputUnits = 0\<rparr>"
  proof -
    from assms(1,2) consider n where "p = Mock (NewMockProvider n None)" | h where "p = Generic h" unfolding booted_def by blast
    then show ?thesis using assms(3)
      by cases (auto simp: mock_Execute_def NewMockProvider_def Let_def elim: http_Execute_cases)
  qed
  then show ?thesis using boot_estimate by auto
qed

lemma booted_within:
  assumes "HandleRequest net clk c x 100 100 n g = (res, g')" and "GPricing g = boot_pricing" and "booted (GProviders g)"
    and "RateAt (GPricing g) (RCProvider (CallRoute c)) (RCModel (CallRoute c)) (clk 0) = Inr rate"
  shows "rate = boot_rate" and "within_estimate rate 100 100 res"
proof -
  show r: "rate = boot_rate" using assms(2,4) boot_RateAt by simp
  have "Executed res \<Longrightarrow> ResultCost res \<in> {100, 30000}"
    using HandleRequest_bills [OF assms(1) _ assms(4)] booted_usage [OF assms(3)] unfolding r bills_def by metis
  then show "within_estimate rate 100 100 res" by (auto simp: within_estimate_def r boot_estimate)
qed

section \<open>The running process\<close>

inductive deployment :: "'db Host \<Rightarrow> 'db Running \<Rightarrow> 'db StoreState Server \<Rightarrow> bool" for host run where
  deployment_start: "gateway_main host = Inr run \<Longrightarrow> deployment host run (runServer run)"
| deployment_request: "deployment host run s \<Longrightarrow> api w = store_api (hostDb host) \<Longrightarrow>
    unat (idCounter (GReserv (GW s))) < 2 ^ 64 - 1 \<Longrightarrow> ServeHTTP w r s = (reply, s') \<Longrightarrow> deployment host run s'"
| deployment_sweep_ip: "deployment host run s \<Longrightarrow> deployment host run (s\<lparr>ipLimiter := map_option (sweep now order) (ipLimiter s)\<rparr>)"
| deployment_sweep_tenant: "deployment host run s \<Longrightarrow>
    deployment host run (s\<lparr>tenantLimiter := map_option (sweep now order) (tenantLimiter s)\<rparr>)"
| deployment_store: "deployment host run s \<Longrightarrow> deployment host run (s\<lparr>StoreSt := st\<rparr>)"

text \<open>
  What every state of the process keeps: the books balance, the limits are those of the start, and the
  prices, the provider and the route are those of \<open>main\<close>.
\<close>

definition in_service :: "(string \<Rightarrow> int) \<Rightarrow> Gateway \<Rightarrow> bool" where
  "in_service lims g \<longleftrightarrow> solvent (GReserv g) \<and> aLimit (view (GReserv g)) = lims \<and> GPricing g = boot_pricing \<and> booted (GProviders g)"

lemma a_reserve_limit: "a_reserve k t a b = Some b' \<Longrightarrow> aLimit b' = aLimit b"
  by (auto simp: a_reserve_def split: if_splits)

lemma HandleRequest_limits:
  assumes h: "HandleRequest net clk c x 100 100 n g = (res, g')" and i: "in_service lims g"
    and cnt: "unat (idCounter (GReserv g)) < 2 ^ 64 - 1"
  shows "aLimit (view (GReserv g')) = lims"
proof (cases "RateAt (GPricing g) (RCProvider (CallRoute c)) (RCModel (CallRoute c)) (clk 0)")
  case (Inl err)
  then have "GReserv g' = GReserv g" using h by (auto simp: HandleRequest_def)
  then show ?thesis using i by (simp add: in_service_def)
next
  case (Inr rate)
  have s: "solvent (GReserv g)" and p: "GPricing g = boot_pricing" "booted (GProviders g)" and l: "aLimit (view (GReserv g)) = lims"
    using i by (simp_all add: in_service_def)
  note w = booted_within [OF h p Inr]
  have "can_reserve (GReserv g) (Estimate rate 100 100)" using cnt by (simp add: can_reserve_def w(1) boot_estimate)
  with h s Inr show ?thesis
  proof (cases rule: HandleRequest_budget)
    case (refused d)
    then show ?thesis using l by (simp only: refused)
  next
    case (throttled d)
    from a_reserve_limit [OF throttled(4)] l show ?thesis by (simp only:)
  next
    case (failed d)
    then show ?thesis using l by (simp only: failed)
  next
    case (executed d)
    have "0 \<le> sint (ResultCost res) \<and> sint (ResultCost res) \<le> sint (Estimate rate 100 100)"
      using executed(3) w(2) by (simp add: within_estimate_def)
    from arg_cong [OF executed(6) [OF this], of aLimit] l show ?thesis by (simp del: view_sel)
  qed
qed

lemma HandleRequest_in_service:
  assumes h: "HandleRequest net clk c x 100 100 n g = (res, g')" and i: "in_service lims g"
    and cnt: "unat (idCounter (GReserv g)) < 2 ^ 64 - 1"
  shows "in_service lims g'"
proof -
  have "solvent (GReserv g')"
    using i booted_within(2) [OF h] by (intro HandleRequest_solvent [OF h _ cnt]) (simp_all add: in_service_def)
  with HandleRequest_limits [OF h i cnt] HandleRequest_keeps [OF h] i show ?thesis by (simp add: in_service_def)
qed

lemma in_service_upd [simp]:
  "in_service lims (g\<lparr>GRisk := e\<rparr>) = in_service lims g" "in_service lims (emit now evt g) = in_service lims g"
  by (simp_all add: in_service_def emit_def)

lemma in_service_Exposure:
  assumes "in_service lims g" and "Exposure_of t (GReserv g) = (e, m)"
  shows "in_service lims (g\<lparr>GReserv := m\<rparr>)"
proof -
  have m: "m = snd (getAccount t (GReserv g))" using assms(2) by (auto simp: Exposure_of_def split: prod.splits)
  then have "aLimit (view m) = aLimit (view (GReserv g))" by auto
  then show ?thesis using assms(1) solvent_getAccount m by (auto simp: in_service_def)
qed

lemma handler_in_service:
  assumes "handler w route r t s = (reply, s')" and "in_service lims (GW s)" and "unat (idCounter (GReserv (GW s))) < 2 ^ 64 - 1"
  shows "in_service lims (GW s')"
proof (cases route)
  case RExposure
  then show ?thesis using assms(1,2) by (auto simp: handleExposure_def Let_def in_service_Exposure split: prod.splits)
next
  case RProxy
  then show ?thesis using assms
    by (auto simp: handleProxy_def Let_def split: option.splits prod.splits dest: HandleRequest_in_service)
qed (use assms in \<open>auto simp: handleKillSwitch_def Let_def split: if_splits sum.splits option.splits\<close>)

lemma routes_in_service:
  assumes "routes w route r s = (reply, s')" and "in_service lims (GW s)" and "unat (idCounter (GReserv (GW s))) < 2 ^ 64 - 1"
  shows "in_service lims (GW s')"
proof (cases "scope_of route")
  case None
  then show ?thesis using assms handler_in_service [of w RKillSwitch r _ s reply s' lims]
    by (cases route) (auto split: option.splits)
next
  case (Some scope)
  have a: "in_service lims (audited w scope r tn k (GW s))" for tn k using assms(2) by (simp add: audited_def)
  from assms(1) Some show ?thesis
  proof (cases rule: protected_cases)
    case (served pt tn k st l)
    from handler_in_service [OF served(3)] a assms(3) show ?thesis by simp
  qed (use assms(2) a in simp_all)
qed

lemma ServeHTTP_in_service:
  assumes "ServeHTTP w r s = (reply, s')" and "in_service lims (GW s)" and "unat (idCounter (GReserv (GW s))) < 2 ^ 64 - 1"
  shows "in_service lims (GW s')"
  using assms(1)
proof (cases rule: ServeHTTP_cases)
  case (routed l route)
  from routes_in_service [OF routed(2)] assms(2,3) show ?thesis by simp
qed (use assms(2) in simp)

lemma deployment_in_service:
  assumes "deployment host run s" and "in_service lims (GW (runServer run))"
  shows "in_service lims (GW s)"
  using assms by (induction rule: deployment.induct) (auto intro: ServeHTTP_in_service)

section \<open>The budgets of the start\<close>

lemma rnd_bounds: "0 \<le> x \<Longrightarrow> x \<le> 2 ^ k \<Longrightarrow> 0 \<le> rnd x \<and> rnd x \<le> 2 ^ k"
  using rnd_abs_le_powi [of x "int k"] rnd_nonneg [of x] by (simp add: power_int_def)

lemma demo_budget_nonneg:
  assumes "0 \<le> sint (DemoBudgetMinor cfg)" and "sint (DemoBudgetMinor cfg) \<le> 10 ^ 14"
  shows "0 \<le> sint (demo_budget cfg)"
proof -
  let ?n = "sint (DemoBudgetMinor cfg)"
  define a b c where "a = rnd (of_int ?n)" and "b = rnd (a / 100)" and "c = rnd (b * 1000000)"
  have "a = of_int ?n" unfolding a_def using assms by (intro rnd_of_int) simp
  moreover have "(of_int ?n :: rat) \<le> 10 ^ 14" using assms(2) by (metis of_int_le_iff of_int_numeral of_int_power)
  ultimately have a: "0 \<le> a / 100" "a / 100 \<le> 2 ^ 40" using assms(1) by simp_all
  from rnd_bounds [OF this] have b: "0 \<le> b * 1000000" "b * 1000000 \<le> 2 ^ 62" unfolding b_def by simp_all
  from rnd_bounds [OF this] have c: "0 \<le> c" "c \<le> 2 ^ 62" unfolding c_def by simp_all
  have "f_div (of_int64 (DemoBudgetMinor cfg)) (Fin 100) = Fin b"
    using a by (simp add: of_int64_Fin b_def a_def [symmetric] of_rat64_small)
  moreover have "f_mul (Fin b) (Fin 1000000) = Fin c" using b by (simp add: c_def of_rat64_small)
  moreover have t: "0 \<le> \<lfloor>c\<rfloor>" "\<lfloor>c\<rfloor> \<le> 2 ^ 62" using c by (simp_all add: floor_le_iff)
  moreover have "in_int64 \<lfloor>c\<rfloor>" using t by (simp add: in_int64_def)
  ultimately have "sint (demo_budget cfg) = \<lfloor>c\<rfloor>"
    using c(1) sint_of_int_int64 [of "\<lfloor>c\<rfloor>"] by (simp add: demo_budget_def FromFloat_def trunc_def)
  with t show ?thesis by simp
qed

definition boot_limits :: "'db Running \<Rightarrow> string \<Rightarrow> int" where
  "boot_limits run = aLimit (view (GReserv (GW (runServer run))))"

lemma boot_limits_postgres:
  assumes "gateway_main host = Inr run" and "StoreMode (runConfig run) = StoreModePostgres"
  shows "GReserv (GW (runServer run)) = NewManager" and "boot_limits run = (\<lambda>t. 0)"
proof -
  from assms(1) show "GReserv (GW (runServer run)) = NewManager"
    by (cases rule: gateway_main_cases) (use assms(2) in \<open>simp add: bootstrap_def\<close>)
  then show "boot_limits run = (\<lambda>t. 0)" by (simp add: boot_limits_def fun_eq_iff acc_of_def NewManager_def account0_def)
qed

lemma Load_budget_nonneg: "Load env = Inr cfg \<Longrightarrow> 0 \<le> sint (DemoBudgetMinor cfg)"
  by (auto simp: Load_def Validate_def word_sless_alt split: sum.splits option.splits if_splits)

lemma boot_in_service:
  assumes "gateway_main host = Inr run" and "sint (DemoBudgetMinor (runConfig run)) \<le> 10 ^ 14"
  shows "in_service (boot_limits run) (GW (runServer run))"
proof -
  have "solvent (GReserv (GW (runServer run)))"
  proof (cases "StoreMode (runConfig run) = StoreModePostgres")
    case True
    then show ?thesis using boot_limits_postgres(1) [OF assms(1)] solvent_New by simp
  next
    case False
    have "Load (hostEnv host) = Inr (runConfig run)" using assms(1) by (cases rule: gateway_main_cases) blast
    then have "fair (OpSetBudget t (demo_budget (runConfig run))) NewManager" for t
      using demo_budget_nonneg Load_budget_nonneg assms(2) by (simp add: NewManager_def)
    moreover obtain tn :: Tenant where "GReserv (GW (runServer run)) = SetBudget (TntID tn) (demo_budget (runConfig run)) NewManager"
      by (rule boot_memory [OF assms(1) False]) blast
    ultimately show ?thesis using solvent_SetBudget [OF solvent_New] by simp
  qed
  moreover have "GPricing (GW (runServer run)) = boot_pricing \<and> booted (GProviders (GW (runServer run)))"
    using assms(1) by (cases rule: gateway_main_cases) (auto intro: boot_booted)
  ultimately show ?thesis by (simp add: in_service_def boot_limits_def)
qed

lemma new_limits: "aLimit (view (SetBudget u l NewManager)) t = (if t = u then sint l else 0)"
  by (simp add: acc_of_def SetBudget_def put_account_def NewManager_def account0_def)

lemma boot_limits_values:
  assumes "gateway_main host = Inr run"
  shows "boot_limits run t \<in> {0, sint (demo_budget (runConfig run))}"
proof (cases "StoreMode (runConfig run) = StoreModePostgres")
  case True
  then show ?thesis using boot_limits_postgres(2) [OF assms] by simp
next
  case False
  obtain tn :: Tenant where "GReserv (GW (runServer run)) = SetBudget (TntID tn) (demo_budget (runConfig run)) NewManager"
    by (rule boot_memory [OF assms False]) blast
  from arg_cong [OF this, of "\<lambda>m. aLimit (view m) t"] show ?thesis unfolding boot_limits_def new_limits by (simp del: view_sel split: if_splits)
qed

lemma deployment_started: "deployment host run s \<Longrightarrow> gateway_main host = Inr run"
  by (induction rule: deployment.induct) auto

lemma spent_within:
  assumes "in_service lims g"
  shows "0 \<le> aSpent (view (GReserv g)) t \<and> aSpent (view (GReserv g)) t \<le> lims t"
  using assms solvent_acc_of [of "GReserv g" t] by (auto simp: in_service_def within_limit_def)

text \<open>A tenant without a limit gets nothing executed.\<close>

lemma no_limit_no_execution:
  assumes h: "HandleRequest net clk c x 100 100 n g = (res, g')" and i: "in_service lims g"
    and cnt: "unat (idCounter (GReserv g)) < 2 ^ 64 - 1" and l: "lims (CallTenant c) = 0"
  shows "\<not> Executed res"
proof
  assume ex: "Executed res"
  have s: "solvent (GReserv g)" and p: "GPricing g = boot_pricing" "booted (GProviders g)"
    using i by (simp_all add: in_service_def)
  obtain rate where r: "RateAt (GPricing g) (RCProvider (CallRoute c)) (RCModel (CallRoute c)) (clk 0) = Inr rate"
    using h ex by (cases "RateAt (GPricing g) (RCProvider (CallRoute c)) (RCModel (CallRoute c)) (clk 0)")
      (auto simp: HandleRequest_def result0_def)
  note w = booted_within [OF h p r]
  have c: "sint (ResultCost res) \<in> {100, 30000}" and b: "0 \<le> sint (ResultCost res) \<and> sint (ResultCost res) \<le> sint (Estimate rate 100 100)"
    using ex w(2) HandleRequest_bills [OF h ex r] booted_usage [OF p(2)] unfolding w(1) bills_def within_estimate_def
    by (fastforce, simp)
  have "can_reserve (GReserv g) (Estimate rate 100 100)" using cnt by (simp add: can_reserve_def w(1) boot_estimate)
  with h s r have "view (GReserv g') = (view (GReserv g))\<lparr>aSpent := (aSpent (view (GReserv g)))
        (CallTenant c := aSpent (view (GReserv g)) (CallTenant c) + sint (ResultCost res))\<rparr>"
    by (cases rule: HandleRequest_budget) (use ex b in blast)+
  from arg_cong [OF this, of "\<lambda>b. aSpent b (CallTenant c)"]
  have "aSpent (view (GReserv g')) (CallTenant c) = aSpent (view (GReserv g)) (CallTenant c) + sint (ResultCost res)"
    by (simp del: view_sel)
  with spent_within [OF i, of "CallTenant c"] spent_within [OF HandleRequest_in_service [OF h i cnt], of "CallTenant c"] c l
  show False by auto
qed

section \<open>The first request of the demo tenant\<close>

lemma HandleRequest_executes:
  assumes "HandleRequest net clk c x ni no n g = (res, g')"
    and "RateAt (GPricing g) (RCProvider (CallRoute c)) (RCModel (CallRoute c)) (clk 0) = Inr rate"
    and "provider_Get (RCProvider (CallRoute c)) (GProviders g) = Inr p" and "provider_Execute net p x = Inr ru"
    and "ResultDecision res = Some d" and "DAction d = ActionAllow"
  shows "Executed res"
proof -
  obtain d' e m where ev: "Evaluate (clock_from 3 clk) \<lparr>ReqTenant = CallTenant c, ReqRoute = RCRoute (CallRoute c),
      ReqProvider = RCProvider (CallRoute c), ReqEstimate = Estimate rate ni no, ReqConcurrency = n\<rparr> (GRisk g) (GReserv g) = (d', e, m)"
    by (metis prod_cases3)
  obtain g1 where d: "dispatch net clk c x rate (Estimate rate ni no) d' g1 = (res, g')" and ps: "GProviders g1 = GProviders g"
    using assms(1,2) ev by (auto simp: HandleRequest_def Let_def)
  have "d' = d" using dispatch_trail [OF d] assms(5) by simp
  with d assms(6) obtain g2 where e: "execute_stage net clk c x rate d g2 = (res, g')" and "GProviders g2 = GProviders g"
    using ps by (auto simp: dispatch_def)
  obtain resp u where "ru = (resp, u)" by fastforce
  with e assms(3,4) \<open>GProviders g2 = GProviders g\<close> have "reconcile_stage clk c rate d resp u (emit (clk 32) (routed c (ev RequestExecuted c)) g2) = (res, g')"
    by (simp add: execute_stage_def)
  then show ?thesis by (rule reconcile_stage_reserv(3))
qed

lemma fresh_limiter_allows:
  assumes "1 \<le> b" and "b \<le> 2 ^ 100"
  shows "fst (limiter_allow now k (newLimiter (Fin r) (Fin b)))"
proof -
  have "Seconds 0 = Fin 0" by code_simp
  moreover have "1 \<le> rnd b" using rnd_mono [OF assms(1)] rnd_of_int [of 1] by simp
  ultimately show ?thesis using assms
    by (auto simp: limiter_allow_def newLimiter_def refill_def Let_def of_rat64_small)
qed

lemma boot_RateAt_now: "Unix 0 0 \<le> t \<Longrightarrow> RateAt boot_pricing ''demo-provider'' ''demo-model'' t = Inr boot_rate"
  by (simp add: boot_pricing_def AddRate_def pricing_NewRegistry_def RateAt_def boot_rate_def Let_def activeAt_def op_defs)

lemma first_call_served:
  assumes h: "HandleRequest net clk c x 100 100 1 g = (res, g')" and i: "in_service lims g"
    and cnt: "unat (idCounter (GReserv g)) < 2 ^ 64 - 1" and e: "GRisk g = NewEngine DefaultPolicy"
    and p: "provider_Get ''demo-provider'' (GProviders g) = Inr (Mock (NewMockProvider n None))"
    and c: "CallRoute c = boot_route" "Unix 0 0 \<le> clk 0" and l: "30000 \<le> lims (CallTenant c)"
    and z: "reserved (acc_of (GReserv g) (CallTenant c)) = 0" "settled (acc_of (GReserv g) (CallTenant c)) = 0"
  shows "proxy_status res = 200" and "ResultCost res = 30000" and "aSpent (view (GReserv g')) (CallTenant c) = 30000"
    and "aHolds (view (GReserv g')) = aHolds (view (GReserv g))"
proof -
  have s: "solvent (GReserv g)" and pr: "GPricing g = boot_pricing" "booted (GProviders g)"
    and lim: "sint (limit (acc_of (GReserv g) (CallTenant c))) = lims (CallTenant c)"
    using i by (auto simp: in_service_def)
  have r: "RateAt (GPricing g) (RCProvider (CallRoute c)) (RCModel (CallRoute c)) (clk 0) = Inr boot_rate"
    using boot_RateAt_now [OF c(2)] pr by (simp add: c(1) boot_route_def)
  have p': "provider_Get (RCProvider (CallRoute c)) (GProviders g) = Inr (Mock (NewMockProvider n None))"
    using p by (simp add: c(1) boot_route_def)
  obtain resp where x: "provider_Execute net (Mock (NewMockProvider n None)) x = Inr (resp, \<lparr>InputUnits = 100, OutputUnits = 100\<rparr>)"
    by (simp add: mock_Execute_def NewMockProvider_def Let_def)
  obtain d where d: "ResultDecision res = Some d" "DAction d = ActionAllow"
    using h
  proof (cases rule: HandleRequest_cases)
    case (decided rate d e' m g1)
    have rate: "rate = boot_rate" using decided(1) r by simp
    have "DAction d = ActionAllow"
      using first_request_by_budget [OF _ _ s _ decided(2)] e z lim l
      by (simp add: NewEngine_def killSwitchActive_def rate boot_estimate)
    then show ?thesis using that dispatch_trail [OF decided(6)] by blast
  qed (use r in simp)
  have ex: "Executed res" by (rule HandleRequest_executes [OF h r p' x d])
  have "bills net (GProviders g) (RCProvider (CallRoute c)) x boot_rate (ResultCost res)" by (rule HandleRequest_bills [OF h ex r])
  then show cost: "ResultCost res = 30000" using p' x by (auto simp: bills_def boot_estimate)
  have "can_reserve (GReserv g) (Estimate boot_rate 100 100)" using cnt by (simp add: can_reserve_def boot_estimate)
  with h s r have "ResultErr res = None \<and> aHolds (view (GReserv g')) = aHolds (view (GReserv g)) \<and>
      view (GReserv g') = (view (GReserv g))\<lparr>aSpent := (aSpent (view (GReserv g)))
        (CallTenant c := aSpent (view (GReserv g)) (CallTenant c) + sint (ResultCost res))\<rparr>"
  proof (cases rule: HandleRequest_budget)
    case (executed d')
    have "0 \<le> sint (ResultCost res) \<and> sint (ResultCost res) \<le> sint (Estimate boot_rate 100 100)" by (simp add: cost boot_estimate)
    from executed(4,5) executed(6) [OF this] show ?thesis by blast
  qed (use ex in blast)+
  then have err: "ResultErr res = None" and hs: "aHolds (view (GReserv g')) = aHolds (view (GReserv g))"
    and v: "view (GReserv g') = (view (GReserv g))\<lparr>aSpent := (aSpent (view (GReserv g)))
        (CallTenant c := aSpent (view (GReserv g)) (CallTenant c) + sint (ResultCost res))\<rparr>" by blast+
  show "proxy_status res = 200" by (simp add: proxy_status_def d err)
  show "aHolds (view (GReserv g')) = aHolds (view (GReserv g))" by (rule hs)
  have "aSpent (view (GReserv g)) (CallTenant c) = 0" using z(2) by simp
  with arg_cong [OF v, of "\<lambda>b. aSpent b (CallTenant c)"] show "aSpent (view (GReserv g')) (CallTenant c) = 30000"
    by (simp add: cost del: view_sel)
qed

lemma first_request_reserved:
  assumes "solvent m" "solvent m'" and "aHolds (view m') = aHolds (view m)"
    and "reserved (acc_of m t) = 0" and "aSpent (view m) t = sint (settled (acc_of m t))"
  shows "reserved (acc_of m' t) = 0"
proof -
  have "entries_sum (\<lambda>(u, a). u = t) snd (aHolds (view m')) = 0"
    using committed_view [OF assms(1), of t] assms(3-5) by (simp add: committed_def del: view_sel)
  then have "sint (reserved (acc_of m' t)) = 0"
    using committed_view [OF assms(2), of t] by (simp add: committed_def)
  then show ?thesis by (simp add: signed_eq_0_iff)
qed

text \<open>Limits that admit a first request: finite numbers, with a burst of at least one.\<close>

definition roomy :: "Config \<Rightarrow> bool" where
  "roomy cfg \<longleftrightarrow> (\<exists>r b r' b'. RateLimitIPPerSec cfg = Fin r \<and> RateLimitIPBurst cfg = Fin b \<and> 1 \<le> b \<and> b \<le> 2 ^ 100
     \<and> RateLimitTenantPerSec cfg = Fin r' \<and> RateLimitTenantBurst cfg = Fin b' \<and> 1 \<le> b' \<and> b' \<le> 2 ^ 100)"

lemma roomy_allows:
  assumes "gateway_main host = Inr run" and "roomy (runConfig run)"
  shows "fst (allow now k (ipLimiter (runServer run)))" and "fst (allow now k (tenantLimiter (runServer run)))"
proof -
  obtain r b r' b' where "RateLimitIPPerSec (runConfig run) = Fin r" "RateLimitIPBurst (runConfig run) = Fin b" "1 \<le> b" "b \<le> 2 ^ 100"
    "RateLimitTenantPerSec (runConfig run) = Fin r'" "RateLimitTenantBurst (runConfig run) = Fin b'" "1 \<le> b'" "b' \<le> 2 ^ 100"
    using assms(2) by (auto simp: roomy_def)
  note f = this fresh_limiter_allows [OF this(3,4), of now k r] fresh_limiter_allows [OF this(7,8), of now k r']
  from assms(1) show "fst (allow now k (ipLimiter (runServer run)))" and "fst (allow now k (tenantLimiter (runServer run)))"
    by (cases rule: gateway_main_cases; use f in \<open>auto simp: SetRateLimits_def NewServer_def allow_def Let_def case_prod_unfold\<close>)+
qed

lemma boot_wiring:
  assumes "gateway_main host = Inr run"
  shows "GRisk (GW (runServer run)) = NewEngine DefaultPolicy" and "SRoute (runServer run) = boot_route"
    and "UpstreamURL (runConfig run) = [] \<Longrightarrow>
      provider_Get ''demo-provider'' (GProviders (GW (runServer run))) = Inr (Mock (NewMockProvider ''demo-provider'' None))"
proof -
  from assms obtain st rm provs where p: "boot_providers host (runConfig run) = Inr provs"
    and s: "GW (runServer run) = gateway_New (NewEngine DefaultPolicy) rm boot_pricing provs ledger_New" "SRoute (runServer run) = boot_route"
    by (cases rule: gateway_main_cases) simp
  show "GRisk (GW (runServer run)) = NewEngine DefaultPolicy" "SRoute (runServer run) = boot_route" by (simp_all add: s)
  assume "UpstreamURL (runConfig run) = []"
  with p have "provs = Register (Mock (NewMockProvider ''demo-provider'' None)) provider_NewRegistry" by (simp add: boot_providers_def Let_def)
  then show "provider_Get ''demo-provider'' (GProviders (GW (runServer run))) = Inr (Mock (NewMockProvider ''demo-provider'' None))"
    by (simp add: s provider_Get_def Register_def NewMockProvider_def)
qed

text \<open>A proxied request whose key is accepted and which no limiter stops is what \<open>HandleRequest\<close> makes of it.\<close>

lemma proxy_granted:
  assumes "ServeHTTP w r s = (reply, s')" and "mux_find r = Inr RProxy" and "read_body r = Some body"
    and "fst (allow (wclock w 0) (clientIP (InHeader r) (RemoteAddr r)) (ipLimiter s))"
    and "presents w r (StoreSt s) pt tn k st" and "covers k ScopeProxyWrite" and "fst (allow (wclock w 2) (TntID tn) (tenantLimiter s))"
    and "HandleRequest (wnet w) (clock_from 5 (wclock w)) \<lparr>CallID = proxy_id w r, CallTenant = TntID tn, CallRoute = SRoute s\<rparr>
      (proxy_request w r body) 100 100 1 (audited w ScopeProxyWrite r tn k (GW s)) = (res, g')"
  shows "RStatus reply = proxy_status res \<and> GW s' = g'"
proof -
  obtain l where l: "allow (wclock w 0) (clientIP (InHeader r) (RemoteAddr r)) (ipLimiter s) = (True, l)"
    using assms(4) by (metis prod.collapse)
  let ?s = "s\<lparr>ipLimiter := l\<rparr>"
  have "ScopeProxyWrite \<noteq> []" by (simp add: ScopeProxyWrite_def)
  moreover obtain l' where "allow (wclock w 2) (TntID tn) (tenantLimiter ?s) = (True, l')" 
    using assms(7) by (cases "allow (wclock w 2) (TntID tn) (tenantLimiter ?s)") simp
  ultimately have q: "requireAuth w ScopeProxyWrite r ?s
      = (Inr (TntID tn), ?s\<lparr>StoreSt := st, GW := audited w ScopeProxyWrite r tn k (GW s), tenantLimiter := l'\<rparr>)"
    using requireAuth_covered [of w r ?s pt tn k st ScopeProxyWrite] assms(5,6) by simp
  have "(reply, s') = routes w RProxy r ?s" using assms(1,2) by (simp add: ServeHTTP_def l del: routes.simps)
  also have "\<dots> = handleProxy w (TntID tn) r (?s\<lparr>StoreSt := st, GW := audited w ScopeProxyWrite r tn k (GW s), tenantLimiter := l'\<rparr>)"
    by (simp add: with_auth_def q)
  finally show ?thesis using assms(3,8) by (simp add: handleProxy_def writeJSON_def)
qed

section \<open>While a kill switch is on\<close>

definition untouched :: "string \<Rightarrow> Manager \<Rightarrow> Manager \<Rightarrow> bool" where
  "untouched t m m' \<longleftrightarrow> reserved (acc_of m' t) = reserved (acc_of m t) \<and> settled (acc_of m' t) = settled (acc_of m t)"

lemma untouched_refl [simp]: "untouched t m m"
  and untouched_trans: "untouched t m m1 \<Longrightarrow> untouched t m1 m2 \<Longrightarrow> untouched t m m2"
  by (simp_all add: untouched_def)

lemma untouched_view:
  assumes "solvent m" "solvent m'" and "aSpent (view m') t = aSpent (view m) t" and "committed (view m') t = committed (view m) t"
  shows "untouched t m m'"
proof -
  have "sint (settled (acc_of m' t)) = sint (settled (acc_of m t))" using assms(3) by simp
  moreover from this have "sint (reserved (acc_of m' t)) = sint (reserved (acc_of m t))"
    using committed_view [OF assms(1), of t] committed_view [OF assms(2), of t] assms(4) by linarith
  ultimately show ?thesis by (simp add: untouched_def signed_word_eqI)
qed

lemma holds_finite: "solvent m \<Longrightarrow> finite (dom (aHolds (view m)))"
  using books_finite [OF solvent_books] by (rule finite_subset [rotated]) (auto simp: bind_eq_Some_conv)

lemma a_reserve_other:
  assumes "a_reserve k u a b = Some b'" and "aHolds b k = None" and "finite (dom (aHolds b))" and "u \<noteq> t"
  shows "aSpent b' = aSpent b \<and> committed b' t = committed b t"
  using assms entries_sum_insert [OF assms(3,2), of "\<lambda>(u, a). u = t" snd "(u, a)"] by (auto simp: a_reserve_def committed_def split: if_splits)

lemma HandleRequest_other:
  assumes h: "HandleRequest net clk c x 100 100 n g = (res, g')" and i: "in_service lims g"
    and cnt: "unat (idCounter (GReserv g)) < 2 ^ 64 - 1" and t: "CallTenant c \<noteq> t"
  shows "untouched t (GReserv g) (GReserv g')"
proof (cases "RateAt (GPricing g) (RCProvider (CallRoute c)) (RCModel (CallRoute c)) (clk 0)")
  case (Inl err)
  then have "GReserv g' = GReserv g" using h by (auto simp: HandleRequest_def)
  then show ?thesis by simp
next
  case (Inr rate)
  have s: "solvent (GReserv g)" "solvent (GReserv g')" and p: "GPricing g = boot_pricing" "booted (GProviders g)"
    using i HandleRequest_in_service [OF h i cnt] by (simp_all add: in_service_def)
  note w = booted_within [OF h p Inr]
  have "can_reserve (GReserv g) (Estimate rate 100 100)" using cnt by (simp add: can_reserve_def w(1) boot_estimate)
  with h s(1) Inr have "aSpent (view (GReserv g')) t = aSpent (view (GReserv g)) t \<and> committed (view (GReserv g')) t = committed (view (GReserv g)) t"
  proof (cases rule: HandleRequest_budget)
    case (refused d)
    show ?thesis by (simp only: refused)
  next
    case (throttled d)
    from a_reserve_other [OF throttled(4,5) holds_finite [OF s(1)] t] show ?thesis by simp
  next
    case (failed d)
    show ?thesis by (simp only: failed)
  next
    case (executed d)
    have "0 \<le> sint (ResultCost res) \<and> sint (ResultCost res) \<le> sint (Estimate rate 100 100)"
      using executed(3) w(2) by (simp add: within_estimate_def)
    from executed(6) [OF this] t show ?thesis by (simp add: committed_def del: view_sel)
  qed
  then show ?thesis using untouched_view [OF s] by blast
qed

lemma HandleRequest_killed:
  assumes h: "HandleRequest net clk c x ni no n g = (res, g')" and k: "killSwitchActive (CallTenant c) (RCProvider (CallRoute c)) (GRisk g)"
  shows "GReserv g' = GReserv g" and "\<not> Executed res"
proof -
  have "GReserv g' = GReserv g \<and> \<not> Executed res"
    using h
  proof (cases rule: HandleRequest_cases)
    case (decided rate d e m g1)
    from decided(2) k have "m = GReserv g \<and> DAction d = ActionKillSwitch"
      by (cases rule: Evaluate_cases) (auto dest: evaluate_killed_eq(1,3))
    then show ?thesis using decided(4,6) by (auto simp: dispatch_def result0_def split: if_splits)
  qed (simp add: result0_def)
  then show "GReserv g' = GReserv g" "\<not> Executed res" by simp_all
qed

lemma requireAuth_keeps:
  "requireAuth w scope r s = (x, s') \<Longrightarrow> SRoute s' = SRoute s \<and> OperatorToken s' = OperatorToken s"
  by (auto simp: requireAuth_def Let_def split: if_splits prod.splits sum.splits StoreError.splits)

lemma handler_keeps:
  "handler w route r t s = (reply, s') \<Longrightarrow> SRoute s' = SRoute s \<and> OperatorToken s' = OperatorToken s"
  by (cases route) (auto simp: tenant_handlers handleKillSwitch_def split: prod.splits option.splits if_splits sum.splits)

lemma routes_keeps:
  assumes "routes w route r s = (reply, s')"
  shows "SRoute s' = SRoute s \<and> OperatorToken s' = OperatorToken s"
proof (cases "scope_of route")
  case None
  then show ?thesis using assms handler_keeps [of w RKillSwitch r _ s reply s'] by (cases route) (auto split: option.splits)
next
  case (Some scope)
  obtain x s1 where "requireAuth w scope r s = (x, s1)" by fastforce
  with assms Some requireAuth_keeps handler_keeps show ?thesis
    by (cases x) (fastforce simp: protected_routes with_auth_def)+
qed

lemma ServeHTTP_keeps:
  assumes "ServeHTTP w r s = (reply, s')"
  shows "SRoute s' = SRoute s \<and> OperatorToken s' = OperatorToken s"
  using assms by (cases rule: ServeHTTP_cases) (auto dest: routes_keeps)

definition stopped :: "string \<Rightarrow> 's Server \<Rightarrow> bool" where
  "stopped t s \<longleftrightarrow> killSwitchActive t (RCProvider (SRoute s)) (GRisk (GW s))"

lemma stopped_switches: "switches (GRisk (GW s')) = switches (GRisk (GW s)) \<Longrightarrow> SRoute s' = SRoute s \<Longrightarrow> stopped t s' = stopped t s"
  by (simp add: stopped_def killSwitchActive_def switches_def)

lemma handler_stopped:
  assumes "handler w route r u s = (reply, s')" and "scope_of route = Some scope" and "in_service lims (GW s)"
    and "unat (idCounter (GReserv (GW s))) < 2 ^ 64 - 1" and "stopped t s"
  shows "untouched t (GReserv (GW s)) (GReserv (GW s'))"
proof (cases route)
  case RExposure
  then have "GReserv (GW s') = snd (getAccount u (GReserv (GW s)))" using assms(1) by (auto simp: tenant_handlers Exposure_of_def split: prod.splits)
  then show ?thesis by (simp add: untouched_def)
next
  case RProxy
  show ?thesis
  proof (cases "read_body r")
    case (Some body)
    let ?c = "\<lparr>CallID = proxy_id w r, CallTenant = u, CallRoute = SRoute s\<rparr>"
    obtain res g' where h: "HandleRequest (wnet w) (clock_from 5 (wclock w)) ?c (proxy_request w r body) 100 100 1 (GW s) = (res, g')" by fastforce
    have "GW s' = g'" using assms(1) RProxy Some h by (auto simp: tenant_handlers)
    then show ?thesis using HandleRequest_other [OF h assms(3,4), of t] HandleRequest_killed(1) [OF h] assms(5)
      by (cases "u = t") (simp_all add: stopped_def)
  qed (use assms(1) RProxy in \<open>auto simp: tenant_handlers\<close>)
qed (use assms(1,2) in auto)

lemma ServeHTTP_stopped:
  assumes h: "ServeHTTP w r s = (reply, s')" and i: "in_service lims (GW s)" and cnt: "unat (idCounter (GReserv (GW s))) < 2 ^ 64 - 1"
    and k: "stopped t s" and no: "Header_Get (InHeader r) ''Authorization'' \<noteq> ''Bearer '' @ OperatorToken s"
  shows "stopped t s' \<and> untouched t (GReserv (GW s)) (GReserv (GW s'))"
proof
  show "stopped t s'" using stopped_switches [of s' s t] switches_operator [OF h] ServeHTTP_keeps [OF h] no k by blast
  from h show "untouched t (GReserv (GW s)) (GReserv (GW s'))"
  proof (cases rule: ServeHTTP_cases)
    case (routed l route)
    show ?thesis
    proof (cases "scope_of route")
      case None
      have "requireOperator r (s\<lparr>ipLimiter := l\<rparr>) \<noteq> None" using no by (simp add: requireOperator_None bearer_def)
      then have "GW s' = GW s" using routed(2) None by (cases route) auto
      then show ?thesis by simp
    next
      case (Some scope)
      from routed(2) this show ?thesis
      proof (cases rule: protected_cases)
        case (served pt tn k' st l')
        let ?s = "s\<lparr>ipLimiter := l, StoreSt := st, GW := audited w scope r tn k' (GW s), tenantLimiter := l'\<rparr>"
        have "in_service lims (GW ?s)" "stopped t ?s" using i k by (simp_all add: audited_def stopped_def)
        from handler_stopped [OF served(3) Some, of lims t] this cnt show ?thesis by simp
      qed simp_all
    qed
  qed simp
qed

text \<open>Requests of anybody but the operator, one after the other.\<close>

inductive unattended :: "'s Server \<Rightarrow> 's Server \<Rightarrow> bool" for s0 where
  unattended_start: "unattended s0 s0"
| unattended_request: "unattended s0 s \<Longrightarrow> unat (idCounter (GReserv (GW s))) < 2 ^ 64 - 1 \<Longrightarrow>
    Header_Get (InHeader r) ''Authorization'' \<noteq> ''Bearer '' @ OperatorToken s \<Longrightarrow> ServeHTTP (w :: (Draw, 's) World) r s = (reply, s') \<Longrightarrow> unattended s0 s'"

lemma unattended_stopped:
  assumes "unattended s0 s" and "in_service lims (GW s0)" and "stopped t s0"
  shows "in_service lims (GW s) \<and> stopped t s \<and> untouched t (GReserv (GW s0)) (GReserv (GW s))"
  using assms
proof (induction rule: unattended.induct)
  case (unattended_request s r w reply s')
  then have i: "in_service lims (GW s)" and k: "stopped t s" and u: "untouched t (GReserv (GW s0)) (GReserv (GW s))" by blast+
  show ?case
    using ServeHTTP_in_service [OF unattended_request(4) i unattended_request(2)]
      ServeHTTP_stopped [OF unattended_request(4) i unattended_request(2) k unattended_request(3)] untouched_trans [OF u] by blast
qed simp

section \<open>A small example\<close>

definition live_world :: "(Draw, RefDb StoreState) World" where
  "live_world = \<lparr>api = store_api ref_q, draw = demo_draw [], wnet = demo_net, wclock = (\<lambda>i. Unix 0 0),
     decodeKill = (\<lambda>b err. Inl ''no body'')\<rparr>"

definition pg_env :: Environment where
  "pg_env = bare_env\<lparr>Getenv := (\<lambda>k. if k = ''VG_STORE_MODE'' then ''postgres'' else if k = ''VG_POSTGRES_DSN'' then ''db''
     else if k = ''VG_OPERATOR_TOKEN'' then replicate 32 (CHR ''t'') else [])\<rparr>"

definition pg_host :: "RefDb Host" where
  "pg_host = (demo_host pg_env)\<lparr>sqlOpen := (\<lambda>dsn. Inr (demo_db [demo_tenant_row] [demo_key_row] []))\<rparr>"

lemma demo_proxy_route: "mux_find (demo_http ''POST'' ''/proxy/x'' key) = Inr RProxy"
proof -
  have "cleanPath ''/proxy/x'' = ''/proxy/x''" "segments ''/proxy/x'' \<noteq> [''proxy'']" "match_route ''/proxy/x'' = Some RProxy" by code_simp+
  then show ?thesis by (simp add: mux_find_def demo_http_def Let_def)
qed

lemma bare_runs: "\<exists>run. gateway_main (demo_host bare_env) = Inr run \<and> runConfig run = initial_config bare_env"
  using demo_host_starts [OF bare_load quiet_memory [OF bare_quiet] bare_providers] by blast

lemma bare_budget: "demo_budget (initial_config bare_env) = 10000000"
proof -
  have "FromFloat (f_div (of_int64 1000) (Fin 100)) = 10000000" by code_simp
  then show ?thesis by (simp add: demo_budget_def initial_config_def)
qed

lemma pg_load: "Load pg_env = Inr (initial_config pg_env)"
proof -
  have m: "ToLower (UnicodeLower pg_env) ''postgres'' = ''postgres''" "TrimSpace ''db'' \<noteq> []" by code_simp+
  have "Getenv pg_env (rate_env v) = []" for v by (cases v) (simp_all add: pg_env_def)
  then have "load_rates pg_env vs c = Inr c" for vs c by (induction vs) (simp_all add: Let_def)
  moreover have "validate_rates vs (initial_config pg_env) = None" for vs
  proof (induction vs)
    case (Cons v vs)
    then show ?case using rate_default [of v pg_env] by simp
  qed simp
  moreover have "Addr (initial_config pg_env) \<noteq> []" "StoreMode (initial_config pg_env) = StoreModePostgres"
    "PostgresDSN (initial_config pg_env) = ''db''" "DemoBudgetMinor (initial_config pg_env) = 1000"
    "length (CfgOperatorToken (initial_config pg_env)) = 32" "Getenv pg_env ''VG_DEMO_BUDGET_MINOR'' = []"
    using m(1) by (simp_all add: initial_config_def getEnvDefault_def pg_env_def)
  ultimately show ?thesis using m(2) by (simp add: Load_def load_budget_def Validate_def validate_mode_def word_sless_alt)
qed

lemma pg_runs: "\<exists>run. gateway_main pg_host = Inr run \<and> runConfig run = initial_config pg_env"
proof -
  have "ToLower (UnicodeLower pg_env) ''postgres'' = ''postgres''" by code_simp
  then have m: "StoreMode (initial_config pg_env) = StoreModePostgres" "UpstreamURL (initial_config pg_env) = []"
    by (simp_all add: initial_config_def getEnvDefault_def pg_env_def)
  have e: "hostEnv pg_host = pg_env" by (simp add: pg_host_def demo_host_def)
  have "\<exists>st. open_store pg_host (initial_config pg_env) = Inr st"
    by (simp add: open_store_def m OpenPostgresStore_def pg_host_def demo_host_def)
  then show ?thesis by (auto simp: gateway_main_def e pg_load bootstrap_def m boot_providers_def Let_def)
qed

lemma pg_mode: "StoreMode (initial_config pg_env) = StoreModePostgres"
proof -
  have "ToLower (UnicodeLower pg_env) ''postgres'' = ''postgres''" by code_simp
  then show ?thesis by (simp add: initial_config_def getEnvDefault_def pg_env_def)
qed

lemma demo_kill_route: "mux_find (demo_http ''POST'' ''/v1/kill-switch'' key) = Inr RKillSwitch"
proof -
  have "cleanPath ''/v1/kill-switch'' = ''/v1/kill-switch''" "segments ''/v1/kill-switch'' \<noteq> [''proxy'']"
    "match_route ''/v1/kill-switch'' = Some RKillSwitch" by code_simp+
  then show ?thesis by (simp add: mux_find_def demo_http_def Let_def)
qed

lemma operator_stops:
  assumes "ServeHTTP w r s = (reply, s')" and "fst (allow (wclock w 0) (clientIP (InHeader r) (RemoteAddr r)) (ipLimiter s))"
    and "mux_find r = Inr RKillSwitch" and "InMethod r = ''POST''" and "OperatorToken s \<noteq> []"
    and "Header_Get (InHeader r) ''Authorization'' = ''Bearer '' @ OperatorToken s"
    and "decodeKill w (InBody r) (InBodyErr r) = Inr b" and "KScope b = ''global''"
  shows "killAll (GRisk (GW s')) = KOn b \<and> GReserv (GW s') = GReserv (GW s)"
proof -
  obtain l where l: "allow (wclock w 0) (clientIP (InHeader r) (RemoteAddr r)) (ipLimiter s) = (True, l)"
    using assms(2) by (metis prod.collapse)
  have "requireOperator r (s\<lparr>ipLimiter := l\<rparr>) = None" using assms(5,6) by (simp add: requireOperator_None bearer_def)
  then have "handleKillSwitch w r (s\<lparr>ipLimiter := l\<rparr>) = (reply, s')" using assms(1,3) by (simp add: ServeHTTP_def l)
  then show ?thesis using assms(4,7,8) by (auto simp: handleKillSwitch_def kill_def KillAll_def)
qed

section \<open>Properties\<close>

text \<open>
  C3: the deployed gateway never overspends. From the start of \<open>main\<close> on, through any requests to any
  endpoint, with any keys, headers and bodies, any behaviour of the upstream and of the database, any ticks
  of the sweepers and any changes to the store by others, every account has non-negative counters, reserved +
  settled within its limit, and its limit is still the one of the start: the configured demo budget or zero.
  Nothing is assumed of costs: the prices and the usage the providers report bound them. The bound on the
  configured budget keeps \<open>FromFloat\<close> from overflowing.
\<close>

theorem deployed_never_overspends:
  assumes "deployment host run s" and "sint (DemoBudgetMinor (runConfig run)) \<le> 10 ^ 14"
    and "accounts (GReserv (GW s)) t = Some acc"
  shows "0 \<le> sint (reserved acc) \<and> 0 \<le> sint (settled acc) \<and> sint (reserved acc) + sint (settled acc) \<le> sint (limit acc)
    \<and> limit acc \<in> {0, demo_budget (runConfig run)}"
proof -
  note st = deployment_started [OF assms(1)]
  have i: "in_service (boot_limits run) (GW s)" using deployment_in_service [OF assms(1) boot_in_service [OF st assms(2)]] .
  have a: "acc_of (GReserv (GW s)) t = acc" using assms(3) by (simp add: acc_of_def)
  have "sint (limit acc) = boot_limits run t" using i unfolding in_service_def by (metis a view_sel(1))
  then have "limit acc \<in> {0, demo_budget (runConfig run)}" using boot_limits_values [OF st, of t] by (auto simp: signed_eq_0_iff intro: signed_word_eqI)
  moreover have "within_limit acc" using i solvent_acc_of [of "GReserv (GW s)" t] a by (simp add: in_service_def)
  ultimately show ?thesis by (simp add: within_limit_def)
qed

theorem deployed_never_overspends_witness:
  "\<exists>run t acc. gateway_main (demo_host bare_env) = Inr run \<and> accounts (GReserv (GW (runServer run))) t = Some acc \<and> limit acc = 10000000
     \<and> sint (reserved acc) + sint (settled acc) \<le> sint (limit acc)"
proof -
  obtain run where run: "gateway_main (demo_host bare_env) = Inr run" "runConfig run = initial_config bare_env" using bare_runs by blast
  have "StoreMode (runConfig run) \<noteq> StoreModePostgres" by (simp add: run(2) quiet_memory [OF bare_quiet])
  then obtain tn :: Tenant where "GReserv (GW (runServer run)) = SetBudget (TntID tn) 10000000 NewManager"
    by (rule boot_memory [OF run(1)]) (simp add: run(2) bare_budget)
  then obtain acc where a: "accounts (GReserv (GW (runServer run))) (TntID tn) = Some acc" "limit acc = 10000000"
    by (simp add: SetBudget_def put_account_def Let_def)
  have b: "sint (DemoBudgetMinor (runConfig run)) \<le> 10 ^ 14" by (simp add: run(2) initial_config_def)
  from deployed_never_overspends [OF deployment_start [OF run(1)] b a(1)] run(1) a show ?thesis by blast
qed

text \<open>
  C10: a stop holds until the operator lifts it. Once a kill switch that covers a tenant is on (the global
  one, the tenant's, or the provider's), then through any requests of anybody who does not present the
  operator token the switch stays on and not a micro is reserved or settled for the tenant, while requests
  of other tenants may go on.
\<close>

theorem stop_holds:
  assumes "deployment host run s0" and "sint (DemoBudgetMinor (runConfig run)) \<le> 10 ^ 14"
    and "killAll (GRisk (GW s0)) \<or> killTenant (GRisk (GW s0)) t \<or> killProvider (GRisk (GW s0)) (RCProvider (SRoute s0))"
    and "unattended s0 s"
  shows "(killAll (GRisk (GW s)) \<or> killTenant (GRisk (GW s)) t \<or> killProvider (GRisk (GW s)) (RCProvider (SRoute s)))
    \<and> reserved (acc_of (GReserv (GW s)) t) = reserved (acc_of (GReserv (GW s0)) t)
    \<and> settled (acc_of (GReserv (GW s)) t) = settled (acc_of (GReserv (GW s0)) t)"
proof -
  have "in_service (boot_limits run) (GW s0)"
    by (rule deployment_in_service [OF assms(1) boot_in_service [OF deployment_started [OF assms(1)] assms(2)]])
  from unattended_stopped [OF assms(4) this, of t] assms(3) show ?thesis
    by (auto simp: stopped_def killSwitchActive_def untouched_def)
qed

theorem stop_holds_witness:
  "\<exists>s0 reply s. killAll (GRisk (GW s0)) \<and> ServeHTTP live_world (demo_http ''POST'' ''/proxy/x'' demo_plain) s0 = (reply, s)
     \<and> settled (acc_of (GReserv (GW s)) (demo_uuid (CHR ''a''))) = settled (acc_of (GReserv (GW s0)) (demo_uuid (CHR ''a'')))"
proof -
  let ?r = "demo_http ''POST'' ''/v1/kill-switch'' (replicate 32 (CHR ''t''))" and ?q = "demo_http ''POST'' ''/proxy/x'' demo_plain"
  let ?w = "live_world\<lparr>decodeKill := (\<lambda>b err. Inr \<lparr>KScope = ''global'', KValue = [], KOn = True\<rparr>)\<rparr>"
  obtain run where run: "gateway_main pg_host = Inr run" "runConfig run = initial_config pg_env" using pg_runs by blast
  have b: "sint (DemoBudgetMinor (runConfig run)) \<le> 10 ^ 14" "roomy (runConfig run)" by (simp_all add: run(2) initial_config_def roomy_def)
  have tok: "OperatorToken (runServer run) = replicate 32 (CHR ''t'')"
    using run(1) by (cases rule: gateway_main_cases) (simp add: run(2) initial_config_def pg_env_def)
  have c: "unat (idCounter (GReserv (GW (runServer run)))) < 2 ^ 64 - 1"
    by (simp add: boot_limits_postgres(1) [OF run(1)] run(2) pg_mode NewManager_def)
  obtain reply s0 where h: "ServeHTTP ?w ?r (runServer run) = (reply, s0)" by fastforce
  have a: "Header_Get (InHeader ?r) ''Authorization'' = ''Bearer '' @ OperatorToken (runServer run)" unfolding tok by (rule demo_auth_header)
  have on: "killAll (GRisk (GW s0)) \<and> GReserv (GW s0) = GReserv (GW (runServer run))"
    using operator_stops [OF h roomy_allows(1) [OF run(1) b(2)] demo_kill_route _ _ a] tok by (simp add: demo_http_def)
  have d: "deployment pg_host run s0"
    by (rule deployment_request [OF deployment_start [OF run(1)] _ c h]) (simp add: live_world_def pg_host_def demo_host_def)
  obtain reply' s where s: "ServeHTTP live_world ?q s0 = (reply', s)" by fastforce
  have "Header_Get (InHeader ?q) ''Authorization'' \<noteq> ''Bearer '' @ OperatorToken s0"
    unfolding demo_auth_header using ServeHTTP_keeps [OF h] tok by (simp add: demo_plain_def keyPrefix_def numeral_eq_Suc)
  from unattended_request [OF unattended_start _ this s] on c have "unattended s0 s" by simp
  from stop_holds [OF d b(1) _ this] on s show ?thesis by blast
qed

text \<open>
  C39: in Postgres mode nothing is ever executed. The budgets live in the process and only the demo
  bootstrap sets one, so every limit is zero for ever: no request of any tenant to the proxy is answered
  200, whatever keys and budgets the database holds.
\<close>

theorem postgres_executes_nothing:
  assumes "deployment host run s" and "StoreMode (runConfig run) = StoreModePostgres" and "sint (DemoBudgetMinor (runConfig run)) \<le> 10 ^ 14"
    and "unat (idCounter (GReserv (GW s))) < 2 ^ 64 - 1" and "mux_find r = Inr RProxy" and "ServeHTTP w r s = (reply, s')"
  shows "RStatus reply \<noteq> 200 \<and> aSpent (view (GReserv (GW s'))) t = 0"
proof
  have i: "in_service (\<lambda>t. 0) (GW s)"
    using deployment_in_service [OF assms(1) boot_in_service [OF deployment_started [OF assms(1)] assms(3)]]
      boot_limits_postgres(2) [OF deployment_started [OF assms(1)] assms(2)] by simp
  then have "in_service (\<lambda>t. 0) (GW s')" using ServeHTTP_in_service [OF assms(6)] assms(4) by blast
  from spent_within [OF this, of t] show "aSpent (view (GReserv (GW s'))) t = 0" by simp
  from assms(6) show "RStatus reply \<noteq> 200"
  proof (cases rule: ServeHTTP_cases)
    case (routed l route)
    then have rt: "routes w RProxy r (s\<lparr>ipLimiter := l\<rparr>) = (reply, s')" using assms(5) by simp
    have "scope_of RProxy = Some ScopeProxyWrite" by simp
    with rt show ?thesis
    proof (cases rule: protected_cases)
      case (served pt tn k st l')
      let ?g = "audited w ScopeProxyWrite r tn k (GW s)" and ?c = "\<lparr>CallID = proxy_id w r, CallTenant = TntID tn, CallRoute = SRoute s\<rparr>"
      have g: "in_service (\<lambda>t. 0) ?g" using i by (simp add: audited_def)
      show ?thesis
      proof (cases "read_body r")
        case (Some body)
        obtain res g' where h: "HandleRequest (wnet w) (clock_from 5 (wclock w)) ?c (proxy_request w r body) 100 100 1 ?g = (res, g')" by fastforce
        have ne: "\<not> Executed res" using no_limit_no_execution [OF h g] assms(4) by simp
        have "RStatus reply = proxy_status res" using served(3) Some h by (auto simp: handleProxy_def writeJSON_def Let_def)
        then show ?thesis using ne HandleRequest_status [OF h]
          by (auto simp: proxy_status_def split: option.splits Action.splits if_splits)
      qed (use served(3) in \<open>auto simp: handleProxy_def http_Error_def\<close>)
    qed auto
  qed auto
qed

theorem postgres_executes_nothing_witness:
  "\<exists>run. gateway_main pg_host = Inr run
     \<and> RStatus (fst (ServeHTTP live_world (demo_http ''POST'' ''/proxy/x'' demo_plain) (runServer run))) \<noteq> 200"
proof -
  obtain run where run: "gateway_main pg_host = Inr run" "runConfig run = initial_config pg_env" using pg_runs by blast
  have m: "StoreMode (runConfig run) = StoreModePostgres" by (simp add: run(2) pg_mode)
  have b: "sint (DemoBudgetMinor (runConfig run)) \<le> 10 ^ 14" by (simp add: run(2) initial_config_def)
  have c: "unat (idCounter (GReserv (GW (runServer run)))) < 2 ^ 64 - 1"
    by (simp add: boot_limits_postgres(1) [OF run(1) m] NewManager_def)
  obtain reply s' where h: "ServeHTTP live_world (demo_http ''POST'' ''/proxy/x'' demo_plain) (runServer run) = (reply, s')" by fastforce
  from postgres_executes_nothing [OF deployment_start [OF run(1)] m b c demo_proxy_route h] run(1) h show ?thesis by auto
qed

text \<open>
  C24: the demo works out of the box. In memory mode without an upstream, with a demo budget of at least
  30000 micros (three cents, the price of a call) and at most \<open>10 ^ 14\<close> cents, finite rate limits
  with bursts from 1 to \<open>2 ^ 100\<close>, and a clock past 1970, the first request to the proxy that
  presents the printed key, with any method, path, headers and a readable body of at most 2 MiB, is answered 200, and
  afterwards exactly the price of the call is settled for the demo tenant and nothing is reserved.
\<close>

theorem printed_key_serves:
  assumes start: "gateway_main host = Inr run" "StoreMode (runConfig run) \<noteq> StoreModePostgres" "UpstreamURL (runConfig run) = []"
    and cfg: "30000 \<le> sint (demo_budget (runConfig run))" "sint (DemoBudgetMinor (runConfig run)) \<le> 10 ^ 14" "roomy (runConfig run)"
    and w: "api w = store_api (hostDb host)" "Unix 0 0 \<le> wclock w 5"
    and r: "mux_find r = Inr RProxy" "runKey run = Some pt" "Header_Get (InHeader r) ''Authorization'' = ''Bearer '' @ pt" "read_body r = Some body"
    and h: "ServeHTTP w r (runServer run) = (reply, s')"
  shows "RStatus reply = 200
    \<and> (\<exists>tn k. fst (Authenticate (api w) (draw w) pt (StoreSt (runServer run))) = Inr (tn, k)
         \<and> settled (acc_of (GReserv (GW s')) (TntID tn)) = 30000 \<and> reserved (acc_of (GReserv (GW s')) (TntID tn)) = 0)"
proof -
  let ?s = "runServer run" and ?cfg = "runConfig run"
  obtain tn :: Tenant where pt: "pt \<noteq> []" and m: "GReserv (GW ?s) = SetBudget (TntID tn) (demo_budget ?cfg) NewManager"
    and au: "\<exists>k. fst (Authenticate (api w) (draw w) pt (StoreSt ?s)) = Inr (tn, k) \<and> Scopes k = Some demo_scopes"
    by (rule boot_memory [OF start(1,2)]) (use r(2) w(1) in auto)
  then obtain k st where k: "presents w r (StoreSt ?s) pt tn k st" "Scopes k = Some demo_scopes"
    using r(3) by (auto simp: presents_def) (metis prod.collapse)
  have c: "covers k ScopeProxyWrite" and ne: "slice (Scopes k) \<noteq> []"
    by (simp_all add: covers_def k(2) slice_def demo_scopes_def ScopeProxyWrite_def)
  have g: "audited w ScopeProxyWrite r tn k (GW ?s) = GW ?s" using ne by (simp add: audited_def)
  let ?c = "\<lparr>CallID = proxy_id w r, CallTenant = TntID tn, CallRoute = SRoute ?s\<rparr>"
  obtain res g' where hr: "HandleRequest (wnet w) (clock_from 5 (wclock w)) ?c (proxy_request w r body) 100 100 1 (GW ?s) = (res, g')" by fastforce
  have out: "RStatus reply = proxy_status res" "GW s' = g'"
    using proxy_granted [OF h r(1,4) roomy_allows(1) [OF start(1) cfg(3)] k(1) c roomy_allows(2) [OF start(1) cfg(3)]] hr g by auto
  have i: "in_service (boot_limits run) (GW ?s)" by (rule boot_in_service [OF start(1) cfg(2)])
  have lim: "30000 \<le> boot_limits run (TntID tn)" using cfg(1) unfolding boot_limits_def m new_limits by simp
  have z: "unat (idCounter (GReserv (GW ?s))) < 2 ^ 64 - 1" "reserved (acc_of (GReserv (GW ?s)) (TntID tn)) = 0" "settled (acc_of (GReserv (GW ?s)) (TntID tn)) = 0"
    by (simp_all add: m acc_of_def SetBudget_def put_account_def NewManager_def account0_def)
  note f = first_call_served [OF hr i z(1) boot_wiring(1) [OF start(1)] boot_wiring(3) [OF start(1,3)]]
  have c5: "CallRoute ?c = boot_route" "Unix 0 0 \<le> clock_from 5 (wclock w) 0" "30000 \<le> boot_limits run (CallTenant ?c)"
    "reserved (acc_of (GReserv (GW ?s)) (CallTenant ?c)) = 0" "settled (acc_of (GReserv (GW ?s)) (CallTenant ?c)) = 0"
    using boot_wiring(2) [OF start(1)] w(2) lim z(2,3) by simp_all
  note f = f [OF c5]
  have "settled (acc_of (GReserv g') (TntID tn)) = 30000" using f(3) by (auto intro: signed_word_eqI)
  moreover have "reserved (acc_of (GReserv g') (TntID tn)) = 0"
  proof (rule first_request_reserved)
    show "solvent (GReserv (GW ?s))" "solvent (GReserv g')"
      using i HandleRequest_in_service [OF hr i z(1)] unfolding in_service_def by blast+
  qed (use f(4) z(2) in \<open>assumption | simp\<close>)+
  ultimately show ?thesis using au out f(1) by auto
qed

theorem printed_key_serves_witness:
  "\<exists>run pt. gateway_main (demo_host bare_env) = Inr run \<and> runKey run = Some pt
     \<and> RStatus (fst (ServeHTTP live_world (demo_http ''POST'' ''/proxy/x'' pt) (runServer run))) = 200"
proof -
  obtain run where run: "gateway_main (demo_host bare_env) = Inr run" "runConfig run = initial_config bare_env" using bare_runs by blast
  have m: "StoreMode (runConfig run) \<noteq> StoreModePostgres" by (simp add: run(2) quiet_memory [OF bare_quiet])
  then obtain pt where pt: "runKey run = Some pt" by (rule boot_memory [OF run(1)]) blast
  have u: "UpstreamURL (runConfig run) = []" "sint (DemoBudgetMinor (runConfig run)) \<le> 10 ^ 14" "roomy (runConfig run)"
    by (simp_all add: run(2) initial_config_def bare_env_def roomy_def)
  have b: "30000 \<le> sint (demo_budget (runConfig run))" by (simp add: run(2) bare_budget)
  have w: "api live_world = store_api (hostDb (demo_host bare_env))" "Unix 0 0 \<le> wclock live_world 5"
    by (simp_all add: live_world_def demo_host_def)
  have r: "read_body (demo_http ''POST'' ''/proxy/x'' pt) = Some []" by (simp add: read_body_def demo_http_def)
  obtain reply s' where h: "ServeHTTP live_world (demo_http ''POST'' ''/proxy/x'' pt) (runServer run) = (reply, s')" by fastforce
  from printed_key_serves [OF run(1) m u(1) b u(2,3) w demo_proxy_route pt demo_auth_header r h] run(1) pt h
  show ?thesis by auto
qed

end
