(* ===== verification/Requests.thy ===== *)
theory Requests
  imports Reservation_Conc Deployment
begin

text \<open>
  Concurrent requests. The server runs every request in a goroutine of its own; what they share of the
  money is the reservation manager. A \<open>Job\<close> is a request reduced to its calls of the manager, in the order
  in which \<open>Evaluate\<close> and \<open>HandleRequest\<close> make them, with every choice of the risk engine, the breaker,
  the provider and the network left open; each call is run through the critical sections of
  \<open>Reservation_Conc\<close>. The main results are that a request that runs alone is such a job, and that no
  interleaving of any number of them overspends.
\<close>

datatype Job =
    Arrived string
  | Asking string Pc
  | Scored string
  | Reserving Pc
  | Admitted Reservation
  | Settling Pc
  | Answered

text \<open>
  The steps of a job: \<open>est\<close> and \<open>ttl\<close> are what is reserved, \<open>bill\<close> the costs a provider can cause. A
  job may be answered before it asks for the exposure (no price, kill switch), after it (open circuit, score)
  or when the reservation fails; an admitted one is throttled, released or reconciled.
\<close>

inductive job_step :: "micros \<Rightarrow> duration \<Rightarrow> (micros \<Rightarrow> bool) \<Rightarrow> Job \<times> Manager \<Rightarrow> Job \<times> Manager \<Rightarrow> bool" for est ttl bill where
  job_refuse: "job_step est ttl bill (Arrived t, m) (Answered, m)"
| job_ask: "job_step est ttl bill (Arrived t, m) (Asking t (ExposureCall t), m)"
| job_ask_run: "exec inp pc m = (pc', m') \<Longrightarrow> job_step est ttl bill (Asking t pc, m) (Asking t pc', m')"
| job_score: "job_step est ttl bill (Asking t (Returned ans), m) (Scored t, m)"
| job_block: "job_step est ttl bill (Scored t, m) (Answered, m)"
| job_reserve: "job_step est ttl bill (Scored t, m) (Reserving (ReserveCall t est ttl), m)"
| job_reserve_run: "exec inp pc m = (pc', m') \<Longrightarrow> job_step est ttl bill (Reserving pc, m) (Reserving pc', m')"
| job_insufficient: "job_step est ttl bill (Reserving (Returned (AnsReserve (Inl err))), m) (Answered, m)"
| job_admit: "job_step est ttl bill (Reserving (Returned (AnsReserve (Inr r))), m) (Admitted r, m)"
| job_throttle: "job_step est ttl bill (Admitted r, m) (Answered, m)"
| job_release: "job_step est ttl bill (Admitted r, m) (Settling (ReleaseCall (ResID r)), m)"
| job_reconcile: "bill c \<Longrightarrow> job_step est ttl bill (Admitted r, m) (Settling (ReconcileCall (ResID r) c), m)"
| job_settle_run: "exec inp pc m = (pc', m') \<Longrightarrow> job_step est ttl bill (Settling pc, m) (Settling pc', m')"
| job_done: "job_step est ttl bill (Settling (Returned ans), m) (Answered, m)"

inductive_cases job_stepE: "job_step est ttl bill (j, m) (j', m')"

text \<open>The server: a manager and the jobs of the requests that have come in.\<close>

record Serving =
  smgr :: Manager
  jobs :: "nat \<rightharpoonup> Job"

inductive serving :: "micros \<Rightarrow> duration \<Rightarrow> (micros \<Rightarrow> bool) \<Rightarrow> Manager \<Rightarrow> Serving \<Rightarrow> bool" for est ttl bill m0 where
  serving_start: "serving est ttl bill m0 \<lparr>smgr = m0, jobs = Map.empty\<rparr>"
| serving_arrive: "serving est ttl bill m0 s \<Longrightarrow> jobs s i = None \<Longrightarrow> serving est ttl bill m0 (s\<lparr>jobs := (jobs s)(i \<mapsto> Arrived t)\<rparr>)"
| serving_step: "serving est ttl bill m0 s \<Longrightarrow> jobs s i = Some j \<Longrightarrow> unat (idCounter (smgr s)) < 2 ^ 64 - 1 \<Longrightarrow>
    job_step est ttl bill (j, smgr s) (j', m') \<Longrightarrow> serving est ttl bill m0 \<lparr>smgr = m', jobs = (jobs s)(i \<mapsto> j')\<rparr>"

section \<open>Every schedule is an interleaving of manager calls\<close>

fun calling :: "Job \<Rightarrow> Pc option" where
  "calling (Asking t pc) = Some pc"
| "calling (Reserving pc) = Some pc"
| "calling (Settling pc) = Some pc"
| "calling _ = None"

text \<open>A goroutine that is not inside a call has made none or has returned from its last one.\<close>

definition tracks :: "(nat \<rightharpoonup> Pc) \<Rightarrow> (nat \<rightharpoonup> Job) \<Rightarrow> bool" where
  "tracks p js \<longleftrightarrow> (\<forall>i. case Option.bind (js i) calling of
     Some pc \<Rightarrow> p i = Some pc | None \<Rightarrow> p i = None \<or> (\<exists>ans. p i = Some (Returned ans)))"

text \<open>The program counters of jobs: what they reserve and what they settle.\<close>

fun fits :: "micros \<Rightarrow> (micros \<Rightarrow> bool) \<Rightarrow> Pc \<Rightarrow> bool" where
  "fits est bill (SetBudgetCall t l) = False"
| "fits est bill (ReserveCall t a ttl) = (a = est)"
| "fits est bill (ReserveCheck t a ttl) = (a = est)"
| "fits est bill (ReserveNow t a ttl) = (a = est)"
| "fits est bill (ReserveName t a ttl now) = (a = est)"
| "fits est bill (ReservePublish r) = (ResAmount r = est)"
| "fits est bill (ReconcileCall k c) = bill c"
| "fits est bill (ReconcileAccount k c) = bill c"
| "fits est bill (ReconcileApply k c) = bill c"
| "fits est bill ExpireCall = False"
| "fits est bill (ExpireScan now) = False"
| "fits est bill (ExpireNext ks n) = False"
| "fits est bill (ExpireApply k ks n) = False"
| "fits est bill _ = True"

definition uniform :: "micros \<Rightarrow> Manager \<Rightarrow> bool" where
  "uniform est m \<longleftrightarrow> (\<forall>k r. reservations m k = Some r \<longrightarrow> ResAmount r = est)"

lemma uniform_keeps [simp]:
  "uniform est (snd (getAccount t m)) = uniform est m" "uniform est (put_account t acc m) = uniform est m"
  "uniform est (m\<lparr>idCounter := n\<rparr>) = uniform est m"
  by (auto simp: uniform_def op_defs Let_def split: option.splits)

lemma uniform_put: "uniform est m \<Longrightarrow> ResAmount r = est \<Longrightarrow> uniform est (put_reservation r m)"
  by (auto simp: uniform_def put_reservation_def)

definition same_limits :: "Manager \<Rightarrow> Manager \<Rightarrow> bool" where
  "same_limits m m' \<longleftrightarrow> (\<forall>t. limit (acc_of m' t) = limit (acc_of m t))"

lemma same_limits_refl [simp]: "same_limits m m"
  and same_limits_trans: "same_limits m m1 \<Longrightarrow> same_limits m1 m2 \<Longrightarrow> same_limits m m2"
  by (simp_all add: same_limits_def)

lemma same_limits_keeps [simp]:
  "same_limits m (snd (getAccount t m1)) = same_limits m m1" "same_limits m (put_reservation r m1) = same_limits m m1"
  "same_limits m (m1\<lparr>idCounter := n\<rparr>) = same_limits m m1"
  by (simp_all add: same_limits_def) (simp_all add: acc_of_def put_reservation_def)

lemma same_limits_put: "limit acc = limit (acc_of m t) \<Longrightarrow> same_limits m (put_account t acc m)"
  by (auto simp: same_limits_def acc_of_def put_account_def)

lemma same_limits_touch: "limit acc = limit (acc_of m t) \<Longrightarrow> same_limits m (put_account t acc (snd (getAccount t m)))"
  using same_limits_put [of acc "snd (getAccount t m)" t] by (auto simp: same_limits_def)

lemma commit_keeps:
  assumes "reserve_commit t a m = (ok, m')"
  shows "uniform est m' = uniform est m" and "same_limits m m'"
  using assms by (auto simp: reserve_commit_def case_prod_unfold Let_def same_limits_touch split: if_splits)

lemma release_keeps:
  assumes "uniform est m" and "ResAmount r = est"
  shows "uniform est (release_apply r m)" and "same_limits m (release_apply r m)"
  using assms by (auto simp: release_apply_def case_prod_unfold Let_def same_limits_touch uniform_put)

lemma reconcile_keeps:
  assumes "uniform est m" and "ResAmount r = est"
  shows "uniform est (snd (reconcile_apply r c m))" and "same_limits m (snd (reconcile_apply r c m))"
  using assms by (auto simp: reconcile_apply_def case_prod_unfold Let_def same_limits_touch uniform_put)

lemma exec_keeps:
  assumes "exec inp pc m = (pc', m')" and "fits est bill pc" and "pc_ok pc m" and "uniform est m"
  shows "fits est bill pc' \<and> uniform est m' \<and> same_limits m m'"
proof (cases pc)
  case (ExposureRead t)
  then show ?thesis using assms by (auto simp: Exposure_of_def case_prod_unfold)
next
  case (ReserveCheck t a ttl)
  then show ?thesis using assms commit_keeps [of t a m] by (auto split: prod.splits if_splits)
next
  case (ReserveName t a ttl now)
  then show ?thesis using assms by (auto simp: nextID_def new_reservation_def Let_def)
next
  case (ReservePublish r)
  then show ?thesis using assms by (auto simp: uniform_put)
next
  case (ReleaseApply k)
  then obtain r where "reservations m k = Some r" using assms(3) by auto
  then show ?thesis using ReleaseApply assms release_keeps [of est m r] by (auto simp: uniform_def)
next
  case (ReconcileApply k c)
  then obtain r where r: "reservations m k = Some r" using assms(3) by auto
  then show ?thesis using ReconcileApply assms reconcile_keeps [of est m r c] by (auto simp: uniform_def split: prod.splits)
qed (use assms in \<open>auto split: option.splits\<close>)

text \<open>What a job is about to do is admissible, if its costs are within what it reserves.\<close>

lemma fits_admissible:
  assumes "fits est bill pc" and "uniform est m" and "0 \<le> sint est" and "\<And>c. bill c \<Longrightarrow> 0 \<le> sint c \<and> sint c \<le> sint est"
    and "unat (idCounter m) < 2 ^ 64 - 1"
  shows "admissible inp pc m"
  using assms by (cases pc) (auto simp: uniform_def split: option.splits)

lemma job_step_cases:
  assumes "job_step est ttl bill (j, m) (j', m')"
  obtains (call) pc where "calling j = None" "calling j' = Some pc" "entry_point pc" "fits est bill pc" "m' = m"
  | (run) pc inp pc' where "calling j = Some pc" "exec inp pc m = (pc', m')" "calling j' = Some pc'"
  | (return) "calling j' = None" "m' = m" "calling j = None \<or> (\<exists>ans. calling j = Some (Returned ans))"
  using assms by (elim job_stepE) auto

lemma tracks_call:
  assumes "tracks p js" and "calling j' = Some pc"
  shows "tracks (p(i \<mapsto> pc)) (js(i \<mapsto> j'))"
  unfolding tracks_def
proof
  fix n
  show "case Option.bind ((js(i \<mapsto> j')) n) calling of Some pc' \<Rightarrow> (p(i \<mapsto> pc)) n = Some pc'
    | None \<Rightarrow> (p(i \<mapsto> pc)) n = None \<or> (\<exists>ans. (p(i \<mapsto> pc)) n = Some (Returned ans))"
    using assms(2) spec [OF assms(1) [unfolded tracks_def], of n] by (cases "n = i"; cases "Option.bind (js n) calling") simp_all
qed

lemma tracks_quiet:
  assumes "tracks p js" and "calling j' = None" and "p i = None \<or> (\<exists>ans. p i = Some (Returned ans))"
  shows "tracks p (js(i \<mapsto> j'))"
  using assms by (auto simp: tracks_def)

definition safe :: "micros \<Rightarrow> (micros \<Rightarrow> bool) \<Rightarrow> Manager \<Rightarrow> Serving \<Rightarrow> (nat \<rightharpoonup> Pc) \<Rightarrow> bool" where
  "safe est bill m0 s p \<longleftrightarrow> interleaving \<lparr>mgr = smgr s, pool = p\<rparr> \<and> tracks p (jobs s) \<and> uniform est (smgr s)
     \<and> same_limits m0 (smgr s) \<and> (\<forall>i j pc. jobs s i = Some j \<and> calling j = Some pc \<longrightarrow> fits est bill pc)"

lemma safe_step:
  assumes s: "safe est bill m0 s p" and j: "jobs s i = Some j" and cnt: "unat (idCounter (smgr s)) < 2 ^ 64 - 1"
    and st: "job_step est ttl bill (j, smgr s) (j', m')"
    and est: "0 \<le> sint est" and bill: "\<And>c. bill c \<Longrightarrow> 0 \<le> sint c \<and> sint c \<le> sint est"
  shows "\<exists>p'. safe est bill m0 \<lparr>smgr = m', jobs = (jobs s)(i \<mapsto> j')\<rparr> p'"
proof -
  have il: "interleaving \<lparr>mgr = smgr s, pool = p\<rparr>" and tr: "tracks p (jobs s)" and u: "uniform est (smgr s)"
    and sl: "same_limits m0 (smgr s)" and f: "\<And>i j pc. jobs s i = Some j \<Longrightarrow> calling j = Some pc \<Longrightarrow> fits est bill pc"
    using s by (auto simp: safe_def)
  have idle: "calling j = None \<Longrightarrow> p i = None \<or> (\<exists>ans. p i = Some (Returned ans))"
    and busy: "\<And>pc. calling j = Some pc \<Longrightarrow> p i = Some pc"
    using tr j by (auto simp: tracks_def dest: spec [of _ i])
  from st show ?thesis
  proof (cases rule: job_step_cases)
    case (call pc)
    have "interleaving \<lparr>mgr = smgr s, pool = p(i \<mapsto> pc)\<rparr>"
      using idle [OF call(1)] conc_call [OF il, of i pc] conc_again [OF il, of i _ pc] call(3) by auto
    then show ?thesis using call tracks_call [OF tr call(2)] u sl f by (auto simp: safe_def intro!: exI [of _ "p(i \<mapsto> pc)"])
  next
    case (run pc inp pc')
    have fp: "fits est bill pc" using f [OF j run(1)] .
    have "pc_ok pc (smgr s)" using conc_pc_ok [OF interleaving_ok [OF il], of i pc] busy [OF run(1)] by simp
    from exec_keeps [OF run(2) fp this u] have k: "fits est bill pc'" "uniform est m'" "same_limits (smgr s) m'" by auto
    have "interleaving \<lparr>mgr = m', pool = p(i \<mapsto> pc')\<rparr>"
      using conc_exec [OF il, of i pc inp pc' m'] busy [OF run(1)] fits_admissible [OF fp u est bill cnt] run(2) by simp
    then show ?thesis using k tracks_call [OF tr run(3)] same_limits_trans [OF sl] run(3) f
      by (auto simp: safe_def intro!: exI [of _ "p(i \<mapsto> pc')"])
  next
    case return
    then have "p i = None \<or> (\<exists>ans. p i = Some (Returned ans))" using idle busy by auto
    from tracks_quiet [OF tr return(1) this] show ?thesis using return il u sl f by (auto simp: safe_def intro!: exI [of _ p])
  qed
qed

lemma serving_safe:
  assumes "serving est ttl bill m0 s" and "0 \<le> sint est" and "\<And>c. bill c \<Longrightarrow> 0 \<le> sint c \<and> sint c \<le> sint est"
    and "interleaving \<lparr>mgr = m0, pool = p0\<rparr>" and "tracks p0 Map.empty" and "uniform est m0"
  shows "\<exists>p. safe est bill m0 s p"
  using assms(1)
proof (induction rule: serving.induct)
  case serving_start
  then show ?case using assms(4-6) by (auto simp: safe_def)
next
  case (serving_arrive s i t)
  then obtain p where p: "safe est bill m0 s p" by blast
  then have "p i = None \<or> (\<exists>ans. p i = Some (Returned ans))" using serving_arrive(2) by (auto simp: safe_def tracks_def dest: spec [of _ i])
  with p tracks_quiet [of p "jobs s" "Arrived t" i] show ?case by (auto simp: safe_def intro!: exI [of _ p])
next
  case (serving_step s i j j' m')
  then show ?case using safe_step [OF _ serving_step(2-4) assms(2,3)] by blast
qed

section \<open>A request that runs alone is a job\<close>

abbreviation job_run :: "micros \<Rightarrow> duration \<Rightarrow> (micros \<Rightarrow> bool) \<Rightarrow> Job \<times> Manager \<Rightarrow> Job \<times> Manager \<Rightarrow> bool" where
  "job_run est ttl bill \<equiv> (job_step est ttl bill)\<^sup>*\<^sup>*"

lemma solo_steps:
  assumes "\<And>inp pc m pc' m'. exec inp pc m = (pc', m') \<Longrightarrow> job_step est ttl bill (J pc, m) (J pc', m')"
    and "solo inps pc m = (pc', m')"
  shows "job_run est ttl bill (J pc, m) (J pc', m')"
  using assms(2)
proof (induction inps arbitrary: pc m)
  case (Cons inp inps)
  obtain pc1 m1 where e: "exec inp pc m = (pc1, m1)" by fastforce
  then have "solo inps pc1 m1 = (pc', m')" using Cons.prems by simp
  from converse_rtranclp_into_rtranclp [of "job_step est ttl bill", OF assms(1) [OF e] Cons.IH [OF this]] show ?case .
qed simp

lemma solo_job:
  assumes "solo inps pc m = (pc', m')"
  shows "job_run est ttl bill (Asking t pc, m) (Asking t pc', m')"
    and "job_run est ttl bill (Reserving pc, m) (Reserving pc', m')"
    and "job_run est ttl bill (Settling pc, m) (Settling pc', m')"
  by (rule solo_steps [OF _ assms]; blast intro: job_ask_run job_reserve_run job_settle_run)+

lemma Reserve_readings: "clk 0 = clk' 0 \<Longrightarrow> clk 1 = clk' 1 \<Longrightarrow> Reserve clk t a ttl m = Reserve clk' t a ttl m"
  by (simp add: Reserve_def del: One_nat_def cong: if_cong)

lemma job_run_step: "job_run est ttl bill a b \<Longrightarrow> job_step est ttl bill b c \<Longrightarrow> job_run est ttl bill a c"
  by (rule rtranclp.rtrancl_into_rtrancl)

lemma ask_job: "job_run est ttl bill (Arrived t, m) (Scored t, snd (getAccount t m))"
proof -
  obtain ans where "solo [undefined, undefined] (ExposureCall t) m = (Returned ans, snd (getAccount t m))"
    by (simp add: Exposure_of_def case_prod_unfold Let_def)
  from solo_job(1) [OF this, of est ttl bill t] job_ask
  have "job_run est ttl bill (Arrived t, m) (Asking t (Returned ans), snd (getAccount t m))"
    by (meson converse_rtranclp_into_rtranclp)
  then show ?thesis by (rule job_run_step) (rule job_score)
qed

lemma reserve_job:
  assumes "Reserve clk t est ttl m = (res, m')"
  shows "job_run est ttl bill (Scored t, m) (case res of Inl err \<Rightarrow> Answered | Inr r \<Rightarrow> Admitted r, m')"
proof -
  let ?i = "\<lambda>j. \<lparr>reading = clk j, scanned = []\<rparr>"
  have "Reserve (\<lambda>j. if j = 0 then clk 0 else clk 1) t est ttl m = (res, m')"
    using assms Reserve_readings [of "\<lambda>j. if j = 0 then clk 0 else clk 1" clk t est ttl m] by simp
  then have "solo [?i 0, ?i 0, ?i 0, ?i 1, ?i 0] (ReserveCall t est ttl) m = (Returned (AnsReserve res), m')"
    unfolding solo_Reserve Input.select_convs by simp
  from solo_job(2) [OF this, of est ttl bill] job_reserve
  have "job_run est ttl bill (Scored t, m) (Reserving (Returned (AnsReserve res)), m')"
    by (meson converse_rtranclp_into_rtranclp)
  then show ?thesis by (rule job_run_step) (auto intro: job_insufficient job_admit split: sum.splits)
qed

lemma settle_job:
  shows "job_run est ttl bill (Admitted r, m) (Answered, snd (Release (ResID r) m))"
    and "bill c \<Longrightarrow> job_run est ttl bill (Admitted r, m) (Answered, snd (Reconcile (ResID r) c m))"
proof -
  let ?i = "\<lparr>reading = 0, scanned = []\<rparr>"
  have "solo [?i, ?i, ?i] (ReleaseCall (ResID r)) m = (Returned (AnsRelease (fst (Release (ResID r) m))), snd (Release (ResID r) m))"
    unfolding solo_Release by (simp add: case_prod_unfold Let_def)
  from solo_job(3) [OF this, of est ttl bill] show "job_run est ttl bill (Admitted r, m) (Answered, snd (Release (ResID r) m))"
    by (meson converse_rtranclp_into_rtranclp job_release job_run_step job_done)
  have "solo [?i, ?i, ?i] (ReconcileCall (ResID r) c) m = (Returned (AnsReconcile (fst (Reconcile (ResID r) c m))), snd (Reconcile (ResID r) c m))"
    unfolding solo_Reconcile by (simp add: case_prod_unfold Let_def)
  from solo_job(3) [OF this, of est ttl bill]
  show "bill c \<Longrightarrow> job_run est ttl bill (Admitted r, m) (Answered, snd (Reconcile (ResID r) c m))"
    by (meson converse_rtranclp_into_rtranclp job_reconcile job_run_step job_done)
qed

lemma decide_job:
  assumes "decide clk p req d ts m = (d', ts', m')" and "DReservationID d = ''''"
  shows "if DAction d' = ActionAllow \<or> DAction d' = ActionThrottle
    then \<exists>r. ResID r = DReservationID d' \<and> job_run (ReqEstimate req) (ReservationTTL p) bill (Scored (ReqTenant req), m) (Admitted r, m')
    else DAction d' = ActionBlock \<and> job_run (ReqEstimate req) (ReservationTTL p) bill (Scored (ReqTenant req), m) (Answered, m')"
proof -
  have block: "job_run (ReqEstimate req) (ReservationTTL p) bill (Scored (ReqTenant req), m) (Answered, m)"
    by (intro r_into_rtranclp job_block)
  note res = reserve_job [of "clock_from 15 clk" "ReqTenant req" "ReqEstimate req" "ReservationTTL p" m _ _ bill]
    reserve_job [of "clock_from 18 clk" "ReqTenant req" "ReqEstimate req" "ReservationTTL p" m _ _ bill]
  show ?thesis using assms block
    by (auto simp: decide_def decide_block_def decide_throttle_def decide_allow_def Let_def
        split: if_splits prod.splits sum.splits dest!: res)
qed

lemma Evaluate_job:
  assumes "Evaluate clk req e m = (d, e', m')"
  shows "if DAction d = ActionAllow \<or> DAction d = ActionThrottle
    then \<exists>r. ResID r = DReservationID d \<and> job_run (ReqEstimate req) (ReservationTTL (policy e)) bill (Arrived (ReqTenant req), m) (Admitted r, m')
    else DAction d \<noteq> ActionAllowWithLimit \<and> job_run (ReqEstimate req) (ReservationTTL (policy e)) bill (Arrived (ReqTenant req), m) (Answered, m')"
  using assms
proof (cases rule: Evaluate_cases)
  case (1 ts)
  then show ?thesis using evaluate_killed_eq [OF 1(3)] by (auto intro: r_into_rtranclp job_refuse)
next
  case (2 ts b)
  have "m' = snd (getAccount (ReqTenant req) m)" "DAction d = ActionBlock"
    using 2(4) by (auto simp: evaluate_open_def Exposure_of_def decision0_def Let_def split: prod.splits)
  then show ?thesis using job_run_step [OF ask_job job_block] by simp
next
  case (3 ts b d1 ts1 m1)
  note m1 = evaluate_figures_eq(1,3) [OF 3(4)]
  from decide_job [OF 3(5) m1(2), of bill] show ?thesis
    using rtranclp_trans [OF ask_job] unfolding m1(1) by (fastforce split: if_splits)
qed

lemma execute_stage_job:
  assumes "execute_stage net clk c x rate d g = (res, g')" and "ResID r = DReservationID d"
    and "\<And>cost. bills net (GProviders g) (RCProvider (CallRoute c)) x rate cost \<Longrightarrow> bill cost"
  shows "job_run est ttl bill (Admitted r, GReserv g) (Answered, GReserv g')"
  using assms(1)
proof (cases rule: execute_stage_reserv)
  case released
  then show ?thesis using settle_job(1) [of est ttl bill r "GReserv g"] assms(2) by simp
next
  case settled
  have "bill (ResultCost res)" using assms(3) execute_stage_bills [OF assms(1) settled(1)] by blast
  from settle_job(2) [of bill, OF this, of est ttl r "GReserv g"] settled(2) assms(2) show ?thesis by simp
qed

section \<open>The start\<close>

lemma boot_interleaving:
  assumes "gateway_main host = Inr run" and "sint (DemoBudgetMinor (runConfig run)) \<le> 10 ^ 14"
  shows "\<exists>p0. interleaving \<lparr>mgr = GReserv (GW (runServer run)), pool = p0\<rparr> \<and> tracks p0 Map.empty
    \<and> uniform est (GReserv (GW (runServer run)))"
proof (cases "StoreMode (runConfig run) = StoreModePostgres")
  case True
  have "uniform est NewManager" by (simp add: uniform_def NewManager_def)
  then show ?thesis using conc_start boot_limits_postgres(1) [OF assms(1) True]
    by (intro exI [of _ Map.empty]) (simp add: tracks_def)
next
  case False
  obtain tn :: Tenant where m: "GReserv (GW (runServer run)) = SetBudget (TntID tn) (demo_budget (runConfig run)) NewManager"
    by (rule boot_memory [OF assms(1) False]) blast
  have "Load (hostEnv host) = Inr (runConfig run)" using assms(1) by (cases rule: gateway_main_cases) blast
  then have l: "0 \<le> sint (demo_budget (runConfig run))" using demo_budget_nonneg Load_budget_nonneg assms(2) by blast
  let ?pc = "SetBudgetCall (TntID tn) (demo_budget (runConfig run))"
  have "interleaving \<lparr>mgr = NewManager, pool = [0 \<mapsto> ?pc]\<rparr>" using conc_call [OF conc_start, of 0 ?pc] by simp
  from conc_exec [OF this, of 0 ?pc undefined] l
  have "interleaving \<lparr>mgr = GReserv (GW (runServer run)), pool = [0 \<mapsto> Returned AnsDone]\<rparr>" by (simp add: m NewManager_def)
  moreover have "tracks [0 \<mapsto> Returned AnsDone] Map.empty" by (simp add: tracks_def)
  moreover have "uniform est (GReserv (GW (runServer run)))"
    by (simp add: m uniform_def SetBudget_def put_account_def NewManager_def Let_def)
  ultimately show ?thesis by blast
qed

text \<open>The costs that the providers of the running process can cause.\<close>

definition boot_bill :: "'db Running \<Rightarrow> micros \<Rightarrow> bool" where
  "boot_bill run cost \<longleftrightarrow> (\<exists>net name x. bills net (GProviders (GW (runServer run))) name x boot_rate cost)"

lemma boot_bill_within:
  assumes "gateway_main host = Inr run" and "boot_bill run c"
  shows "0 \<le> sint c \<and> sint c \<le> sint (Estimate boot_rate 100 100)"
proof -
  have "booted (GProviders (GW (runServer run)))" using assms(1) by (cases rule: gateway_main_cases) (auto intro: boot_booted)
  from booted_usage [OF this] assms(2) have "c \<in> {100, 30000}" unfolding boot_bill_def bills_def by metis
  then show ?thesis by (auto simp: boot_estimate)
qed

section \<open>Properties\<close>

text \<open>
  C6: a request that runs alone is a job: whatever \<open>HandleRequest\<close> does to the manager, on every path, is a
  sequence of the calls and answers of a job that reserves the estimate and settles what the provider's usage
  costs.
\<close>

theorem request_is_a_job:
  assumes "HandleRequest net clk c x ni no n g = (res, g')"
    and "RateAt (GPricing g) (RCProvider (CallRoute c)) (RCModel (CallRoute c)) (clk 0) = Inr rate"
  shows "job_run (Estimate rate ni no) (ReservationTTL (policy (GRisk g))) (bills net (GProviders g) (RCProvider (CallRoute c)) x rate)
    (Arrived (CallTenant c), GReserv g) (Answered, GReserv g')"
proof -
  let ?req = "\<lparr>ReqTenant = CallTenant c, ReqRoute = RCRoute (CallRoute c), ReqProvider = RCProvider (CallRoute c),
          ReqEstimate = Estimate rate ni no, ReqConcurrency = n\<rparr>"
  let ?bill = "bills net (GProviders g) (RCProvider (CallRoute c)) x rate"
  let ?run = "job_run (Estimate rate ni no) (ReservationTTL (policy (GRisk g))) ?bill"
  obtain d e m where ev: "Evaluate (clock_from 3 clk) ?req (GRisk g) (GReserv g) = (d, e, m)" by (metis prod_cases3)
  obtain g1 where d: "dispatch net clk c x rate (Estimate rate ni no) d g1 = (res, g')" and g1: "GReserv g1 = m" "GProviders g1 = GProviders g"
    using assms ev by (auto simp: HandleRequest_def Let_def)
  note job = Evaluate_job [OF ev, of ?bill, simplified]
  consider r where "DAction d = ActionAllow" "ResID r = DReservationID d" "?run (Arrived (CallTenant c), GReserv g) (Admitted r, m)"
    | r where "DAction d = ActionThrottle" "?run (Arrived (CallTenant c), GReserv g) (Admitted r, m)"
    | "DAction d \<notin> {ActionAllow, ActionAllowWithLimit, ActionThrottle}" "?run (Arrived (CallTenant c), GReserv g) (Answered, m)"
    using job by (auto split: if_splits)
  then show ?thesis
  proof cases
    case (1 r)
    obtain g2 where e: "execute_stage net clk c x rate d g2 = (res, g')" and g2: "GReserv g2 = m" "GProviders g2 = GProviders g"
      using d 1(1) g1 by (auto simp: dispatch_def)
    from execute_stage_job [OF e 1(2), of ?bill] g2 have "?run (Admitted r, m) (Answered, GReserv g')" by simp
    with 1(3) show ?thesis by (rule rtranclp_trans)
  next
    case (2 r)
    then have "GReserv g' = m" using d g1 by (auto simp: dispatch_def split: if_splits)
    then show ?thesis using job_run_step [OF 2(2) job_throttle] by simp
  next
    case 3
    then have "GReserv g' = m" using d g1 by (auto simp: dispatch_def split: if_splits)
    then show ?thesis using 3(2) by simp
  qed
qed

theorem request_is_a_job_witness:
  "job_run 40 (ReservationTTL DefaultPolicy) (bills demo_net (GProviders demo_gateway) ''mock'' demo_exec ((demo_rate 1 0)\<lparr>RateProvider := ''mock''\<rparr>))
     (Arrived ''t'', GReserv demo_gateway) (Answered, GReserv (snd demo_run))"
proof -
  obtain res g' where h: "demo_run = (res, g')" by fastforce
  then have h': "HandleRequest demo_net (\<lambda>i. 5) demo_caller demo_exec 40 0 1 demo_gateway = (res, g')" by (simp add: demo_run_def)
  have "policy (GRisk demo_gateway) = DefaultPolicy" by (simp add: demo_gateway_def gateway_New_def demo_engine_def NewEngine_def)
  with request_is_a_job [OF h'] demo_run_rate demo_run_estimate show ?thesis by (simp add: h demo_caller_def)
qed

text \<open>
  C2: concurrent requests never overspend. Let any number of requests of any tenants run in goroutines of
  their own over the manager that \<open>main\<close> has set up, their critical sections interleaved in any way, with any
  decisions of the risk engine and any behaviour of the upstream: at every moment every account has
  non-negative counters and reserved + settled within the limit that \<open>main\<close> gave it.
\<close>

theorem concurrent_requests_never_overspend:
  assumes "gateway_main host = Inr run" and "sint (DemoBudgetMinor (runConfig run)) \<le> 10 ^ 14"
    and "serving (Estimate boot_rate 100 100) (ReservationTTL DefaultPolicy) (boot_bill run) (GReserv (GW (runServer run))) s"
    and "accounts (smgr s) t = Some acc"
  shows "0 \<le> sint (reserved acc) \<and> 0 \<le> sint (settled acc) \<and> sint (reserved acc) + sint (settled acc) \<le> sint (limit acc)
    \<and> limit acc \<in> {0, demo_budget (runConfig run)}"
proof -
  have e: "0 \<le> sint (Estimate boot_rate 100 100)" by (simp add: boot_estimate)
  obtain p0 where p0: "interleaving \<lparr>mgr = GReserv (GW (runServer run)), pool = p0\<rparr>" "tracks p0 Map.empty"
    "uniform (Estimate boot_rate 100 100) (GReserv (GW (runServer run)))"
    using boot_interleaving [OF assms(1,2)] by blast
  obtain p where p: "safe (Estimate boot_rate 100 100) (boot_bill run) (GReserv (GW (runServer run))) s p"
    using serving_safe [OF assms(3) e boot_bill_within [OF assms(1)] p0] by blast
  then have "sound (in_flight p) (smgr s)" and sl: "same_limits (GReserv (GW (runServer run))) (smgr s)"
    using interleaving_ok [of "\<lparr>mgr = smgr s, pool = p\<rparr>"] by (auto simp: safe_def conc_ok_def)
  then have "within_limit acc" using sound_account [OF _ assms(4)] by blast
  moreover have "acc_of (smgr s) t = acc" using assms(4) by (simp add: acc_of_def)
  then have "sint (limit acc) = boot_limits run t" using sl by (auto simp: same_limits_def boot_limits_def)
  then have "limit acc \<in> {0, demo_budget (runConfig run)}"
    using boot_limits_values [OF assms(1), of t] by (auto simp: signed_eq_0_iff intro: signed_word_eqI)
  ultimately show ?thesis by (simp add: within_limit_def)
qed

theorem concurrent_requests_never_overspend_witness:
  "\<exists>run (s :: Serving) t acc. gateway_main (demo_host bare_env) = Inr run \<and> jobs s 0 = Some (Arrived t) \<and> jobs s 1 = Some (Asking t (ExposureCall t))
     \<and> accounts (smgr s) t = Some acc \<and> limit acc = 10000000 \<and> sint (reserved acc) + sint (settled acc) \<le> sint (limit acc)"
proof -
  obtain run where run: "gateway_main (demo_host bare_env) = Inr run" "runConfig run = initial_config bare_env" using bare_runs by blast
  have "StoreMode (runConfig run) \<noteq> StoreModePostgres" by (simp add: run(2) quiet_memory [OF bare_quiet])
  then obtain tn :: Tenant where m: "GReserv (GW (runServer run)) = SetBudget (TntID tn) 10000000 NewManager"
    by (rule boot_memory [OF run(1)]) (simp add: run(2) bare_budget)
  then obtain acc where a: "accounts (GReserv (GW (runServer run))) (TntID tn) = Some acc" "limit acc = 10000000"
    by (simp add: SetBudget_def put_account_def Let_def)
  have b: "sint (DemoBudgetMinor (runConfig run)) \<le> 10 ^ 14" by (simp add: run(2) initial_config_def)
  let ?m = "GReserv (GW (runServer run))" and ?t = "TntID tn"
  let ?S = "serving (Estimate boot_rate 100 100) (ReservationTTL DefaultPolicy) (boot_bill run) ?m"
  have "?S \<lparr>smgr = ?m, jobs = [0 \<mapsto> Arrived ?t]\<rparr>" using serving_arrive [OF serving_start, where i = 0] by simp
  from serving_arrive [OF this, where i = 1 and t = ?t] have "?S \<lparr>smgr = ?m, jobs = [0 \<mapsto> Arrived ?t, 1 \<mapsto> Arrived ?t]\<rparr>" by simp
  from serving_step [OF this, where i = 1 and j = "Arrived ?t", OF _ _ job_ask]
  have s: "?S \<lparr>smgr = ?m, jobs = [0 \<mapsto> Arrived ?t, 1 \<mapsto> Asking ?t (ExposureCall ?t)]\<rparr>"
    by (simp add: m SetBudget_def put_account_def NewManager_def Let_def)
  let ?s = "\<lparr>smgr = ?m, jobs = [0 \<mapsto> Arrived ?t, 1 \<mapsto> Asking ?t (ExposureCall ?t)]\<rparr>"
  have j: "jobs ?s 0 = Some (Arrived ?t)" "jobs ?s 1 = Some (Asking ?t (ExposureCall ?t))" "accounts (smgr ?s) ?t = Some acc"
    using a(1) by simp_all
  from concurrent_requests_never_overspend [OF run(1) b s j(3)] run(1) j a(2) show ?thesis by blast
qed

end
