(* ===== verification/Manager_Locks.thy ===== *)
theory Manager_Locks
  imports Reservation_Conc
begin

text \<open>
  The mutexes of the reservation manager (\<open>internal/reservation/reservation.go\<close>). Each method is
  written out once more as the goroutine runs it, with every \<open>Lock\<close>, \<open>Unlock\<close>, \<open>RLock\<close> and
  \<open>RUnlock\<close> where the source has it, on every path; a deferred unlock stands before the return. What
  is done between them are the critical sections of \<open>Reservation\<close>. Goroutines block on mutexes as in
  Go. Proved are mutual exclusion, freedom from deadlock and that every call returns.
\<close>

section \<open>Code with locks\<close>

text \<open>
  \<open>MgrMu\<close> is the write side of \<open>Manager.mu\<close> and \<open>MgrRead\<close> its read side. \<open>Do f e\<close> is an action on the
  manager and the code that follows it, both depending on what the action finds.
\<close>

datatype Mutex = MgrMu | MgrRead | AccMu string | IdMu

datatype Code =
    Ret Answer
  | Lock Mutex Code
  | Unlock Mutex Code
  | Do "Input \<Rightarrow> Manager \<Rightarrow> Code" "Input \<Rightarrow> Manager \<Rightarrow> Manager"

abbreviation Look :: "(Manager \<Rightarrow> Code) \<Rightarrow> Code" where
  "Look f \<equiv> Do (\<lambda>inp. f) (\<lambda>inp m. m)"

text \<open>
  \<open>SetBudget\<close>, the one method that takes a mutex while it holds another. A new account is put in the map
  together with its limit: \<open>Manager.mu\<close> is held all the while.
\<close>

definition code_SetBudget :: "string \<Rightarrow> micros \<Rightarrow> Code" where
  "code_SetBudget t l =
     Lock MgrMu (Lock (AccMu t)
       (Do (\<lambda>inp m. Unlock (AccMu t) (Unlock MgrMu (Ret AnsDone))) (\<lambda>inp m. SetBudget t l m)))"

definition code_getAccount :: "string \<Rightarrow> Code \<Rightarrow> Code" where
  "code_getAccount t k =
     Lock MgrRead (Look (\<lambda>m.
       Unlock MgrRead
         (if accounts m t \<noteq> None then k
          else Lock MgrMu (Do (\<lambda>inp m. Unlock MgrMu k)
                 (\<lambda>inp m. if accounts m t \<noteq> None then m else put_account t account0 m)))))"

definition code_nextID :: "(string \<Rightarrow> Code) \<Rightarrow> Code" where
  "code_nextID k =
     Lock IdMu (Do (\<lambda>inp m. Unlock IdMu (k (fst (nextID (reading inp) m)))) (\<lambda>inp m. snd (nextID (reading inp) m)))"

definition code_Exposure :: "string \<Rightarrow> Code" where
  "code_Exposure t =
     code_getAccount t (Lock (AccMu t) (Look (\<lambda>m. Unlock (AccMu t) (Ret (AnsExposure (fst (Exposure_of t m)))))))"

definition code_Reserve :: "string \<Rightarrow> micros \<Rightarrow> duration \<Rightarrow> Code" where
  "code_Reserve t a ttl =
     code_getAccount t
       (Lock (AccMu t)
         (Do (\<lambda>inp m.
            if \<not> fst (reserve_commit t a m) then Unlock (AccMu t) (Ret (AnsReserve (Inl ErrInsufficientBudget)))
            else Unlock (AccMu t)
                   (Do (\<lambda>inp m. let now = reading inp in
                      code_nextID (\<lambda>rid. let r = new_reservation rid t a now ttl in
                        Lock MgrMu (Do (\<lambda>inp m. Unlock MgrMu (Ret (AnsReserve (Inr r)))) (\<lambda>inp m. put_reservation r m))))
                    (\<lambda>inp m. m)))
          (\<lambda>inp m. snd (reserve_commit t a m))))"

text \<open>The pointer \<open>r\<close> a method holds is the identifier; its tenant never changes and is read at the start.\<close>

definition code_Release :: "string \<Rightarrow> Code" where
  "code_Release k =
     Lock MgrMu (Look (\<lambda>m. Unlock MgrMu
       (case reservations m k of
          None \<Rightarrow> Ret (AnsRelease (Some ErrNotFound))
        | Some r \<Rightarrow>
            code_getAccount (ResTenant r)
              (Lock (AccMu (ResTenant r))
                (Do (\<lambda>inp m. Unlock (AccMu (ResTenant r)) (Ret (AnsRelease None)))
                    (\<lambda>inp m. release_apply (the (reservations m k)) m))))))"

definition code_Reconcile :: "string \<Rightarrow> micros \<Rightarrow> Code" where
  "code_Reconcile k cost =
     Lock MgrMu (Look (\<lambda>m. Unlock MgrMu
       (case reservations m k of
          None \<Rightarrow> Ret (AnsReconcile (Inl ErrNotFound))
        | Some r \<Rightarrow>
            code_getAccount (ResTenant r)
              (Lock (AccMu (ResTenant r))
                (Do (\<lambda>inp m. Unlock (AccMu (ResTenant r)) (Ret (AnsReconcile (fst (reconcile_apply (the (reservations m k)) cost m)))))
                    (\<lambda>inp m. snd (reconcile_apply (the (reservations m k)) cost m)))))))"

fun code_expire :: "(string \<times> string) list \<Rightarrow> nat \<Rightarrow> Code" where
  "code_expire [] n = Ret (AnsExpire n)"
| "code_expire ((k, t) # ks) n =
     code_getAccount t
       (Lock (AccMu t) (Do (\<lambda>inp m. Unlock (AccMu t) (code_expire ks n)) (\<lambda>inp m. expire_apply k m)))"

definition code_ExpireStale :: Code where
  "code_ExpireStale =
     Do (\<lambda>inp m. Lock MgrMu (Do (\<lambda>inp m. Unlock MgrMu
           (code_expire (map (\<lambda>k. (k, ResTenant (the (reservations m k)))) (scanned inp)) (length (scanned inp))))
         (\<lambda>inp m. m)))
       (\<lambda>inp m. m)"

definition code_Get :: "string \<Rightarrow> Code" where
  "code_Get k = Lock MgrRead (Look (\<lambda>m. Unlock MgrRead (Ret (AnsGet (Get k m)))))"

text \<open>The methods a goroutine can call.\<close>

fun code_of :: "Pc \<Rightarrow> Code option" where
  "code_of (SetBudgetCall t l) = Some (code_SetBudget t l)"
| "code_of (ExposureCall t) = Some (code_Exposure t)"
| "code_of (GetCall k) = Some (code_Get k)"
| "code_of (ReserveCall t a ttl) = Some (code_Reserve t a ttl)"
| "code_of (ReleaseCall k) = Some (code_Release k)"
| "code_of (ReconcileCall k c) = Some (code_Reconcile k c)"
| "code_of ExpireCall = Some code_ExpireStale"
| "code_of _ = None"

section \<open>Goroutines\<close>

text \<open>
  Who holds what: a set of goroutines for each mutex. \<open>free\<close> says when a goroutine may take a mutex: a
  reader keeps writers out, a writer everybody. Unlocking a mutex one does not hold is a fatal
  error in Go; it is no step.
\<close>

record Locked =
  lmgr :: Manager
  owners :: "Mutex \<Rightarrow> nat set"
  threads :: "nat \<rightharpoonup> Code"

fun free :: "Mutex \<Rightarrow> (Mutex \<Rightarrow> nat set) \<Rightarrow> bool" where
  "free MgrRead h \<longleftrightarrow> h MgrMu = {}"
| "free MgrMu h \<longleftrightarrow> h MgrMu = {} \<and> h MgrRead = {}"
| "free x h \<longleftrightarrow> h x = {}"

text \<open>One step of the goroutine \<open>i\<close>, where a scan finds at most \<open>n\<close> reservations.\<close>

inductive lock_step :: "nat \<Rightarrow> Locked \<Rightarrow> nat \<Rightarrow> Locked \<Rightarrow> bool" for n where
  takes: "threads c i = Some (Lock x k) \<Longrightarrow> free x (owners c) \<Longrightarrow>
    lock_step n c i (c\<lparr>owners := (owners c)(x := insert i (owners c x)), threads := (threads c)(i \<mapsto> k)\<rparr>)"
| gives: "threads c i = Some (Unlock x k) \<Longrightarrow> i \<in> owners c x \<Longrightarrow>
    lock_step n c i (c\<lparr>owners := (owners c)(x := owners c x - {i}), threads := (threads c)(i \<mapsto> k)\<rparr>)"
| acts: "threads c i = Some (Do f e) \<Longrightarrow> length (scanned inp) \<le> n \<Longrightarrow>
    lock_step n c i (c\<lparr>lmgr := e inp (lmgr c), threads := (threads c)(i \<mapsto> f inp (lmgr c))\<rparr>)"

inductive locked :: "nat \<Rightarrow> Locked \<Rightarrow> bool" for n where
  locked_start: "locked n \<lparr>lmgr = NewManager, owners = (\<lambda>x. {}), threads = Map.empty\<rparr>"
| locked_call: "locked n c \<Longrightarrow> threads c i = None \<or> threads c i = Some (Ret ans) \<Longrightarrow> code_of pc = Some code \<Longrightarrow>
    locked n (c\<lparr>threads := (threads c)(i \<mapsto> code)\<rparr>)"
| locked_step: "locked n c \<Longrightarrow> lock_step n c i c' \<Longrightarrow> locked n c'"

inductive lock_steps :: "nat \<Rightarrow> Locked \<Rightarrow> nat \<Rightarrow> Locked \<Rightarrow> bool" for n where
  no_steps: "lock_steps n c 0 c"
| more_steps: "lock_steps n c k c' \<Longrightarrow> lock_step n c' i c'' \<Longrightarrow> lock_steps n c (Suc k) c''"

text \<open>
  A goroutine that can go on. Go's \<open>RWMutex\<close> also keeps new readers out while a writer waits, so a reader only
  counts as able to go on if nobody waits for the write side.
\<close>

definition able :: "Locked \<Rightarrow> nat \<Rightarrow> bool" where
  "able c i = (case threads c i of
     Some (Lock x k) \<Rightarrow> free x (owners c) \<and> (x = MgrRead \<longrightarrow> (\<forall>j k'. threads c j \<noteq> Some (Lock MgrMu k')))
   | Some (Unlock x k) \<Rightarrow> i \<in> owners c x
   | Some (Do f e) \<Rightarrow> True
   | _ \<Rightarrow> False)"

section \<open>The locking discipline\<close>

text \<open>
  Code that holds the mutexes \<open>h\<close> is disciplined if it takes further ones in the order
  \<open>Manager.mu\<close>, account, \<open>idMu\<close>, gives back only what it holds, and returns with nothing.
\<close>

fun rank :: "Mutex \<Rightarrow> nat" where
  "rank MgrMu = 0" | "rank MgrRead = 0" | "rank (AccMu t) = 1" | "rank IdMu = 2"

primrec disciplined :: "Code \<Rightarrow> Mutex set \<Rightarrow> bool" where
  "disciplined (Ret ans) = (\<lambda>h. h = {})"
| "disciplined (Lock x k) = (\<lambda>h. (\<forall>y \<in> h. rank y < rank x) \<and> disciplined k (insert x h))"
| "disciplined (Unlock x k) = (\<lambda>h. x \<in> h \<and> disciplined k (h - {x}))"
| "disciplined (Do f e) = (\<lambda>h. \<forall>inp m. disciplined (f inp m) h)"

text \<open>\<open>bounded n code j\<close>: the code returns after at most \<open>j\<close> steps of its own.\<close>

primrec bounded :: "nat \<Rightarrow> Code \<Rightarrow> nat \<Rightarrow> bool" where
  "bounded n (Ret ans) = (\<lambda>j. True)"
| "bounded n (Lock x k) = (\<lambda>j. 0 < j \<and> bounded n k (j - 1))"
| "bounded n (Unlock x k) = (\<lambda>j. 0 < j \<and> bounded n k (j - 1))"
| "bounded n (Do f e) = (\<lambda>j. 0 < j \<and> (\<forall>inp m. length (scanned inp) \<le> n \<longrightarrow> bounded n (f inp m) (j - 1)))"

lemma disciplined_getAccount: "disciplined k {} \<Longrightarrow> disciplined (code_getAccount t k) {}"
  by (simp add: code_getAccount_def)

lemma disciplined_expire: "disciplined (code_expire ks n) {}"
  by (induction ks n rule: code_expire.induct) (auto intro!: disciplined_getAccount)

lemmas method_codes = code_SetBudget_def code_Exposure_def code_Reserve_def code_Release_def code_Reconcile_def
  code_ExpireStale_def code_Get_def code_nextID_def Let_def

lemma method_disciplined: "code_of pc = Some code \<Longrightarrow> disciplined code {}"
  by (cases pc) (auto simp: method_codes intro!: disciplined_getAccount disciplined_expire split: option.splits)

lemma bounded_mono: "bounded n k j \<Longrightarrow> j \<le> j' \<Longrightarrow> bounded n k j'"
proof (induction k arbitrary: j j')
  case (Do f e)
  have "bounded n (f inp m) (j' - 1)" if "length (scanned inp) \<le> n" for inp m
    using Do.IH [of "f inp" "f inp m" "j - 1" "j' - 1"] Do.prems that by auto
  then show ?case using Do.prems by auto
qed (auto intro: diff_le_mono)

lemma bounded_getAccount: "bounded n k j \<Longrightarrow> j' = 6 + j \<Longrightarrow> bounded n (code_getAccount t k) j'"
  using bounded_mono [of n k j "3 + j"] by (simp add: code_getAccount_def)

lemma bounded_expire: "bounded n (code_expire ks l) (9 * length ks)"
  by (induction ks l rule: code_expire.induct) (auto intro!: bounded_getAccount [where j = "3 + 9 * length _"])

lemma code_bounds:
  "bounded n (code_SetBudget t l) 5" "bounded n (code_Get k) 3" "bounded n (code_Exposure t) 9"
  "bounded n (code_Reserve t a ttl) 16" "bounded n (code_Release k) 12" "bounded n (code_Reconcile k cost) 12"
  "bounded n code_ExpireStale (4 + 9 * n)"
proof -
  show "bounded n (code_SetBudget t l) 5" "bounded n (code_Get k) 3" by (simp_all add: method_codes)
  show "bounded n (code_Exposure t) 9" by (auto simp: method_codes intro!: bounded_getAccount [where j = 3])
  show "bounded n (code_Reserve t a ttl) 16" by (auto simp: method_codes intro!: bounded_getAccount [where j = 10])
  show "bounded n (code_Release k) 12" "bounded n (code_Reconcile k cost) 12"
    by (auto simp: method_codes intro!: bounded_getAccount [where j = 3] split: option.splits)
  show "bounded n code_ExpireStale (4 + 9 * n)"
    by (auto simp: method_codes intro!: bounded_mono [OF bounded_expire])
qed

lemma method_bounded: "code_of pc = Some code \<Longrightarrow> bounded n code (16 + 9 * n)"
  by (cases pc) (auto intro: bounded_mono [OF code_bounds(1)] bounded_mono [OF code_bounds(2)] bounded_mono [OF code_bounds(3)]
      bounded_mono [OF code_bounds(4)] bounded_mono [OF code_bounds(5)] bounded_mono [OF code_bounds(6)] bounded_mono [OF code_bounds(7)])

section \<open>The invariant\<close>

definition holding :: "Locked \<Rightarrow> nat \<Rightarrow> Mutex set" where
  "holding c i = {x. i \<in> owners c x}"

definition exclusive :: "(Mutex \<Rightarrow> nat set) \<Rightarrow> bool" where
  "exclusive h \<longleftrightarrow> (\<forall>x i j. i \<in> h x \<longrightarrow> j \<in> h x \<longrightarrow> x \<noteq> MgrRead \<longrightarrow> i = j) \<and> (h MgrMu = {} \<or> h MgrRead = {})"

definition lock_ok :: "nat \<Rightarrow> Locked \<Rightarrow> bool" where
  "lock_ok n c \<longleftrightarrow> finite (dom (threads c)) \<and> exclusive (owners c) \<and> (\<forall>x. owners c x \<subseteq> dom (threads c))
     \<and> (\<forall>i code. threads c i = Some code \<longrightarrow> disciplined code (holding c i) \<and> bounded n code (16 + 9 * n))"

lemma exclusive_take: "exclusive h \<Longrightarrow> free x h \<Longrightarrow> exclusive (h(x := insert i (h x)))"
  by (cases x) (auto simp: exclusive_def)

lemma exclusive_give: "exclusive h \<Longrightarrow> exclusive (h(x := h x - {i}))"
  by (cases x) (auto simp: exclusive_def)

lemma lock_ok_step:
  assumes "lock_step n c i c'" and ok: "lock_ok n c"
  shows "lock_ok n c'"
  using assms(1)
proof cases
  case (takes x k)
  have t: "disciplined (Lock x k) (holding c i)" "bounded n (Lock x k) (16 + 9 * n)" using ok takes(2) unfolding lock_ok_def by blast+
  have "holding c' j = (if j = i then insert x (holding c i) else holding c j)" for j by (auto simp: takes(1) holding_def)
  then show ?thesis using ok t takes exclusive_take [of "owners c" x i] bounded_mono [of n k "15 + 9 * n" "16 + 9 * n"]
    by (auto simp: lock_ok_def)
next
  case (gives x k)
  have t: "disciplined (Unlock x k) (holding c i)" "bounded n (Unlock x k) (16 + 9 * n)" using ok gives(2) unfolding lock_ok_def by blast+
  have "holding c' j = (if j = i then holding c i - {x} else holding c j)" for j by (auto simp: gives(1) holding_def)
  then show ?thesis using ok t gives exclusive_give [of "owners c" x i] bounded_mono [of n k "15 + 9 * n" "16 + 9 * n"]
    by (auto simp: lock_ok_def)
next
  case (acts f e inp)
  have t: "disciplined (Do f e) (holding c i)" "bounded n (Do f e) (16 + 9 * n)" using ok acts(2) unfolding lock_ok_def by blast+
  have "holding c' j = holding c j" for j by (auto simp: acts(1) holding_def)
  then show ?thesis using ok t acts bounded_mono [of n "f inp (lmgr c)" "15 + 9 * n" "16 + 9 * n"]
    by (auto simp: lock_ok_def)
qed

lemma locked_ok: "locked n c \<Longrightarrow> lock_ok n c"
proof (induction rule: locked.induct)
  case locked_start
  then show ?case by (simp add: lock_ok_def exclusive_def)
next
  case (locked_call c i ans pc code)
  have "holding c i = {}" using locked_call.IH locked_call.hyps(2) by (fastforce simp: lock_ok_def holding_def)
  then show ?case using locked_call.IH method_disciplined [OF locked_call.hyps(3)] method_bounded [OF locked_call.hyps(3), of n]
    by (auto simp: lock_ok_def holding_def)
next
  case (locked_step c i c')
  then show ?case using lock_ok_step by blast
qed

section \<open>Somebody can always go on\<close>

lemma rank_le: "rank x \<le> 2"
  by (cases x) simp_all

lemma top_holder:
  assumes "j0 \<in> owners c x0"
  obtains j x where "j \<in> owners c x" "\<And>y. owners c y \<noteq> {} \<Longrightarrow> rank y \<le> rank x"
proof -
  obtain x where "owners c x \<noteq> {}" and "\<forall>y. owners c y \<noteq> {} \<longrightarrow> rank y \<le> rank x"
    using ex_has_greatest_nat [of "\<lambda>x. owners c x \<noteq> {}" x0 rank 3] assms rank_le by (metis empty_iff le_imp_less_Suc eval_nat_numeral(3))
  then show ?thesis using that by blast
qed

lemma top_holder_able:
  assumes ok: "lock_ok n c" and j: "j \<in> owners c x" and top: "\<And>y. owners c y \<noteq> {} \<Longrightarrow> rank y \<le> rank x"
  shows "able c j"
proof -
  have "j \<in> dom (threads c)" using ok j unfolding lock_ok_def by blast
  then obtain code where code: "threads c j = Some code" by blast
  have d: "disciplined code (holding c j)" and x: "x \<in> holding c j" using ok code j by (auto simp: lock_ok_def holding_def)
  show ?thesis
  proof (cases code)
    case (Lock y k)
    then have r: "rank x < rank y" using d x by auto
    then have "owners c y = {}" using top [of y] by force
    then show ?thesis using r code Lock by (cases y) (simp_all add: able_def)
  qed (use d x code in \<open>auto simp: able_def holding_def\<close>)
qed

lemma no_deadlock:
  assumes ok: "lock_ok n c" and i: "threads c i = Some code" and running: "\<And>ans. code \<noteq> Ret ans"
  shows "\<exists>j. able c j"
proof (cases "\<exists>j x. j \<in> owners c x")
  case True
  then show ?thesis using top_holder top_holder_able [OF ok] by metis
next
  case False
  then have h: "holding c i = {}" and none: "owners c = (\<lambda>x. {})" by (auto simp: holding_def)
  have d: "disciplined code {}" using ok i h unfolding lock_ok_def by metis
  have f: "free x (owners c)" for x by (cases x) (simp_all add: none)
  show ?thesis
  proof (cases code)
    case (Lock x k)
    show ?thesis
    proof (cases "\<exists>j k'. threads c j = Some (Lock MgrMu k')")
      case True
      then obtain j k' where "threads c j = Some (Lock MgrMu k')" by blast
      then have "able c j" using f [of MgrMu] by (simp add: able_def)
      then show ?thesis ..
    next
      case False
      then have "able c i" using f i Lock by (simp add: able_def)
      then show ?thesis ..
    qed
  next
    case (Unlock x k)
    then show ?thesis using d by simp
  next
    case (Do g e)
    then have "able c i" using i by (simp add: able_def)
    then show ?thesis ..
  qed (use running in simp)
qed

lemma able_steps: "able c i \<Longrightarrow> \<exists>c'. lock_step n c i c'"
  using lock_step.takes lock_step.gives lock_step.acts [of c i _ _ "\<lparr>reading = 0, scanned = []\<rparr>" n]
  by (fastforce simp: able_def split: option.splits Code.splits)

section \<open>Every call returns\<close>

text \<open>A budget of steps for each goroutine; a step takes one from the budget of the goroutine that makes it.\<close>

definition budgeted :: "nat \<Rightarrow> Locked \<Rightarrow> (nat \<Rightarrow> nat) \<Rightarrow> bool" where
  "budgeted n c b \<longleftrightarrow> (\<forall>i code. threads c i = Some code \<longrightarrow> bounded n code (b i))"

lemma budgetedD: "budgeted n c b \<Longrightarrow> threads c i = Some code \<Longrightarrow> bounded n code (b i)"
  by (simp add: budgeted_def)

lemma step_budget:
  assumes "lock_step n c i c'" and b: "budgeted n c b"
  shows "dom (threads c') = dom (threads c) \<and> i \<in> dom (threads c) \<and> 0 < b i \<and> budgeted n c' (b(i := b i - 1))"
  using assms(1)
proof cases
  case (takes x k)
  then show ?thesis using budgetedD [OF b takes(2)] b by (auto simp: budgeted_def)
next
  case (gives x k)
  then show ?thesis using budgetedD [OF b gives(2)] b by (auto simp: budgeted_def)
next
  case (acts f e inp)
  then show ?thesis using budgetedD [OF b acts(2)] b by (auto simp: budgeted_def)
qed

lemma steps_budget:
  assumes "lock_steps n c k c'" and "budgeted n c b" and "finite (dom (threads c))"
  shows "\<exists>b'. budgeted n c' b' \<and> dom (threads c') = dom (threads c) \<and> k + sum b' (dom (threads c)) = sum b (dom (threads c))"
  using assms
proof (induction rule: lock_steps.induct)
  case (more_steps c k c' i c'')
  then obtain b' where b': "budgeted n c' b'" "dom (threads c') = dom (threads c)"
    "k + sum b' (dom (threads c)) = sum b (dom (threads c))" by blast
  note s = step_budget [OF more_steps.hyps(2) b'(1)]
  define b'' where "b'' = b'(i := b' i - 1)"
  have "sum b'' (dom (threads c)) + 1 = sum b' (dom (threads c))"
    using s b'(2) more_steps.prems(2) sum.remove [of "dom (threads c)" i b'] sum.remove [of "dom (threads c)" i b'']
    by (simp add: b''_def)
  moreover have "budgeted n c'' b''" using s by (simp only: b''_def)
  ultimately show ?case using s b' by (intro exI [of _ b'']) simp
qed auto

lemma lock_steps_ok: "lock_steps n c k c' \<Longrightarrow> lock_ok n c \<Longrightarrow> lock_ok n c'"
  by (induction rule: lock_steps.induct) (auto intro: lock_ok_step)

lemma steps_bound:
  assumes "lock_steps n c k c'" and ok: "lock_ok n c"
  shows "k \<le> card (dom (threads c)) * (16 + 9 * n)"
proof -
  have "budgeted n c (\<lambda>i. 16 + 9 * n)" using ok by (simp add: lock_ok_def budgeted_def)
  from steps_budget [OF assms(1) this] ok show ?thesis by (auto simp: lock_ok_def)
qed

section \<open>The locked code is the code of the operations\<close>

text \<open>A goroutine on its own, with an input for each action: the locks never block it.\<close>

primrec run :: "Code \<Rightarrow> (nat \<Rightarrow> Input) \<Rightarrow> Manager \<Rightarrow> Answer \<times> Manager" where
  "run (Ret ans) = (\<lambda>inp m. (ans, m))"
| "run (Lock x k) = run k"
| "run (Unlock x k) = run k"
| "run (Do f e) = (\<lambda>inp m. run (f (inp 0) m) (\<lambda>i. inp (Suc i)) (e (inp 0) m))"

lemma run_getAccount [simp]: "run (code_getAccount t k) (\<lambda>i. inp) m = run k (\<lambda>i. inp) (snd (getAccount t m))"
  by (auto simp: code_getAccount_def getAccount_def)

lemma Exposure_of_getAccount: "fst (Exposure_of t (snd (getAccount t m))) = fst (Exposure_of t m)"
  by (simp add: Exposure_of_def)

lemma run_expire:
  assumes "books m" and "\<forall>(k, t) \<in> set ks. \<exists>r. reservations m k = Some r \<and> ResTenant r = t"
  shows "run (code_expire ks l) (\<lambda>i. inp) m = (AnsExpire l, fold expire_apply (map fst ks) m)"
  using assms
proof (induction ks l arbitrary: m rule: code_expire.induct)
  case (2 k t ks l)
  then obtain r where r: "reservations m k = Some r" "ResTenant r = t" by auto
  have b: "books (expire_apply k m)" using books_expire_apply [OF 2(2)] .
  have "\<forall>(k', t') \<in> set ks. \<exists>r. reservations (expire_apply k m) k' = Some r \<and> ResTenant r = t'"
    using 2(3) expire_keeps [OF 2(2)] by (fastforce simp: same_terms_def)
  from 2(1) [OF b this] show ?case using r expire_apply_getAccount [OF r(1)] by simp
qed simp

text \<open>
  Run alone, each method's code is the operation of \<open>Reservation\<close>: the same answer and the same manager.
\<close>

lemma locked_code_runs:
  "run (code_SetBudget t l) (\<lambda>i. inp) m = (AnsDone, SetBudget t l m)"
  "run (code_Get k) (\<lambda>i. inp) m = (AnsGet (Get k m), m)"
  "run (code_Exposure t) (\<lambda>i. inp) m = (let (xp, m') = Exposure_of t m in (AnsExposure xp, m'))"
  "run (code_Reserve t a ttl) (\<lambda>i. inp) m = (let (r, m') = Reserve (\<lambda>i. reading inp) t a ttl m in (AnsReserve r, m'))"
  "run (code_Release k) (\<lambda>i. inp) m = (let (r, m') = Release k m in (AnsRelease r, m'))"
  "run (code_Reconcile k cost) (\<lambda>i. inp) m = (let (r, m') = Reconcile k cost m in (AnsReconcile r, m'))"
  "books m \<Longrightarrow> scanned inp = stale_ids (reading inp) order m \<Longrightarrow>
   run code_ExpireStale (\<lambda>i. inp) m = (let (c, m') = ExpireStale (reading inp) order m in (AnsExpire c, m'))"
proof -
  show "run (code_SetBudget t l) (\<lambda>i. inp) m = (AnsDone, SetBudget t l m)"
    "run (code_Get k) (\<lambda>i. inp) m = (AnsGet (Get k m), m)" by (simp_all add: method_codes)
  show "run (code_Exposure t) (\<lambda>i. inp) m = (let (xp, m') = Exposure_of t m in (AnsExposure xp, m'))"
    by (simp add: method_codes Exposure_of_getAccount split: prod.splits) (metis Exposure_snd snd_conv)
  show "run (code_Reserve t a ttl) (\<lambda>i. inp) m = (let (r, m') = Reserve (\<lambda>i. reading inp) t a ttl m in (AnsReserve r, m'))"
    by (simp add: method_codes Reserve_def reserve_commit_def split: prod.splits)
  show "run (code_Release k) (\<lambda>i. inp) m = (let (r, m') = Release k m in (AnsRelease r, m'))"
    by (simp add: method_codes Release_def split: option.splits)
  show "run (code_Reconcile k cost) (\<lambda>i. inp) m = (let (r, m') = Reconcile k cost m in (AnsReconcile r, m'))"
    by (simp add: method_codes Reconcile_def split: option.splits prod.splits)
  assume b: "books m" and s: "scanned inp = stale_ids (reading inp) order m"
  have "\<forall>(k, t) \<in> set (map (\<lambda>k. (k, ResTenant (the (reservations m k)))) (scanned inp)).
      \<exists>r. reservations m k = Some r \<and> ResTenant r = t"
    using s by (auto simp: stale_ids_def split: option.splits)
  from run_expire [OF b this] show
    "run code_ExpireStale (\<lambda>i. inp) m = (let (c, m') = ExpireStale (reading inp) order m in (AnsExpire c, m'))"
    by (simp add: method_codes ExpireStale_def s comp_def)
qed

section \<open>Properties\<close>

text \<open>
  C29: no deadlock, and every call returns. Take any state that any number of goroutines reach by calling
  the methods of the manager in any order, with any arguments, and taking, giving back and waiting for its
  mutexes as the source does, and any steps they make from there without a new call. At every moment
  a mutex has one holder (the read side of \<open>Manager.mu\<close> has any number, and none while a writer
  holds it), and as long as some call has not returned, some goroutine can go on, also if waiting writers keep
  readers out; an unlock never finds the mutex unlocked. The goroutines together make at most \<open>16 + 9 n\<close>
  steps for each call, where \<open>n\<close> bounds what a scan of \<open>ExpireStale\<close> finds; so a schedule that does not stop
  while somebody can go on ends with all calls returned, and then all mutexes are free.
\<close>

theorem every_call_returns:
  assumes "locked n c" and "lock_steps n c k c'"
  shows "k \<le> card (dom (threads c)) * (16 + 9 * n)
    \<and> (\<forall>x i j. i \<in> owners c' x \<and> j \<in> owners c' x \<and> x \<noteq> MgrRead \<longrightarrow> i = j)
    \<and> (owners c' MgrMu = {} \<or> owners c' MgrRead = {})
    \<and> (\<forall>i x code. threads c' i = Some (Unlock x code) \<longrightarrow> i \<in> owners c' x)
    \<and> (\<forall>i. able c' i \<longrightarrow> (\<exists>c''. lock_step n c' i c''))
    \<and> ((\<exists>i. able c' i)
       \<or> (\<forall>i code. threads c' i = Some code \<longrightarrow> (\<exists>ans. code = Ret ans)) \<and> (\<forall>x. owners c' x = {}))"
proof -
  have ok: "lock_ok n c'" using lock_steps_ok [OF assms(2)] locked_ok [OF assms(1)] by blast
  have unlock: "\<forall>i x code. threads c' i = Some (Unlock x code) \<longrightarrow> i \<in> owners c' x"
    using ok by (fastforce simp: lock_ok_def holding_def)
  have ends: "(\<forall>i code. threads c' i = Some code \<longrightarrow> (\<exists>ans. code = Ret ans)) \<and> (\<forall>x. owners c' x = {})"
    if stuck: "\<not> (\<exists>i. able c' i)"
  proof -
    have "\<forall>i code. threads c' i = Some code \<longrightarrow> (\<exists>ans. code = Ret ans)" using no_deadlock [OF ok] stuck by blast
    moreover have "owners c' x = {}" for x using top_holder [of _ c' x] top_holder_able [OF ok] stuck by (metis equals0I)
    ultimately show ?thesis by blast
  qed
  show ?thesis
    using steps_bound [OF assms(2) locked_ok [OF assms(1)]] unlock ends able_steps ok
    unfolding lock_ok_def exclusive_def by blast
qed

text \<open>Two goroutines: one waits for the write side of \<open>Manager.mu\<close> while the other reads.\<close>

definition busy :: Locked where
  "busy = \<lparr>lmgr = NewManager, owners = (\<lambda>x. {}), threads = [0 \<mapsto> code_SetBudget ''t'' 100, 1 \<mapsto> code_Get ''r'']\<rparr>"

theorem every_call_returns_witness:
  "locked 0 busy \<and> (\<exists>c'. lock_steps 0 busy 1 c' \<and> owners c' MgrRead = {1} \<and> \<not> able c' 0 \<and> (\<exists>i. able c' i))"
proof -
  have "locked 0 (\<lparr>lmgr = NewManager, owners = (\<lambda>x. {}), threads = Map.empty\<rparr>\<lparr>threads := [0 \<mapsto> code_SetBudget ''t'' 100]\<rparr>)"
    using locked_call [OF locked_start, of 0 _ "SetBudgetCall ''t'' 100"] by simp
  from locked_call [OF this, of 1 _ "GetCall ''r''"] have l: "locked 0 busy" by (simp add: busy_def fun_upd_twist)
  let ?c = "busy\<lparr>owners := (owners busy)(MgrRead := {1}), threads := (threads busy)(1 \<mapsto> Look (\<lambda>m. Unlock MgrRead (Ret (AnsGet (Get ''r'' m)))))\<rparr>"
  have "lock_step 0 busy 1 ?c"
    using lock_step.takes [of busy 1 MgrRead "Look (\<lambda>m. Unlock MgrRead (Ret (AnsGet (Get ''r'' m))))" 0]
    by (simp add: busy_def code_Get_def)
  then have s: "lock_steps 0 busy 1 ?c" using more_steps [OF no_steps] by fastforce
  have "threads ?c 0 = Some (code_SetBudget ''t'' 100)" "owners ?c MgrRead = {1}" by (simp_all add: busy_def)
  moreover from this have "\<not> able ?c 0" by (simp add: able_def code_SetBudget_def)
  moreover have "\<exists>i. able ?c i"
    using every_call_returns [OF l s] calculation(2) by blast
  ultimately show ?thesis using l s by blast
qed

end
