(* ===== verification/Spec2Isabelle.thy ===== *)
theory Spec2Isabelle
  imports Money Ledger Circuit Pricing Solvency Reservation_Conc Window Risk Score Provider Gateway
    Ratelimit Store Store_Postgres Config Httpapi Gateway_Main Deployment Requests Manager_Locks
begin

text \<open>
  VelocityGuard, a spending-control gateway in Go: this development models the program under
  \<open>src/internal\<close> and \<open>src/cmd/gateway\<close> and proves what makes it correct.

  \<^bold>\<open>The program.\<close> \<open>main\<close> loads a configuration, opens a control-plane store (in memory or Postgres),
  wires the components and serves HTTP. A request passes the limiter of its address, is routed, and on a tenant
  endpoint presents an API key, which the store maps to a tenant and scopes; the limiter of the tenant
  follows. \<open>/proxy/\<close> hands the request to the gateway: it prices an estimate, asks the risk engine, which
  checks kill switches, the tenant's circuit breaker, a risk score over rolling windows, and reserves the
  estimate in the tenant's budget; an allowed request is executed by the provider and reconciled at its actual
  cost, or its reservation is released; every step is appended to the event ledger. The operator flips the
  kill switches with a token of its own.

  \<^bold>\<open>Theories and sources.\<close> Each component has a theory with its data, its operations in the order of the
  source, their lemmas and properties.
  \<^item> \<open>Prelude\<close>: the collections \<open>op_defs\<close> and \<open>go_simps\<close>, \<open>int64\<close> as \<^typ>\<open>64 word\<close> with signed
    comparisons, sums over maps. \<open>Float64\<close>: binary64 arithmetic on rationals, rounded to nearest even.
    \<open>Decimal\<close>: decimal numerals and the buffer loop of \<open>itoa\<close>. \<open>GoTime\<close>, \<open>GoStrings\<close>, \<open>Sha256\<close>:
    what the source uses of \<open>time\<close>, \<open>strings\<close>, \<open>encoding/hex\<close>, \<open>net\<close> and \<open>crypto/sha256\<close>.
  \<^item> \<open>Money\<close> (\<open>money/money.go\<close>): micros and their conversions; \<open>FromFloat\<close> truncates.
  \<^item> \<open>Pricing\<close> (\<open>pricing/pricing.go\<close>): versioned rates; the past is immutable, the estimate exact.
  \<^item> \<open>Ledger\<close> (\<open>ledger/ledger.go\<close>): append-only, unique identifiers, a tenant's events.
  \<^item> \<open>Circuit\<close> (\<open>circuit/circuit.go\<close>): the breaker has the same runs as its documented machine, a step relation
    with the calls, their answers and the time.
  \<^item> \<open>Reservation\<close>, \<open>Solvency\<close>, \<open>Reservation_Conc\<close>, \<open>Manager_Locks\<close> (\<open>reservation/reservation.go\<close>): the
    manager as the composition of its critical sections; books, solvency and the refinement of an abstract budget on
    unbounded integers (locale \<open>budget_impl\<close>); any interleaving of the critical sections; and the methods
    once more with every lock and unlock, for mutual exclusion, freedom from deadlock and that every call returns.
  \<^item> \<open>Window\<close>, \<open>Risk\<close>, \<open>Score\<close> (\<open>risk/window.go\<close>, \<open>risk/engine.go\<close>): windows equal the history
    within the lookback; \<open>Evaluate\<close> on every path, what each decision does to budget and breaker; the
    score is bounded and monotone with its rounding.
  \<^item> \<open>Provider\<close> (\<open>provider/provider.go\<close>): header filtering, the mock and the HTTP provider, its client
    with time-out and redirect policy and the requests it puts on the wire, the registry.
  \<^item> \<open>Gateway\<close> (\<open>gateway/gateway.go\<close>): \<open>HandleRequest\<close> by stages (locale \<open>admission\<close>), how every
    path settles its hold and what it records.
  \<^item> \<open>Ratelimit\<close> (\<open>httpapi/ratelimit.go\<close>): token buckets in \<open>float64\<close>; a potential bounds admissions.
  \<^item> \<open>Store\<close>, \<open>Store_Postgres\<close> (\<open>store/\<close>): the interface as the locale \<open>key_store\<close>, a directory of
    keys with the laws of issue, revocation and lookup, interpreted on both implementations; for the
    in-memory store also the interleavings of \<open>Authenticate\<close>'s three critical sections.
  \<^item> \<open>Config\<close> (\<open>config/config.go\<close>): \<open>Load\<close> and \<open>Validate\<close>, exactly.
  \<^item> \<open>Httpapi\<close> (\<open>httpapi/httpapi.go\<close>): routing, authentication, every handler, the replies.
  \<^item> \<open>Gateway_Main\<close> (\<open>cmd/gateway/main.go\<close>): from environment to server, with every fatal exit.
  \<^item> \<open>Deployment\<close>: the process over time, request by request; \<open>Requests\<close>: requests in concurrent
    goroutines, reduced to their calls of the manager; this theory: a service with any prices, providers and
    budgets.

  \<^bold>\<open>Conventions.\<close> A method under one mutex is one function on the state; a method with several critical
  sections is their composition, and its interleavings are a step relation over program counters. Pointers
  shared between components are fields of one record. Errors are values: sums or options over the error
  datatypes of each package, whose texts are functions on them. Each reading of the clock is an argument, or
  the value of a \<open>clock\<close> at the number of its call site. The order in which Go visits a map is a list
  argument. \<open>time.Time\<close> is an integer of nanoseconds, durations and amounts are 64-bit words. A \<open>nil\<close>
  slice is \<open>None\<close>. \<open>float64\<close> has one zero, products are not fused, and a conversion to an integer out of
  range gives the smallest \<open>int64\<close>; no property relies on the last choice.

  \<^bold>\<open>Parameters.\<close> The URL parser, the transport and the reading of a redirect (\<open>Net\<close>), entropy (\<open>Draw\<close>), the database (\<open>Db\<close>, with
  the hypothesis \<open>runs_sql\<close>: a statement takes effect as its SQL says on the tables of the migration or fails,
  before or after its effect, with an error other than those the code interprets; of an error of the server
  only the SQLSTATE is fixed), \<open>ParseFloat\<close>, the Unicode
  case tables, the JSON decoder, the environment. Where a property has such a hypothesis its witness
  instantiates it with a concrete function. SHA-256 is concrete; where it matters that the keys of a run do not
  collide this is a hypothesis.

  \<^bold>\<open>Bounds and fuel.\<close> All functions are total and terminate by proof; there is no fuel. The counter of
  reservation identifiers is a 64-bit word: properties over long runs assume fewer than \<open>2 ^ 64 - 1\<close>
  reservations. The rate limits are bounded by \<open>2 ^ 20\<close> per second where their rounding error is, and the
  configured budget by \<open>10 ^ 14\<close> cents, below the overflow of \<open>FromFloat\<close>.

  \<^bold>\<open>Side conditions.\<close> The code does not check them, and without them the statements fail.
  \<^item> Solvency of a manager with arbitrary callers (\<open>manager_refines_budget\<close>, \<open>interleavings_never_overspend\<close>,
    \<open>service_never_overspends\<close>): amounts reserved are not negative, every \<open>Reconcile\<close> of a reservation
    is at a cost from zero to the reserved amount, no budget is set below what its account has reserved and settled.
    \<open>overage_exceeds_limit\<close> shows a cost above the reservation taking an account over its limit. For the
    process that \<open>main\<close> starts the conditions are proved, from its rate and its providers
    (\<open>deployed_never_overspends\<close>, \<open>concurrent_requests_never_overspend\<close>).
  \<^item> The bound of the rate limiter (\<open>rate_limit_bound\<close>): rate and burst positive and at most \<open>2 ^ 20\<close>, and the
    burst at most 600 times the rate, because the sweeper forgets a bucket after ten idle minutes;
    \<open>sweep_refills_burst\<close> shows the bound failing above that.
  \<^item> The first call with the printed key (\<open>printed_key_serves\<close>): memory mode, no upstream, a demo budget of at
    least 30000 micros (three cents) and at most \<open>10 ^ 14\<close> cents, finite rate limits with bursts
    from 1 to \<open>2 ^ 100\<close>, a readable body of at most 2 MiB, a clock past 1970.
  \<^item> The breaker's runs (\<open>breaker_refines_phases\<close>): a positive cooldown and clock readings that do not go back.
  \<^item> That calls return (\<open>every_call_returns\<close>) is under schedules that do not stop while a goroutine can go
    on; it is not a claim that a single goroutine is never overtaken by an endless stream of new calls.

  \<^bold>\<open>Not modelled.\<close> Log output; the text of JSON replies (a reply carries its members); the listener with
  its time-outs, and the 30-second context of a proxied request, whose end shows as an error of the transport; the
  pool settings and \<open>Close\<close> of the database handle; the scheduling of the sweeper's ticker (a sweep may
  happen at any time); weak memory effects of the unsynchronised reads in \<open>ExpireStale\<close> and \<open>Get\<close> beyond
  leaving what the scan sees open. HTTP requests are handled one after the other in \<open>Deployment\<close>;
  their interleavings are treated where they share money (\<open>Requests\<close>, over \<open>Reservation_Conc\<close>) and keys
  (\<open>Store\<close>), not for the windows, breakers and limiters, each of which is atomic under its own mutex. The tests, the
  migrations (beyond the tables the statements use) and the static site are not part of the program's logic.
\<close>

section \<open>The whole service\<close>

text \<open>
  A running service: requests through the gateway, budgets set or changed, kill switches, prices
  and providers added, stale reservations expired, in any order. Two conditions are put on it that the
  code does not check: the cost a provider reports is within the estimate, and a budget is not set below what is
  committed.
\<close>

inductive service :: "Gateway \<Rightarrow> bool" where
  service_start: "service (gateway_New (NewEngine p) NewManager pricing_NewRegistry provider_NewRegistry ledger_New)"
| service_request: "service g \<Longrightarrow> unat (idCounter (GReserv g)) < 2 ^ 64 - 1 \<Longrightarrow>
    HandleRequest net clk c x estIn estOut conc g = (res, g') \<Longrightarrow>
    (\<And>rate. RateAt (GPricing g) (RCProvider (CallRoute c)) (RCModel (CallRoute c)) (clk 0) = Inr rate \<Longrightarrow>
      within_estimate rate estIn estOut res) \<Longrightarrow> service g'"
| service_budget: "service g \<Longrightarrow> fair (OpSetBudget t l) (GReserv g) \<Longrightarrow> service (g\<lparr>GReserv := SetBudget t l (GReserv g)\<rparr>)"
| service_expire: "service g \<Longrightarrow> service (g\<lparr>GReserv := snd (ExpireStale now order (GReserv g))\<rparr>)"
| service_exposure: "service g \<Longrightarrow> service (g\<lparr>GReserv := snd (Exposure_of t (GReserv g))\<rparr>)"
| service_kill_all: "service g \<Longrightarrow> service (g\<lparr>GRisk := KillAll on (GRisk g)\<rparr>)"
| service_kill_tenant: "service g \<Longrightarrow> service (g\<lparr>GRisk := KillTenant t on (GRisk g)\<rparr>)"
| service_kill_provider: "service g \<Longrightarrow> service (g\<lparr>GRisk := KillProvider q on (GRisk g)\<rparr>)"
| service_price: "service g \<Longrightarrow> service (g\<lparr>GPricing := AddRate r (GPricing g)\<rparr>)"
| service_provider: "service g \<Longrightarrow> service (g\<lparr>GProviders := Register q (GProviders g)\<rparr>)"
| service_event: "service g \<Longrightarrow> service (emit now e g)"

lemma service_solvent: "service g \<Longrightarrow> solvent (GReserv g)"
proof (induction rule: service.induct)
  case (service_request g net clk c x estIn estOut conc res g')
  then show ?case using HandleRequest_solvent by blast
next
  case (service_expire g now order)
  then show ?case using solvent_manager_op [of "GReserv g" "OpExpireStale now order"] by simp
qed (simp_all add: gateway_New_def solvent_New solvent_SetBudget solvent_getAccount)

text \<open>
  C14: a service whose costs stay within the estimates never overspends: through any sequence of requests
  (of any tenants, with any decisions and any provider failures, with non-negative estimates and actual costs from
  zero to the estimate), budget changes that do not go below what the account has reserved and settled,
  kill-switch flips, price and provider registrations and expiries, with fewer than \<open>2 ^ 64 - 1\<close> reservations,
  every account keeps reserved + settled within its limit, with both counters non-negative.
\<close>

theorem service_never_overspends:
  assumes "service g" and "accounts (GReserv g) t = Some acc"
  shows "0 \<le> sint (reserved acc) \<and> 0 \<le> sint (settled acc)
    \<and> sint (reserved acc) + sint (settled acc) \<le> sint (limit acc)"
  using sound_account [OF solvent_sound [OF service_solvent [OF assms(1)]] assms(2)]
  by (simp add: within_limit_def)

theorem service_never_overspends_witness:
  "\<exists>acc. accounts (GReserv (snd demo_run)) ''t'' = Some acc \<and> 0 \<le> sint (reserved acc) \<and> 0 \<le> sint (settled acc)
     \<and> sint (reserved acc) + sint (settled acc) \<le> sint (limit acc)"
proof -
  let ?g = "gateway_New (NewEngine DefaultPolicy) NewManager pricing_NewRegistry provider_NewRegistry ledger_New"
  let ?r = "(demo_rate 1 0)\<lparr>RateProvider := ''mock''\<rparr>"
  let ?p = "Mock (NewMockProvider ''mock'' (Some (\<lambda>req. \<lparr>InputUnits = 30, OutputUnits = 0\<rparr>)))"
  let ?g1 = "?g\<lparr>GReserv := SetBudget ''t'' 100 (GReserv ?g)\<rparr>"
  let ?g2 = "?g1\<lparr>GPricing := AddRate ?r (GPricing ?g1)\<rparr>"
  have "service ?g1"
    by (rule service_budget [OF service_start]) (simp add: gateway_New_def NewManager_def)
  from service_provider [OF service_price [OF this, of ?r], of ?p] have g: "service demo_gateway"
    by (simp add: demo_gateway_def gateway_New_def demo_engine_def demo_funded_def)
  obtain res g' where h: "demo_run = (res, g')" by fastforce
  then have h': "HandleRequest demo_net (\<lambda>i. 5) demo_caller demo_exec 40 0 1 demo_gateway = (res, g')"
    by (simp add: demo_run_def)
  have w: "within_estimate rate 40 0 res"
    if "RateAt (GPricing demo_gateway) (RCProvider (CallRoute demo_caller)) (RCModel (CallRoute demo_caller)) 5 = Inr rate" for rate
  proof -
    have "Estimate rate 40 0 = 40" using that demo_run_rate demo_run_estimate by simp
    then show ?thesis using demo_run_executed unfolding h by (simp add: within_estimate_def)
  qed
  have "unat (idCounter (GReserv demo_gateway)) < 2 ^ 64 - 1" using demo_run_room by (simp add: can_reserve_def)
  from service_request [OF g this h' w] have s: "service g'" .
  then have b: "books (GReserv g')" using service_solvent solvent_books by blast
  obtain d where d: "ResultDecision res = Some d" "DAction d = ActionAllow" and e: "Executed res" "ResultCost res = 30"
    using demo_run_executed unfolding h by auto
  have room: "can_reserve (GReserv demo_gateway) (Estimate ?r 40 0)" using demo_run_room by (simp add: demo_run_estimate)
  from h' demo_run_solvent demo_run_rate room have "aSpent (view (GReserv g')) ''t'' = aSpent (view (GReserv demo_gateway)) ''t'' + 30"
    by (cases rule: HandleRequest_budget) (use e in \<open>auto simp: demo_run_estimate demo_caller_def simp del: view_sel\<close>)
  moreover have "aSpent (view (GReserv demo_gateway)) ''t'' = 0"
    by (simp add: demo_gateway_def gateway_New_def acc_of_def demo_funded_def SetBudget_def put_account_def NewManager_def account0_def)
  ultimately have "accounts (GReserv g') ''t'' \<noteq> None"
    by (cases "accounts (GReserv g') ''t''") (simp_all add: acc_of_def account0_def)
  then obtain acc where a: "accounts (GReserv g') ''t'' = Some acc" by blast
  with service_never_overspends [OF s a] show ?thesis unfolding h by auto
qed

end
